(* ===== verification/Prelude.thy ===== *)
theory Prelude
  imports
    Main
    "HOL-Library.Word"
    "HOL-Library.Sublist"
    "HOL-Library.Char_ord"
    "HOL-Library.List_Lexorder"
    "HOL-Library.Product_Lexorder"
    "HOL-Library.Multiset"
begin

text \<open>
  Shared vocabulary of the development: results, the standard-library operations
  the Rust sources use (\<open>find_map\<close>, \<open>split\<close>, \<open>starts_with\<close>, \<open>BTreeMap\<close>, decimal
  formatting, ASCII case folding, \<open>trim\<close>), and the generic lemmas about them.

  A Rust \<open>String\<close> is its UTF-8 byte sequence: a \<^typ>\<open>string\<close> whose characters are
  bytes, so \<open>len()\<close> is \<^const>\<open>length\<close> and the derived \<open>Ord\<close> is the lexicographic
  order of \<^verbatim>\<open>List_Lexorder\<close> over \<^verbatim>\<open>Char_ord\<close>.
\<close>

named_theorems res_simps \<open>evaluation of the result combinators\<close>
named_theorems str_simps \<open>evaluation of the string operations\<close>

type_synonym u8 = "8 word"
type_synonym u16 = "16 word"
type_synonym u32 = "32 word"
type_synonym u64 = "64 word"

type_synonym bytes = "u8 list"

section \<open>Results\<close>

text \<open>\<open>Result<T, E>\<close> is the sum \<open>'e + 'a\<close>; \<open>?\<close> and \<open>and_then\<close> are \<open>res_bind\<close>.\<close>

definition res_bind :: "'e + 'a \<Rightarrow> ('a \<Rightarrow> 'e + 'b) \<Rightarrow> 'e + 'b" where
  "res_bind m f = (case m of Inl e \<Rightarrow> Inl e | Inr x \<Rightarrow> f x)"

lemma res_bind_simps [simp, res_simps]:
  "res_bind (Inl e) f = Inl e"
  "res_bind (Inr x) f = f x"
  by (simp_all add: res_bind_def)

lemma res_bind_Inr_iff: "res_bind m f = Inr y \<longleftrightarrow> (\<exists>x. m = Inr x \<and> f x = Inr y)"
  by (cases m) simp_all

lemma res_bind_InrE [elim]:
  assumes "res_bind m f = Inr y"
  obtains x where "m = Inr x" "f x = Inr y"
  using assms by (auto simp: res_bind_Inr_iff)

definition map_err :: "('e \<Rightarrow> 'f) \<Rightarrow> 'e + 'a \<Rightarrow> 'f + 'a" where
  "map_err g m = (case m of Inl e \<Rightarrow> Inl (g e) | Inr x \<Rightarrow> Inr x)"

lemma map_err_simps [simp, res_simps]:
  "map_err g (Inl e) = Inl (g e)"
  "map_err g (Inr x) = Inr x"
  by (simp_all add: map_err_def)

definition ok_or :: "'e \<Rightarrow> 'a option \<Rightarrow> 'e + 'a" where
  "ok_or e v = (case v of None \<Rightarrow> Inl e | Some x \<Rightarrow> Inr x)"

lemma ok_or_simps [simp, res_simps]:
  "ok_or e None = Inl e"
  "ok_or e (Some x) = Inr x"
  by (simp_all add: ok_or_def)

lemma ok_or_Inr_iff [simp]: "ok_or e v = Inr x \<longleftrightarrow> v = Some x"
  by (cases v) simp_all

text \<open>\<open>iter().map(f).collect::<Result<Vec<_>, _>>()\<close>: stops at the first error.\<close>

fun collect_res :: "('a \<Rightarrow> 'e + 'b) \<Rightarrow> 'a list \<Rightarrow> 'e + 'b list" where
  "collect_res f [] = Inr []"
| "collect_res f (x # xs) =
     res_bind (f x) (\<lambda>y. res_bind (collect_res f xs) (\<lambda>ys. Inr (y # ys)))"

lemma collect_res_Inr_iff:
  "collect_res f xs = Inr ys \<longleftrightarrow> list_all2 (\<lambda>x y. f x = Inr y) xs ys"
  by (induction xs arbitrary: ys) (auto simp: res_bind_Inr_iff list_all2_Cons1)

lemma collect_res_length: "collect_res f xs = Inr ys \<Longrightarrow> length ys = length xs"
  by (simp add: collect_res_Inr_iff list_all2_lengthD)

lemma collect_res_map_Inr: "(\<And>x. x \<in> set xs \<Longrightarrow> f (g x) = Inr x) \<Longrightarrow> collect_res f (map g xs) = Inr xs"
  by (induction xs) simp_all

text \<open>A call that may unwind: it returns or panics.\<close>

datatype 'a outcome = Returns 'a | Panics

text \<open>\<open>?\<close> in a function whose steps may panic.\<close>

definition try_bind :: "('e + 'a) outcome \<Rightarrow> ('a \<Rightarrow> ('e + 'b) outcome) \<Rightarrow> ('e + 'b) outcome" where
  "try_bind m f = (case m of Panics \<Rightarrow> Panics | Returns (Inl e) \<Rightarrow> Returns (Inl e) | Returns (Inr x) \<Rightarrow> f x)"

lemma try_bind_simps [simp, res_simps]:
  "try_bind Panics f = Panics"
  "try_bind (Returns (Inl e)) f = Returns (Inl e)"
  "try_bind (Returns (Inr x)) f = f x"
  by (simp_all add: try_bind_def)

lemma try_bind_InrE [elim]:
  assumes "try_bind m f = Returns (Inr y)"
  obtains x where "m = Returns (Inr x)" "f x = Returns (Inr y)"
  using assms by (auto simp: try_bind_def split: outcome.splits sum.splits)

lemma try_bind_returns:
  assumes "m \<noteq> Panics" "\<And>x. m = Returns (Inr x) \<Longrightarrow> f x \<noteq> Panics"
  shows "try_bind m f \<noteq> Panics"
  using assms by (auto simp: try_bind_def split: outcome.splits sum.splits)

section \<open>Iterators\<close>

fun find_map :: "('a \<Rightarrow> 'b option) \<Rightarrow> 'a list \<Rightarrow> 'b option" where
  "find_map f [] = None"
| "find_map f (x # xs) = (case f x of Some y \<Rightarrow> Some y | None \<Rightarrow> find_map f xs)"

lemma find_map_None_iff: "find_map f xs = None \<longleftrightarrow> (\<forall>x\<in>set xs. f x = None)"
  by (induction xs) (auto split: option.splits)

lemma find_map_SomeD: "find_map f xs = Some y \<Longrightarrow> \<exists>x\<in>set xs. f x = Some y"
  by (induction xs) (auto split: option.splits)

lemma find_map_Some_split:
  assumes "find_map f xs = Some y"
  obtains us x vs where "xs = us @ x # vs" "f x = Some y" "\<forall>u\<in>set us. f u = None"
proof -
  from assms have "\<exists>us x vs. xs = us @ x # vs \<and> f x = Some y \<and> (\<forall>u\<in>set us. f u = None)"
  proof (induction xs)
    case Nil
    then show ?case by simp
  next
    case (Cons z xs)
    show ?case
    proof (cases "f z")
      case None
      with Cons obtain us x vs where
        "xs = us @ x # vs" "f x = Some y" "\<forall>u\<in>set us. f u = None" by auto
      with None have "z # xs = (z # us) @ x # vs" "\<forall>u\<in>set (z # us). f u = None" by simp_all
      with \<open>f x = Some y\<close> show ?thesis by blast
    next
      case (Some w)
      with Cons.prems have "z # xs = [] @ z # xs \<and> f z = Some y" by simp
      then show ?thesis by (metis empty_iff list.set(1))
    qed
  qed
  with that show thesis by blast
qed

text \<open>\<open>iter().position(p)\<close>.\<close>

fun position :: "('a \<Rightarrow> bool) \<Rightarrow> 'a list \<Rightarrow> nat option" where
  "position p [] = None"
| "position p (x # xs) = (if p x then Some 0 else map_option Suc (position p xs))"

lemma position_None_iff: "position p xs = None \<longleftrightarrow> (\<forall>x\<in>set xs. \<not> p x)"
  by (induction xs) auto

lemma position_SomeD:
  "position p xs = Some i \<Longrightarrow> i < length xs \<and> p (xs ! i) \<and> (\<forall>j<i. \<not> p (xs ! j))"
proof (induction xs arbitrary: i)
  case Nil
  then show ?case by simp
next
  case (Cons x xs)
  then show ?case
    by (auto simp: less_Suc_eq_0_disj split: if_splits)
qed

lemma mem_map_filter: "y \<in> set (List.map_filter f xs) \<longleftrightarrow> (\<exists>x\<in>set xs. f x = Some y)"
  by (induction xs) (auto simp: List.map_filter_simps split: option.splits)

text \<open>\<open>slice.get(i)\<close>.\<close>

lemma position_nth:
  "distinct xs \<Longrightarrow> position (\<lambda>r. r = k) xs = Some i \<longleftrightarrow> i < length xs \<and> xs ! i = k"
proof (induction xs arbitrary: i)
  case Nil
  then show ?case by simp
next
  case (Cons x xs)
  then show ?case by (cases i) (auto simp: in_set_conv_nth)
qed

definition nth_opt :: "'a list \<Rightarrow> nat \<Rightarrow> 'a option" where
  "nth_opt xs i = (if i < length xs then Some (xs ! i) else None)"

lemma nth_opt_Some_iff [simp]: "nth_opt xs i = Some x \<longleftrightarrow> i < length xs \<and> xs ! i = x"
  by (auto simp: nth_opt_def)

lemma nth_opt_None_iff [simp]: "nth_opt xs i = None \<longleftrightarrow> length xs \<le> i"
  by (auto simp: nth_opt_def)

end
