(* ===== verification/RustStr.thy ===== *)
theory RustStr
  imports Prelude
begin

text \<open>
  The \<open>str\<close> operations the sources call, over byte strings: prefix and suffix tests,
  \<open>split\<close>, \<open>find\<close>, ASCII case folding, \<open>trim\<close>, decimal formatting. None of them is
  specific to one component; the lemmas are the facts the components reason with.
\<close>

section \<open>Prefixes, suffixes, search\<close>

fun starts_with :: "'a list \<Rightarrow> 'a list \<Rightarrow> bool" where
  "starts_with s [] = True"
| "starts_with [] (p # ps) = False"
| "starts_with (x # s) (p # ps) = (x = p \<and> starts_with s ps)"

definition ends_with :: "'a list \<Rightarrow> 'a list \<Rightarrow> bool" where
  "ends_with s p = starts_with (rev s) (rev p)"

definition strip_prefix :: "'a list \<Rightarrow> 'a list \<Rightarrow> 'a list option" where
  "strip_prefix s p = (if starts_with s p then Some (drop (length p) s) else None)"

definition strip_suffix :: "'a list \<Rightarrow> 'a list \<Rightarrow> 'a list option" where
  "strip_suffix s p = (if ends_with s p then Some (take (length s - length p) s) else None)"

text \<open>\<open>s.find(p)\<close>: the byte offset of the first occurrence.\<close>

fun find_sub :: "'a list \<Rightarrow> 'a list \<Rightarrow> nat option" where
  "find_sub [] p = (if p = [] then Some 0 else None)"
| "find_sub (x # s) p =
     (if starts_with (x # s) p then Some 0 else map_option Suc (find_sub s p))"

lemma starts_with_iff: "starts_with s p \<longleftrightarrow> (\<exists>r. s = p @ r)"
  by (induction s p rule: starts_with.induct) auto

lemma starts_with_append [simp]: "starts_with (p @ r) p"
  by (auto simp: starts_with_iff)

lemma starts_with_refl [simp]: "starts_with s s"
  by (auto simp: starts_with_iff)

lemma ends_with_iff: "ends_with s p \<longleftrightarrow> (\<exists>r. s = r @ p)"
  unfolding ends_with_def starts_with_iff
  by (metis rev_append rev_rev_ident)

lemma ends_with_append [simp]: "ends_with (r @ p) p"
  by (auto simp: ends_with_iff)

lemma strip_prefix_Some_iff [simp]: "strip_prefix s p = Some r \<longleftrightarrow> s = p @ r"
  by (auto simp: strip_prefix_def starts_with_iff)

lemma strip_prefix_append [simp]: "strip_prefix (p @ r) p = Some r"
  by simp

lemma strip_suffix_Some_iff [simp]: "strip_suffix s p = Some r \<longleftrightarrow> s = r @ p"
  by (auto simp: strip_suffix_def ends_with_iff)

lemma find_sub_SomeD:
  "find_sub s p = Some i \<Longrightarrow>
     i + length p \<le> length s \<and> take i s @ p @ drop (i + length p) s = s"
proof (induction s p arbitrary: i rule: find_sub.induct)
  case (1 p)
  then show ?case by (simp split: if_splits)
next
  case (2 x s p)
  show ?case
  proof (cases "starts_with (x # s) p")
    case True
    then obtain r where r: "x # s = p @ r" by (auto simp: starts_with_iff)
    from True "2.prems" have "i = 0" by simp
    then show ?thesis by (simp only: r) simp
  next
    case False
    with "2" show ?thesis by auto
  qed
qed

text \<open>The occurrence found is the leftmost one.\<close>

lemma find_sub_leftmost:
  assumes "s = u @ p @ v"
  shows "\<exists>i. find_sub s p = Some i \<and> i \<le> length u"
  using assms
proof (induction s p arbitrary: u rule: find_sub.induct)
  case (1 p)
  then show ?case by simp
next
  case (2 x s p)
  show ?case
  proof (cases "starts_with (x # s) p")
    case True
    then show ?thesis by simp
  next
    case False
    with "2.prems" obtain u' where "u = x # u'" "s = u' @ p @ v"
      by (cases u) (auto simp: starts_with_iff)
    with "2.IH" [OF False] False show ?thesis by fastforce
  qed
qed

lemma find_sub_None: "find_sub s p = None \<Longrightarrow> s \<noteq> u @ p @ v"
  using find_sub_leftmost [of s u p v] by auto

section \<open>Splitting\<close>

text \<open>\<open>s.split(c)\<close> for a character.\<close>

fun split_on :: "'a \<Rightarrow> 'a list \<Rightarrow> 'a list list" where
  "split_on c [] = [[]]"
| "split_on c (x # xs) =
     (if x = c then [] # split_on c xs
      else case split_on c xs of [] \<Rightarrow> [[x]] | y # ys \<Rightarrow> (x # y) # ys)"

text \<open>\<open>parts.join(c)\<close>.\<close>

fun join_with :: "'a list \<Rightarrow> 'a list list \<Rightarrow> 'a list" where
  "join_with sep [] = []"
| "join_with sep [x] = x"
| "join_with sep (x # y # zs) = x @ sep @ join_with sep (y # zs)"

lemma split_on_nonempty [simp]: "split_on c s \<noteq> []"
  by (induction s) (auto split: list.splits)

lemma split_on_free: "t \<in> set (split_on c s) \<Longrightarrow> c \<notin> set t"
proof (induction s arbitrary: t)
  case Nil
  then show ?case by simp
next
  case (Cons x s)
  obtain y ys where "split_on c s = y # ys"
    by (meson list.exhaust split_on_nonempty)
  with Cons show ?case by (auto split: if_splits)
qed

lemma split_on_no_sep: "c \<notin> set s \<Longrightarrow> split_on c s = [s]"
  by (induction s) auto

lemma split_on_append_sep: "c \<notin> set s \<Longrightarrow> split_on c (s @ c # r) = s # split_on c r"
  by (induction s) auto

lemma split_on_append: "split_on c (s @ c # r) = split_on c s @ split_on c r"
proof (induction s)
  case Nil
  then show ?case by simp
next
  case (Cons x s)
  obtain y ys where "split_on c s = y # ys"
    by (meson list.exhaust split_on_nonempty)
  with Cons show ?case by simp
qed

lemma join_with_cons: "xs \<noteq> [] \<Longrightarrow> join_with sep (x # xs) = x @ sep @ join_with sep xs"
  by (cases xs) simp_all

lemma join_split_on: "join_with [c] (split_on c s) = s"
proof (induction s)
  case Nil
  then show ?case by simp
next
  case (Cons x s)
  obtain y ys where *: "split_on c s = y # ys"
    by (meson list.exhaust split_on_nonempty)
  show ?case
    using Cons * by (cases ys) (auto simp: join_with_cons)
qed

lemma split_on_join:
  assumes "xs \<noteq> []" "\<And>x. x \<in> set xs \<Longrightarrow> c \<notin> set x"
  shows "split_on c (join_with [c] xs) = xs"
  using assms
proof (induction "[c]" xs rule: join_with.induct)
  case (2 x)
  then show ?case by (simp add: split_on_no_sep)
next
  case (3 x y zs)
  then show ?case by (simp add: split_on_append_sep)
qed simp

lemma split_on_inj: "split_on c s = split_on c t \<Longrightarrow> s = t"
  by (metis join_split_on)

text \<open>\<open>s.split(p)\<close> for a non-empty string pattern.\<close>

function split_sub :: "'a list \<Rightarrow> 'a list \<Rightarrow> 'a list list" where
  "split_sub s p =
     (if p = [] then [s]
      else case find_sub s p of
        None \<Rightarrow> [s]
      | Some i \<Rightarrow> take i s # split_sub (drop (i + length p) s) p)"
  by pat_completeness auto
termination
proof (relation "measure (\<lambda>(s, p). length s)")
  fix s p :: "'a list" and i
  assume "p \<noteq> []" "find_sub s p = Some i"
  then show "((drop (i + length p) s, p), s, p) \<in> measure (\<lambda>(s, p). length s)"
    using find_sub_SomeD [of s p i] by (cases p) auto
qed simp

declare split_sub.simps [simp del]

lemma split_sub_nonempty [simp]: "split_sub s p \<noteq> []"
  by (subst split_sub.simps) (auto split: option.splits)

lemma hd_split_sub:
  "p \<noteq> [] \<Longrightarrow> hd (split_sub s p) = (case find_sub s p of None \<Rightarrow> s | Some i \<Rightarrow> take i s)"
  by (subst split_sub.simps) (auto split: option.splits)

text \<open>The first field of a split contains no separator, and neither does any factor of it.\<close>

lemma find_sub_None_iff: "find_sub s p = None \<longleftrightarrow> (\<forall>u v. s \<noteq> u @ p @ v)"
proof
  assume "find_sub s p = None"
  then show "\<forall>u v. s \<noteq> u @ p @ v" using find_sub_None by blast
next
  assume free: "\<forall>u v. s \<noteq> u @ p @ v"
  show "find_sub s p = None"
  proof (rule ccontr)
    assume "find_sub s p \<noteq> None"
    then obtain i where "find_sub s p = Some i" by blast
    from find_sub_SomeD [OF this] free show False by metis
  qed
qed

lemma hd_split_sub_free: "p \<noteq> [] \<Longrightarrow> find_sub (hd (split_sub s p)) p = None"
proof (cases "find_sub s p")
  case None
  then show "p \<noteq> [] \<Longrightarrow> ?thesis" by (simp add: hd_split_sub)
next
  case (Some i)
  assume p: "p \<noteq> []"
  have "take i s \<noteq> u @ p @ v" for u v
  proof
    assume t: "take i s = u @ p @ v"
    then have "s = u @ p @ (v @ drop i s)" by (metis append.assoc append_take_drop_id)
    from find_sub_leftmost [OF this] Some have "i \<le> length u" by simp
    moreover have "length u + length p \<le> i" using arg_cong [OF t, of length] by simp
    ultimately show False using p by (cases p) simp_all
  qed
  with p Some show ?thesis by (simp add: hd_split_sub find_sub_None_iff)
qed

lemma split_sub_free: "find_sub s p = None \<Longrightarrow> split_sub s p = [s]"
  by (subst split_sub.simps) simp

lemma find_sub_factor: "find_sub (u @ s @ v) p = None \<Longrightarrow> find_sub s p = None"
  unfolding find_sub_None_iff by (metis append.assoc)

text \<open>\<open>s.split_once(c)\<close> for a character.\<close>

fun split_once :: "'a \<Rightarrow> 'a list \<Rightarrow> ('a list \<times> 'a list) option" where
  "split_once c [] = None"
| "split_once c (x # xs) =
     (if x = c then Some ([], xs)
      else map_option (\<lambda>(a, b). (x # a, b)) (split_once c xs))"

lemma split_once_Some_iff:
  "split_once c s = Some (a, b) \<longleftrightarrow> s = a @ c # b \<and> c \<notin> set a"
proof (induction s arbitrary: a)
  case Nil
  then show ?case by simp
next
  case (Cons x s)
  then show ?case by (cases a) auto
qed

section \<open>ASCII case folding\<close>

definition to_upper_byte :: "char \<Rightarrow> char" where
  "to_upper_byte c =
     (if 97 \<le> (of_char c :: nat) \<and> (of_char c :: nat) \<le> 122
      then char_of ((of_char c :: nat) - 32) else c)"

definition to_ascii_uppercase :: "string \<Rightarrow> string" where
  "to_ascii_uppercase s = map to_upper_byte s"

definition eq_ignore_ascii_case :: "string \<Rightarrow> string \<Rightarrow> bool" where
  "eq_ignore_ascii_case a b \<longleftrightarrow> to_ascii_uppercase a = to_ascii_uppercase b"

lemma eq_ignore_ascii_case_refl [simp]: "eq_ignore_ascii_case s s"
  by (simp add: eq_ignore_ascii_case_def)

lemma eq_ignore_ascii_case_sym: "eq_ignore_ascii_case a b \<Longrightarrow> eq_ignore_ascii_case b a"
  by (simp add: eq_ignore_ascii_case_def)

lemma eq_ignore_ascii_case_trans:
  "eq_ignore_ascii_case a b \<Longrightarrow> eq_ignore_ascii_case b c \<Longrightarrow> eq_ignore_ascii_case a c"
  by (simp add: eq_ignore_ascii_case_def)

section \<open>Character classes\<close>

text \<open>\<open>char::is_control\<close>: C0 and DEL are one byte, C1 is \<open>C2 80\<close> to \<open>C2 9F\<close>.\<close>

definition is_c0 :: "char \<Rightarrow> bool" where
  "is_c0 c \<longleftrightarrow> (of_char c :: nat) < 32 \<or> (of_char c :: nat) = 127"

definition is_c1 :: "char \<Rightarrow> char \<Rightarrow> bool" where
  "is_c1 c d \<longleftrightarrow> (of_char c :: nat) = 194 \<and> 128 \<le> (of_char d :: nat) \<and> (of_char d :: nat) < 160"

fun has_control :: "string \<Rightarrow> bool" where
  "has_control [] = False"
| "has_control [c] = is_c0 c"
| "has_control (c # d # s) = (is_c0 c \<or> is_c1 c d \<or> has_control (d # s))"

definition is_ascii_alphanumeric :: "char \<Rightarrow> bool" where
  "is_ascii_alphanumeric c =
     (let n = (of_char c :: nat)
      in (48 \<le> n \<and> n \<le> 57) \<or> (65 \<le> n \<and> n \<le> 90) \<or> (97 \<le> n \<and> n \<le> 122))"

definition is_ascii_graphic :: "char \<Rightarrow> bool" where
  "is_ascii_graphic c \<longleftrightarrow> 33 \<le> (of_char c :: nat) \<and> (of_char c :: nat) \<le> 126"

definition is_ascii_lowercase :: "char \<Rightarrow> bool" where
  "is_ascii_lowercase c \<longleftrightarrow> 97 \<le> (of_char c :: nat) \<and> (of_char c :: nat) \<le> 122"

definition is_ascii_digit :: "char \<Rightarrow> bool" where
  "is_ascii_digit c \<longleftrightarrow> 48 \<le> (of_char c :: nat) \<and> (of_char c :: nat) \<le> 57"

section \<open>Trimming\<close>

text \<open>The UTF-8 encodings of the code points with the Unicode \<open>White_Space\<close> property.\<close>

definition whitespace_encodings :: "string list" where
  "whitespace_encodings =
     map (\<lambda>c. [c]) [CHR 0x09, CHR 0x0A, CHR 0x0B, CHR 0x0C, CHR 0x0D, CHR 0x20]
     @ [[CHR 0xC2, CHR 0x85], [CHR 0xC2, CHR 0xA0], [CHR 0xE1, CHR 0x9A, CHR 0x80]]
     @ map (\<lambda>c. [CHR 0xE2, CHR 0x80, c])
         [CHR 0x80, CHR 0x81, CHR 0x82, CHR 0x83, CHR 0x84, CHR 0x85, CHR 0x86, CHR 0x87, CHR 0x88,
          CHR 0x89, CHR 0x8A, CHR 0xA8, CHR 0xA9, CHR 0xAF]
     @ [[CHR 0xE2, CHR 0x81, CHR 0x9F], [CHR 0xE3, CHR 0x80, CHR 0x80]]"

definition strip_one :: "string list \<Rightarrow> string \<Rightarrow> string option" where
  "strip_one ws s = find_map (strip_prefix s) (filter (\<lambda>w. w \<noteq> []) ws)"

lemma strip_one_shorter: "strip_one ws s = Some r \<Longrightarrow> length r < length s"
  by (auto simp: strip_one_def dest!: find_map_SomeD)

function trim_with :: "string list \<Rightarrow> string \<Rightarrow> string" where
  "trim_with ws s = (case strip_one ws s of None \<Rightarrow> s | Some r \<Rightarrow> trim_with ws r)"
  by pat_completeness auto
termination
  by (relation "measure (\<lambda>(ws, s). length s)") (auto dest: strip_one_shorter)

declare trim_with.simps [simp del]

definition trim_start :: "string \<Rightarrow> string" where
  "trim_start s = trim_with whitespace_encodings s"

definition trim_end :: "string \<Rightarrow> string" where
  "trim_end s = rev (trim_with (map rev whitespace_encodings) (rev s))"

definition trim :: "string \<Rightarrow> string" where
  "trim s = trim_end (trim_start s)"

lemma strip_one_None_iff: "strip_one ws s = None \<longleftrightarrow> (\<forall>w\<in>set ws. w \<noteq> [] \<longrightarrow> \<not> starts_with s w)"
  by (auto simp: strip_one_def find_map_None_iff strip_prefix_def)

lemma trim_with_done: "strip_one ws (trim_with ws s) = None"
proof (induction ws s rule: trim_with.induct)
  case (1 ws s)
  then show ?case by (subst trim_with.simps) (auto split: option.splits)
qed

lemma trim_with_fix: "strip_one ws s = None \<Longrightarrow> trim_with ws s = s"
  by (subst trim_with.simps) simp

lemma trim_with_suffix: "\<exists>u. s = u @ trim_with ws s"
proof (induction ws s rule: trim_with.induct)
  case (1 ws s)
  show ?case
  proof (cases "strip_one ws s")
    case None
    then show ?thesis by (simp add: trim_with_fix)
  next
    case (Some r)
    then obtain w where "s = w @ r" by (auto simp: strip_one_def dest!: find_map_SomeD)
    moreover have "trim_with ws s = trim_with ws r" using Some by (subst trim_with.simps) simp
    ultimately show ?thesis using "1.IH" [OF Some] by (metis append.assoc)
  qed
qed

lemma trim_end_prefix: "\<exists>v. s = trim_end s @ v"
proof -
  obtain u where "rev s = u @ trim_with (map rev whitespace_encodings) (rev s)"
    using trim_with_suffix by blast
  then have "s = trim_end s @ rev u" unfolding trim_end_def by (metis rev_append rev_rev_ident)
  then show ?thesis ..
qed

lemma trim_factor: "\<exists>u v. s = u @ trim s @ v"
proof -
  obtain u where "s = u @ trim_start s" unfolding trim_start_def using trim_with_suffix by blast
  moreover obtain v where "trim_start s = trim s @ v" unfolding trim_def using trim_end_prefix by blast
  ultimately show ?thesis by metis
qed

lemma trim_idem [simp]: "trim (trim s) = trim s"
proof -
  obtain v where v: "trim_start s = trim s @ v" unfolding trim_def using trim_end_prefix by blast
  have "strip_one whitespace_encodings (trim_start s) = None"
    unfolding trim_start_def by (rule trim_with_done)
  then have "strip_one whitespace_encodings (trim s) = None"
    unfolding strip_one_None_iff v starts_with_iff by fastforce
  then have "trim_start (trim s) = trim s" unfolding trim_start_def by (rule trim_with_fix)
  moreover have "trim_end (trim_end t) = trim_end t" for t
    unfolding trim_end_def by (simp add: trim_with_fix trim_with_done)
  ultimately show ?thesis by (simp add: trim_def)
qed

section \<open>Decimal formatting\<close>

definition digit_char :: "nat \<Rightarrow> char" where
  "digit_char d = char_of (48 + d)"

fun show_nat :: "nat \<Rightarrow> string" where
  "show_nat n = (if n < 10 then [digit_char n] else show_nat (n div 10) @ [digit_char (n mod 10)])"

declare show_nat.simps [simp del]

abbreviation show_u32 :: "u32 \<Rightarrow> string" where
  "show_u32 u \<equiv> show_nat (unat u)"

lemma digit_char_inj: "a < 10 \<Longrightarrow> b < 10 \<Longrightarrow> digit_char a = digit_char b \<Longrightarrow> a = b"
  unfolding digit_char_def char_of_eq_iff by (simp add: take_bit_eq_mod)

lemma show_nat_nonempty [simp]: "show_nat n \<noteq> []" "[] \<noteq> show_nat n"
  by (subst show_nat.simps, simp)+

lemma show_nat_inj: "show_nat a = show_nat b \<Longrightarrow> a = b"
proof (induction a arbitrary: b rule: less_induct)
  case (less a)
  consider "a < 10" "b < 10" | "a < 10" "\<not> b < 10" | "\<not> a < 10" "b < 10" | "\<not> a < 10" "\<not> b < 10"
    by blast
  then show ?case
  proof cases
    case 1
    with less.prems show ?thesis
      by (simp add: show_nat.simps [of a] show_nat.simps [of b] digit_char_inj)
  next
    case 2
    with less.prems show ?thesis
      by (simp add: show_nat.simps [of a] show_nat.simps [of b])
  next
    case 3
    with less.prems show ?thesis
      by (simp add: show_nat.simps [of a] show_nat.simps [of b])
  next
    case 4
    with less.prems have "show_nat (a div 10) = show_nat (b div 10)"
      and "digit_char (a mod 10) = digit_char (b mod 10)"
      by (simp_all add: show_nat.simps [of a] show_nat.simps [of b])
    moreover have "a div 10 < a" using 4 by simp
    ultimately have "a div 10 = b div 10" "a mod 10 = b mod 10"
      using less.IH digit_char_inj by simp_all
    then show ?thesis by (metis div_mult_mod_eq)
  qed
qed

lemma show_u32_inj [simp]: "show_u32 a = show_u32 b \<longleftrightarrow> a = b"
  using show_nat_inj [of "unat a" "unat b"] by (auto simp: word_unat_eq_iff)

lemmas [code] = show_nat.simps split_sub.simps trim_with.simps

end
