(* ===== verification/Slices.thy ===== *)
theory Slices
  imports Prelude "HOL-Library.Option_ord"
begin

text \<open>
  The slice operations of the standard library the graph and wire code use: sub-slices,
  adjacent windows, \<open>binary_search_by\<close>, \<open>partition_point\<close>, validation loops, and the facts
  about sorted slices the components reason with. \<open>sort_by_key\<close> is the stable \<^const>\<open>sort_key\<close>.
\<close>

section \<open>Operations\<close>

definition slice :: "nat \<Rightarrow> nat \<Rightarrow> 'a list \<Rightarrow> 'a list" where
  "slice a b xs = take (b - a) (drop a xs)"

text \<open>\<open>&xs[a..b]\<close>: indexing by a range outside the slice panics.\<close>

definition slice_at :: "nat \<Rightarrow> nat \<Rightarrow> 'a list \<Rightarrow> 'a list outcome" where
  "slice_at a b xs = (if a \<le> b \<and> b \<le> length xs then Returns (slice a b xs) else Panics)"

text \<open>\<open>xs.windows(2).find(p)\<close>.\<close>

fun first_pair :: "('a \<Rightarrow> 'a \<Rightarrow> bool) \<Rightarrow> 'a list \<Rightarrow> ('a \<times> 'a) option" where
  "first_pair p (x # y # xs) = (if p x y then Some (x, y) else first_pair p (y # xs))"
| "first_pair p _ = None"

text \<open>A loop of checks that returns at the first error.\<close>

fun check_all :: "('a \<Rightarrow> 'e + unit) \<Rightarrow> 'a list \<Rightarrow> 'e + unit" where
  "check_all f [] = Inr ()"
| "check_all f (x # xs) = res_bind (f x) (\<lambda>_. check_all f xs)"

text \<open>\<open>binary_search_by_key\<close>: the halving loop, then one comparison.\<close>

function bs_loop :: "(nat \<Rightarrow> bool) \<Rightarrow> nat \<Rightarrow> nat \<Rightarrow> nat" where
  "bs_loop gt base len =
     (if len \<le> 1 then base
      else let half = len div 2; mid = base + half
           in bs_loop gt (if gt mid then base else mid) (len - half))"
  by pat_completeness auto
termination
  by (relation "measure (\<lambda>(_, _, len). len)") auto

declare bs_loop.simps [simp del]

definition binary_search :: "('a \<Rightarrow> 'k::linorder) \<Rightarrow> 'k \<Rightarrow> 'a list \<Rightarrow> nat option" where
  "binary_search key k xs =
     (if xs = [] then None
      else let i = bs_loop (\<lambda>m. key (xs ! m) > k) 0 (length xs)
           in if key (xs ! i) = k then Some i else None)"

text \<open>On a slice partitioned by \<open>p\<close>, the index of the first element that fails it.\<close>

definition partition_point :: "('a \<Rightarrow> bool) \<Rightarrow> 'a list \<Rightarrow> nat" where
  "partition_point p xs = length (takeWhile p xs)"

section \<open>Checks and windows\<close>

lemma check_all_Inr_iff [simp]: "check_all f xs = Inr u \<longleftrightarrow> (\<forall>x\<in>set xs. f x = Inr ())"
  by (induction xs) (auto simp: res_bind_Inr_iff)

lemma check_all_InlD: "check_all f xs = Inl e \<Longrightarrow> \<exists>x\<in>set xs. f x = Inl e"
  by (induction xs) (auto simp: res_bind_def split: sum.splits)

lemma first_pair_SomeD: "first_pair p xs = Some (x, y) \<Longrightarrow> p x y \<and> x \<in> set xs \<and> y \<in> set xs"
  by (induction p xs rule: first_pair.induct) (auto split: if_splits)

lemma first_pair_equal_None:
  fixes key :: "'a \<Rightarrow> 'k::linorder"
  assumes "sorted (map key xs)"
  shows "first_pair (\<lambda>a b. key a = key b) xs = None \<longleftrightarrow> distinct (map key xs)"
  using assms
proof (induction "\<lambda>a b. key a = key b" xs rule: first_pair.induct)
  case (1 x y xs)
  have le: "\<forall>z\<in>set (y # xs). key x \<le> key z" "\<forall>z\<in>set xs. key y \<le> key z" using "1.prems" by auto
  show ?case
  proof (cases "key x = key y")
    case False
    with le have "key x \<notin> key ` set (y # xs)" by (fastforce simp: image_iff)
    with 1 False show ?thesis by simp
  qed simp
qed simp_all

section \<open>Search\<close>

lemma bs_loop_spec:
  fixes key :: "'a \<Rightarrow> 'k::linorder"
  assumes "sorted (map key xs)" "0 < len" "base + len \<le> length xs"
    and "base = 0 \<or> key (xs ! base) \<le> k" "\<forall>j<length xs. base + len \<le> j \<longrightarrow> k < key (xs ! j)"
    and "r = bs_loop (\<lambda>m. key (xs ! m) > k) base len"
  shows "r < length xs \<and> (r = 0 \<or> key (xs ! r) \<le> k) \<and> (\<forall>j<length xs. r < j \<longrightarrow> k < key (xs ! j))"
  using assms
proof (induction "\<lambda>m. key (xs ! m) > k" base len rule: bs_loop.induct)
  case (1 base len)
  show ?case
  proof (cases "len \<le> 1")
    case True
    then have r: "r = base" "len = 1"
      using "1.prems"(2,6) bs_loop.simps [of "\<lambda>m. key (xs ! m) > k" base len] by auto
    show ?thesis
    proof (intro conjI allI impI)
      show "r < length xs" using r "1.prems"(3) by simp
      show "r = 0 \<or> key (xs ! r) \<le> k" using r "1.prems"(4) by simp
      show "k < key (xs ! j)" if "j < length xs" "r < j" for j using r "1.prems"(5) that by simp
    qed
  next
    case False
    define half where "half = len div 2"
    have half: "0 < half" "half < len" using False by (auto simp: half_def)
    let ?base = "if key (xs ! (base + half)) > k then base else base + half"
    have r: "r = bs_loop (\<lambda>m. key (xs ! m) > k) ?base (len - half)"
      using "1.prems"(6) False by (subst (asm) bs_loop.simps) (simp add: half_def Let_def)
    have le: "key (xs ! i) \<le> key (xs ! j)" if "i \<le> j" "j < length xs" for i j
      using sorted_nth_mono [OF "1.prems"(1)] that by simp
    have above: "\<forall>j<length xs. ?base + (len - half) \<le> j \<longrightarrow> k < key (xs ! j)"
    proof (cases "key (xs ! (base + half)) > k")
      case True
      have "base + half \<le> base + (len - half)" using half by (simp add: half_def)
      with True le show ?thesis by (smt (verit) le_trans less_le_trans)
    next
      case False
      with half "1.prems"(5) show ?thesis by simp
    qed
    show ?thesis
      by (rule "1.hyps" [OF False half_def refl \<open>sorted (map key xs)\<close> _ _ _ above r])
        (use half "1.prems" in \<open>auto simp: half_def\<close>)
  qed
qed

lemma sorted_distinct_nth_less:
  fixes key :: "'a \<Rightarrow> 'k::linorder"
  assumes "sorted (map key xs)" "distinct (map key xs)" "i < j" "j < length xs"
  shows "key (xs ! i) < key (xs ! j)"
proof -
  have "sorted_wrt (<) (map key xs)" using assms by (simp add: strict_sorted_iff)
  then have "map key xs ! i < map key xs ! j" by (rule sorted_wrt_nth_less) (use assms in auto)
  then show ?thesis using assms by simp
qed

lemma binary_search_iff:
  fixes key :: "'a \<Rightarrow> 'k::linorder"
  assumes "sorted (map key xs)" "distinct (map key xs)"
  shows "binary_search key k xs = Some i \<longleftrightarrow> i < length xs \<and> key (xs ! i) = k"
proof (cases "xs = []")
  case True
  then show ?thesis by (simp add: binary_search_def)
next
  case False
  define r where "r = bs_loop (\<lambda>m. key (xs ! m) > k) 0 (length xs)"
  have r: "r < length xs" "r = 0 \<or> key (xs ! r) \<le> k" "\<And>j. j < length xs \<Longrightarrow> r < j \<Longrightarrow> k < key (xs ! j)"
    using bs_loop_spec [OF assms(1) _ _ _ _ r_def] False by auto
  have "i = r" if "i < length xs" "key (xs ! i) = k"
  proof (rule ccontr)
    assume "i \<noteq> r"
    then consider "i < r" | "r < i" by linarith
    then show False
    proof cases
      case 1
      with r sorted_distinct_nth_less [OF assms 1] that show False by fastforce
    next
      case 2
      with r(3) that show False by fastforce
    qed
  qed
  with r(1) False show ?thesis by (auto simp: binary_search_def Let_def r_def [symmetric])
qed

lemma binary_search_None_iff:
  fixes key :: "'a \<Rightarrow> 'k::linorder"
  assumes "sorted (map key xs)" "distinct (map key xs)"
  shows "binary_search key k xs = None \<longleftrightarrow> k \<notin> key ` set xs"
proof -
  have "binary_search key k xs = None \<longleftrightarrow> (\<forall>i. \<not> (i < length xs \<and> key (xs ! i) = k))"
    unfolding binary_search_iff [OF assms, symmetric] by (cases "binary_search key k xs") auto
  then show ?thesis by (metis (no_types, lifting) image_iff in_set_conv_nth)
qed

section \<open>Sorted slices\<close>

lemma takeWhile_sorted_less:
  fixes key :: "'a \<Rightarrow> 'k::linorder"
  assumes "sorted (map key xs)"
  shows "takeWhile (\<lambda>x. key x < k) xs = filter (\<lambda>x. key x < k) xs"
    and "takeWhile (\<lambda>x. key x \<le> k) xs = filter (\<lambda>x. key x \<le> k) xs"
  using assms
proof (induction xs)
  case (Cons x xs)
  {
    case 1
    then have "filter (\<lambda>x. key x < k) xs = []" if "\<not> key x < k"
      using that by (fastforce simp: filter_empty_conv)
    with 1 Cons show ?case by auto
  next
    case 2
    then have "filter (\<lambda>x. key x \<le> k) xs = []" if "\<not> key x \<le> k"
      using that by (fastforce simp: filter_empty_conv)
    with 2 Cons show ?case by auto
  }
qed simp_all

text \<open>In a sorted slice, the run of one key is a sub-slice delimited by counts.\<close>

lemma sorted_split_run:
  fixes key :: "'a \<Rightarrow> 'k::linorder"
  assumes "sorted (map key xs)"
  shows "xs = filter (\<lambda>x. key x < k) xs @ filter (\<lambda>x. key x = k) xs @ filter (\<lambda>x. k < key x) xs"
  using assms
proof (induction xs)
  case (Cons x xs)
  have le: "\<forall>z\<in>set xs. key x \<le> key z" and s: "sorted (map key xs)" using Cons.prems by auto
  consider "key x < k" | "key x = k" | "k < key x" by fastforce
  then show ?case
  proof cases
    case 1
    then have "key x \<noteq> k" "\<not> k < key x" by auto
    with Cons.IH [OF s] 1 show ?thesis by simp
  next
    case 2
    with le have "filter (\<lambda>x. key x < k) xs = []" by (auto simp: filter_empty_conv)
    with Cons.IH [OF s] 2 show ?thesis by simp
  next
    case 3
    with le have "filter (\<lambda>x. key x < k) xs = []" "filter (\<lambda>x. key x = k) xs = []"
      by (auto simp: filter_empty_conv)
    with Cons.IH [OF s] 3 show ?thesis by simp
  qed
qed simp

lemma slice_sorted_run:
  fixes key :: "'a \<Rightarrow> 'k::linorder"
  assumes "sorted (map key xs)"
    and "a = length (filter (\<lambda>x. key x < k) xs)" "b = length (filter (\<lambda>x. key x \<le> k) xs)"
  shows "slice a b xs = filter (\<lambda>x. key x = k) xs"
proof -
  let ?l = "filter (\<lambda>x. key x < k) xs" and ?e = "filter (\<lambda>x. key x = k) xs" and ?g = "filter (\<lambda>x. k < key x) xs"
  have xs: "xs = ?l @ ?e @ ?g" by (rule sorted_split_run [OF assms(1)])
  have "length (filter (\<lambda>x. key x \<le> k) xs) = length ?l + length ?e"
    by (induction xs) auto
  then have "b - a = length ?e" using assms by simp
  moreover have "drop a xs = ?e @ ?g" by (subst xs) (simp add: assms(2))
  ultimately show ?thesis by (simp add: slice_def)
qed

lemma partition_run:
  fixes key :: "'a \<Rightarrow> 'k::linorder"
  assumes "sorted (map key xs)"
  shows "slice (partition_point (\<lambda>x. key x < k) xs) (partition_point (\<lambda>x. key x \<le> k) xs) xs
    = filter (\<lambda>x. key x = k) xs"
  by (rule slice_sorted_run [OF assms]) (simp_all add: partition_point_def takeWhile_sorted_less [OF assms])

text \<open>Sorting by a key that tells the elements apart has one result.\<close>

lemma sorted_inj_unique:
  fixes key :: "'a \<Rightarrow> 'k::linorder"
  assumes "sorted (map key xs)" "sorted (map key ys)" "mset xs = mset ys" "inj_on key (set xs)"
  shows "xs = ys"
proof -
  have "map key xs = map key ys"
    using assms(1-3) properties_for_sort by (metis mset_map)
  then show ?thesis using assms(3,4) map_inj_on mset_eq_setD by (metis Un_absorb)
qed

lemma sort_key_sorted_id: "sorted (map key xs) \<Longrightarrow> sort_key key xs = xs"
  by (simp add: sort_key_id_if_sorted)

lemma inj_on_of_distinct: "distinct (map key xs) \<Longrightarrow> inj_on key (set xs)"
  by (simp add: distinct_map)

end
