(* ===== verification/Bytes.thy ===== *)
theory Bytes
  imports Slices
begin

text \<open>
  Byte streams: little- and big-endian integers, the UTF-8 check of the standard library, and
  the contract of a reader that undoes a writer, the locale \<open>stream_codec\<close>, with the repeated
  reads the store and the wire formats are made of.
\<close>

unbundle bit_operations_syntax

section \<open>Integers as bytes\<close>

definition to_le :: "nat \<Rightarrow> 'a::len word \<Rightarrow> bytes" where
  "to_le n v = map (\<lambda>i. ucast (drop_bit (8 * i) v)) [0..<n]"

fun from_le :: "bytes \<Rightarrow> 'a::len word" where
  "from_le [] = 0"
| "from_le (b # bs) = ucast b OR push_bit 8 (from_le bs)"

lemma length_to_le [simp]: "length (to_le n v) = n"
  by (simp add: to_le_def)

lemma bit_from_le:
  "bit (from_le bs :: 'a::len word) i \<longleftrightarrow> i < LENGTH('a) \<and> i div 8 < length bs \<and> bit (bs ! (i div 8)) (i mod 8)"
proof (induction bs arbitrary: i)
  case Nil
  then show ?case by simp
next
  case (Cons b bs)
  show ?case
  proof (cases "i < 8")
    case True
    then show ?thesis by (simp add: bit_or_iff bit_ucast_iff bit_push_bit_iff)
  next
    case False
    then obtain j where j: "i = 8 + j" by (metis le_Suc_ex not_less)
    have d: "(8 + j) div 8 = Suc (j div 8)" "(8 + j) mod 8 = j mod 8" by simp_all
    have "\<not> bit b i" using False bit_imp_le_length [of b i] by auto
    then show ?thesis
      unfolding j d by (auto simp: bit_or_iff bit_ucast_iff bit_push_bit_iff Cons.IH)
  qed
qed

lemma from_le_to_le: "LENGTH('a) \<le> 8 * n \<Longrightarrow> from_le (to_le n (v :: 'a::len word)) = v"
proof (rule bit_word_eqI)
  fix i
  assume n: "LENGTH('a) \<le> 8 * n" and i: "i < LENGTH('a)"
  then have "i div 8 < n" by (metis div_less_iff_less_mult less_le_trans mult.commute zero_less_numeral)
  moreover have "8 * (i div 8) + i mod 8 = i" by simp
  ultimately show "bit (from_le (to_le n v) :: 'a word) i = bit v i"
    using i by (simp add: bit_from_le to_le_def bit_ucast_iff bit_drop_bit_eq)
qed

section \<open>UTF-8\<close>

definition cont :: "u8 \<Rightarrow> bool" where
  "cont b \<longleftrightarrow> 0x80 \<le> b \<and> b \<le> 0xBF"

text \<open>\<open>core::str::from_utf8\<close>: the well-formed byte sequences, no overlong forms and no surrogates.\<close>

fun utf8_valid :: "bytes \<Rightarrow> bool" where
  "utf8_valid [] = True"
| "utf8_valid (a # bs) =
     (if a \<le> 0x7F then utf8_valid bs
      else case bs of
        b # bs1 \<Rightarrow>
          (if 0xC2 \<le> a \<and> a \<le> 0xDF then cont b \<and> utf8_valid bs1
           else case bs1 of
             c # bs2 \<Rightarrow>
               (if 0xE0 \<le> a \<and> a \<le> 0xEF
                then cont b \<and> cont c \<and> (a = 0xE0 \<longrightarrow> 0xA0 \<le> b) \<and> (a = 0xED \<longrightarrow> b \<le> 0x9F) \<and> utf8_valid bs2
                else case bs2 of
                  d # bs3 \<Rightarrow>
                    0xF0 \<le> a \<and> a \<le> 0xF4 \<and> cont b \<and> cont c \<and> cont d
                    \<and> (a = 0xF0 \<longrightarrow> 0x90 \<le> b) \<and> (a = 0xF4 \<longrightarrow> b \<le> 0x8F) \<and> utf8_valid bs3
                | [] \<Rightarrow> False)
           | [] \<Rightarrow> False)
      | [] \<Rightarrow> False)"

definition as_bytes :: "string \<Rightarrow> bytes" where
  "as_bytes s = map of_char s"

definition of_bytes :: "bytes \<Rightarrow> string" where
  "of_bytes bs = map (\<lambda>b. char_of (unat b)) bs"

text \<open>The invariant of the Rust type: the bytes of a \<open>String\<close> are UTF-8.\<close>

definition str_ok :: "string \<Rightarrow> bool" where
  "str_ok s = utf8_valid (as_bytes s)"

lemma length_as_bytes [simp]: "length (as_bytes s) = length s"
  by (simp add: as_bytes_def)

lemma unat_of_char: "unat (of_char c :: u8) = of_char c"
proof -
  have "(of_char c :: nat) < 256" by simp
  then have "unat (of_nat (of_char c) :: u8) = of_char c" by (simp add: unat_of_nat)
  then show ?thesis by (simp add: of_nat_of_char)
qed

lemma of_bytes_as_bytes [simp]: "of_bytes (as_bytes s) = s"
  by (simp add: of_bytes_def as_bytes_def unat_of_char comp_def)

section \<open>Readers that undo writers\<close>

fun get_many :: "('s \<Rightarrow> 'e + 'a \<times> 's) \<Rightarrow> nat \<Rightarrow> 's \<Rightarrow> 'e + 'a list \<times> 's" where
  "get_many get 0 s = Inr ([], s)"
| "get_many get (Suc n) s =
     res_bind (get s) (\<lambda>(x, s'). res_bind (get_many get n s') (\<lambda>(xs, s''). Inr (x # xs, s'')))"

text \<open>
  \<open>feed x s\<close> is the stream that holds what the writer emits for \<open>x\<close> in front of \<open>s\<close>. A reader
  that undoes the writer on one value undoes it on a run of them.
\<close>

locale stream_codec =
  fixes get :: "'s \<Rightarrow> 'e + 'a \<times> 's"
    and feed :: "'a \<Rightarrow> 's \<Rightarrow> 's"
    and ok :: "'a \<Rightarrow> bool"
  assumes get_feed: "ok x \<Longrightarrow> get (feed x s) = Inr (x, s)"
begin

lemma get_many_feed: "list_all ok xs \<Longrightarrow> get_many get (length xs) (foldr feed xs s) = Inr (xs, s)"
  by (induction xs) (simp_all add: get_feed)

end

lemma foldr_append_bytes: "foldr (\<lambda>x s. put x @ s) xs s = concat (map put xs) @ s"
  by (induction xs) simp_all

end
