(* ===== verification/AuditTrail.thy ===== *)
theory AuditTrail
  imports RustStr Bytes "HOL-Library.Multiset"
begin

text \<open>
  The append-only audit trail (\<open>crates/maknae-audit-append/src\<close>): the backward scan over a
  positioned reader (\<open>scan.rs\<close>), session and sequence numbers (\<open>session.rs\<close>), the breaker in front
  of the append workers (\<open>blocking_guard.rs\<close>) and the single writer (\<open>sink.rs\<close>). What the operating
  system does on a read, a write or a sync is an argument of the operations. Times are nanoseconds
  since the sink was opened.
\<close>

section \<open>The backward scan\<close>

definition NEWLINE :: u8 where "NEWLINE = 10"

datatype scan_error = ReadFailed string | UnexpectedEof

record scan_result =
  sr_line :: "bytes option"
  sr_scanned_bytes :: nat

text \<open>
  \<open>read_at off n\<close> is what one positioned read into a buffer of \<open>n\<close> bytes delivers. A reader that
  claims more than it was asked for makes the index of the rest of the buffer panic.
\<close>

function read_exact_at :: "(nat \<Rightarrow> nat \<Rightarrow> string + bytes) \<Rightarrow> nat \<Rightarrow> nat \<Rightarrow> (scan_error + bytes) outcome" where
  "read_exact_at read_at offset n =
     (if n = 0 then Returns (Inr [])
      else case read_at offset n of
        Inl e \<Rightarrow> Returns (Inl (ReadFailed e))
      | Inr got \<Rightarrow>
          if got = [] then Returns (Inl UnexpectedEof)
          else if length got > n then Panics
          else try_bind (read_exact_at read_at (offset + length got) (n - length got)) (\<lambda>rest. Returns (Inr (got @ rest))))"
  by pat_completeness auto
termination by (relation "measure (\<lambda>(read_at, offset, n). n)") auto

declare read_exact_at.simps [simp del]

text \<open>\<open>iter().rposition(p)\<close>.\<close>

definition rposition :: "('a \<Rightarrow> bool) \<Rightarrow> 'a list \<Rightarrow> nat option" where
  "rposition p xs = map_option (\<lambda>i. length xs - 1 - i) (position p (rev xs))"

lemma rposition_None_iff: "rposition p xs = None \<longleftrightarrow> (\<forall>x\<in>set xs. \<not> p x)"
  by (simp add: rposition_def position_None_iff)

lemma rposition_SomeD:
  assumes "rposition p xs = Some i"
  shows "i < length xs \<and> p (xs ! i) \<and> (\<forall>x\<in>set (drop (Suc i) xs). \<not> p x)"
proof -
  obtain j where j: "position p (rev xs) = Some j" and i: "i = length xs - 1 - j"
    using assms by (auto simp: rposition_def)
  note d = position_SomeD [OF j]
  have "\<not> p (xs ! k)" if "i < k" "k < length xs" for k
  proof -
    have "length xs - 1 - k < j" using that d i by auto
    then have "\<not> p (rev xs ! (length xs - 1 - k))" using d by blast
    then show ?thesis using that by (simp add: rev_nth)
  qed
  moreover have "xs ! i = rev xs ! j" using d i by (simp add: rev_nth)
  ultimately show ?thesis using d i by (auto simp: in_set_conv_nth)
qed

text \<open>
  The inner loop of one window: the lines of \<open>buf[..hi]\<close> from the newest on; the second component
  is the part before the oldest newline, carried into the next window.
\<close>

function scan_lines :: "(bytes \<Rightarrow> bool) \<Rightarrow> bytes \<Rightarrow> nat \<Rightarrow> bytes option \<times> bytes" where
  "scan_lines matches buf hi =
     (case rposition (\<lambda>b. b = NEWLINE) (take hi buf) of
        None \<Rightarrow> (None, take hi buf)
      | Some nl \<Rightarrow>
          let line = drop (nl + 1) (take hi buf) in
          if line \<noteq> [] \<and> matches line then (Some line, [])
          else scan_lines matches buf nl)"
  by pat_completeness auto
termination
  by (relation "measure (\<lambda>(matches, buf, hi). hi)") (auto dest!: rposition_SomeD)

declare scan_lines.simps [simp del]

fun scan_windows ::
  "(nat \<Rightarrow> nat \<Rightarrow> string + bytes) \<Rightarrow> (bytes \<Rightarrow> bool) \<Rightarrow> nat \<Rightarrow> nat \<Rightarrow> nat list \<Rightarrow> bytes \<Rightarrow> nat
    \<Rightarrow> (scan_error + scan_result) outcome"
where
  "scan_windows read_at matches window len [] carry scanned =
     Returns (Inr \<lparr>sr_line = (if carry \<noteq> [] \<and> matches carry then Some carry else None), sr_scanned_bytes = scanned\<rparr>)"
| "scan_windows read_at matches window len (k # ks) carry scanned =
     (let end = len - k * window; start = end - window in
      try_bind (read_exact_at read_at start (end - start)) (\<lambda>got.
        let buf = got @ carry; scanned' = scanned + (end - start) in
        case scan_lines matches buf (length buf) of
          (Some line, _) \<Rightarrow> Returns (Inr \<lparr>sr_line = Some line, sr_scanned_bytes = scanned'\<rparr>)
        | (None, carry') \<Rightarrow> scan_windows read_at matches window len ks carry' scanned'))"

definition div_ceil :: "nat \<Rightarrow> nat \<Rightarrow> nat" where
  "div_ceil a b = a div b + (if a mod b = 0 then 0 else 1)"

definition scan_back_with_window ::
  "nat \<Rightarrow> nat \<Rightarrow> (nat \<Rightarrow> nat \<Rightarrow> string + bytes) \<Rightarrow> (bytes \<Rightarrow> bool) \<Rightarrow> (scan_error + scan_result) outcome" where
  "scan_back_with_window window len read_at matches =
     scan_windows read_at matches window len [0..<div_ceil len window] [] 0"

definition SCAN_WINDOW :: nat where "SCAN_WINDOW = 1048576"

definition scan_back :: "nat \<Rightarrow> (nat \<Rightarrow> nat \<Rightarrow> string + bytes) \<Rightarrow> (bytes \<Rightarrow> bool) \<Rightarrow> (scan_error + scan_result) outcome" where
  "scan_back len read_at matches = scan_back_with_window SCAN_WINDOW len read_at matches"

section \<open>The scan finds the newest matching line\<close>

text \<open>A positioned reader of a file: a read inside the file delivers a non-empty part of what is there.\<close>

definition reads :: "bytes \<Rightarrow> (nat \<Rightarrow> nat \<Rightarrow> string + bytes) \<Rightarrow> bool" where
  "reads content read_at \<longleftrightarrow>
     (\<forall>off n. 0 < n \<and> off < length content \<longrightarrow>
        (\<exists>k. 0 < k \<and> k \<le> n \<and> k \<le> length content - off \<and> read_at off n = Inr (take k (drop off content))))"

definition newest_line :: "(bytes \<Rightarrow> bool) \<Rightarrow> bytes \<Rightarrow> bytes option" where
  "newest_line matches content =
     List.find (\<lambda>l. l \<noteq> [] \<and> matches l) (rev (split_on NEWLINE content))"

lemma read_exact_at_reads:
  assumes "reads content read_at" "off + n \<le> length content"
  shows "read_exact_at read_at off n = Returns (Inr (take n (drop off content)))"
  using assms(2)
proof (induction n arbitrary: off rule: less_induct)
  case (less n)
  show ?case
  proof (cases "n = 0")
    case True
    then show ?thesis by (simp add: read_exact_at.simps)
  next
    case False
    then have "0 < n \<and> off < length content" using less.prems by simp
    then obtain k where k: "0 < k" "k \<le> n" "k \<le> length content - off"
      "read_at off n = Inr (take k (drop off content))" using assms(1) unfolding reads_def by blast
    have len: "length (take k (drop off content)) = k" using k by simp
    have "read_exact_at read_at (off + k) (n - k) = Returns (Inr (take (n - k) (drop (off + k) content)))"
      using less k by simp
    moreover have "take k (drop off content) @ take (n - k) (drop (off + k) content) = take n (drop off content)"
      using k take_add [of k "n - k" "drop off content"] by (simp add: add.commute)
    ultimately show ?thesis
      using False k len by (subst read_exact_at.simps) (auto simp del: length_take)
  qed
qed

lemma newest_line_append:
  assumes "NEWLINE \<notin> set line"
  shows "newest_line matches (u @ NEWLINE # line)
    = (if line \<noteq> [] \<and> matches line then Some line else newest_line matches u)"
  using assms by (simp add: newest_line_def split_on_append split_on_no_sep)

lemma scan_lines_spec:
  "case scan_lines matches buf hi of
     (Some line, _) \<Rightarrow> newest_line matches (u @ take hi buf) = Some line
   | (None, carry) \<Rightarrow> newest_line matches (u @ take hi buf) = newest_line matches (u @ carry)
        \<and> NEWLINE \<notin> set carry"
proof (induction hi rule: less_induct)
  case (less hi)
  show ?case
  proof (cases "rposition (\<lambda>b. b = NEWLINE) (take hi buf)")
    case None
    then have "scan_lines matches buf hi = (None, take hi buf)" by (subst scan_lines.simps) simp
    then show ?thesis using None by (auto simp: rposition_None_iff)
  next
    case (Some nl)
    note d = rposition_SomeD [OF Some]
    define line where "line = drop (nl + 1) (take hi buf)"
    have free: "NEWLINE \<notin> set line" and nl: "nl < hi" using d by (auto simp: line_def)
    have "take hi buf = take nl buf @ NEWLINE # line"
      using d nl id_take_nth_drop [of nl "take hi buf"] by (simp add: line_def min_absorb1)
    then have step: "newest_line matches (u @ take hi buf)
        = (if line \<noteq> [] \<and> matches line then Some line else newest_line matches (u @ take nl buf))"
      using newest_line_append [OF free, of matches "u @ take nl buf"] by simp
    have scan: "scan_lines matches buf hi
        = (if line \<noteq> [] \<and> matches line then (Some line, []) else scan_lines matches buf nl)"
      using Some by (subst scan_lines.simps) (simp only: option.case Let_def line_def)
    show ?thesis
    proof (cases "line \<noteq> [] \<and> matches line")
      case True
      then show ?thesis using step scan by simp
    next
      case False
      then show ?thesis unfolding scan step if_not_P [OF False] by (intro less.IH nl)
    qed
  qed
qed

lemma div_ceil_le:
  assumes "0 < w"
  shows "len \<le> div_ceil len w * w"
proof -
  have "len div w * w + len mod w = len" by simp
  moreover have "len mod w \<le> (if len mod w = 0 then 0 else 1) * w" using assms by (simp add: less_imp_le)
  ultimately show ?thesis unfolding div_ceil_def add_mult_distrib by linarith
qed

lemma div_ceil_gt:
  assumes "k < div_ceil len w"
  shows "k * w < len"
proof (cases "len mod w = 0")
  case True
  then have "k < len div w" using assms by (simp add: div_ceil_def)
  then have "Suc k * w \<le> len" by (metis Suc_leI div_times_less_eq_dividend le_trans mult_le_mono1)
  moreover have "0 < w" using \<open>k < len div w\<close> by (cases w) simp_all
  ultimately show ?thesis by simp
next
  case False
  then have "k * w \<le> len div w * w" using assms by (simp add: div_ceil_def)
  moreover have "len div w * w + len mod w = len" by simp
  ultimately show ?thesis using False by linarith
qed

lemma scan_windows_spec:
  assumes reads: "reads content read_at" and w: "0 < w" and len: "len = length content"
    and N: "N = div_ceil len w" and "k \<le> N" "NEWLINE \<notin> set carry"
  shows "\<exists>r. scan_windows read_at matches w len [k..<N] carry scanned = Returns (Inr r)
    \<and> sr_line r = newest_line matches (take (len - k * w) content @ carry)
    \<and> sr_scanned_bytes r \<le> scanned + (len - k * w)
    \<and> (sr_line r = None \<longrightarrow> sr_scanned_bytes r = scanned + (len - k * w))"
  using assms(5,6)
proof (induction "N - k" arbitrary: k carry scanned)
  case 0
  then have "k = N" "len - k * w = 0" using div_ceil_le [OF w, of len] N by simp_all
  then show ?case using 0 by (simp add: newest_line_def split_on_no_sep)
next
  case (Suc m)
  then have k: "k < N" by simp
  define stop start where "stop = len - k * w" and "start = stop - w"
  have pos: "k * w < len" using div_ceil_gt k N by blast
  have start: "start = len - Suc k * w" by (simp add: start_def stop_def)
  define got where "got = take (stop - start) (drop start content)"
  have le: "start \<le> stop" "stop \<le> len" by (simp_all add: start_def stop_def)
  have read: "read_exact_at read_at start (stop - start) = Returns (Inr got)"
    unfolding got_def using le len by (intro read_exact_at_reads [OF reads]) simp
  have whole: "take stop content @ carry = take start content @ got @ carry"
    using le take_add [of start "stop - start" content] by (simp add: got_def)
  obtain found carry' where lines: "scan_lines matches (got @ carry) (length (got @ carry)) = (found, carry')"
    by fastforce
  note spec = scan_lines_spec [where matches = matches and buf = "got @ carry" and hi = "length (got @ carry)"
      and u = "take start content", unfolded lines]
  have upt: "[k..<N] = k # [Suc k..<N]" using k by (simp add: upt_rec)
  have sum: "scanned + (stop - start) + start = scanned + stop" using le by simp
  show ?case
  proof (cases found)
    case (Some line)
    then show ?thesis
      using spec whole read lines le unfolding upt
      by (simp add: Let_def stop_def [symmetric] start_def [symmetric])
  next
    case None
    have next_step: "scan_windows read_at matches w len [k..<N] carry scanned
        = scan_windows read_at matches w len [Suc k..<N] carry' (scanned + (stop - start))"
      using read lines None unfolding upt by (simp add: Let_def stop_def [symmetric] start_def [symmetric])
    have same: "newest_line matches (take stop content @ carry) = newest_line matches (take start content @ carry')"
      and free: "NEWLINE \<notin> set carry'" using spec None whole by simp_all
    have "m = N - Suc k" "Suc k \<le> N" using Suc k by simp_all
    from Suc.hyps(1) [OF this free, of "scanned + (stop - start)"] show ?thesis
      unfolding next_step start [symmetric] stop_def [symmetric] same using sum by metis
  qed
qed

text \<open>
  The backward scan is exact: over a reader that delivers any non-empty part of what is asked, and
  for every window size, it returns the newest non-empty line of the file the predicate accepts, or
  none when no line is accepted; it never reads more than the file, and reports no match only after
  reading all of it.
\<close>

lemma scan_back_newest:
  assumes "reads content read_at" "0 < w"
  shows "\<exists>r. scan_back_with_window w (length content) read_at matches = Returns (Inr r)
    \<and> sr_line r = newest_line matches content
    \<and> sr_scanned_bytes r \<le> length content
    \<and> (sr_line r = None \<longrightarrow> sr_scanned_bytes r = length content)"
  using scan_windows_spec [OF assms refl refl, of 0 "[]" matches 0]
  by (simp add: scan_back_with_window_def)

section \<open>Session and sequence numbers\<close>

record session_ids =
  si_boot_nonce :: u32
  si_conn_ctr :: u32

definition with_nonce :: "u32 \<Rightarrow> session_ids" where
  "with_nonce nonce = \<lparr>si_boot_nonce = nonce, si_conn_ctr = 0\<rparr>"

definition next_session :: "session_ids \<Rightarrow> u64 \<times> session_ids" where
  "next_session s =
     (let ctr = si_conn_ctr s + 1
      in (push_bit 32 (ucast (si_boot_nonce s)) + ucast ctr, s\<lparr>si_conn_ctr := ctr\<rparr>))"

definition seq_next :: "u64 \<Rightarrow> u64 \<times> u64" where
  "seq_next s = (s + 1, s + 1)"

section \<open>The breaker in front of the append workers\<close>

record audit_breaker =
  ab_in_flight :: "(u64 \<times> nat) list"
  ab_last_refusal_logged_at :: "nat option"
  ab_stale_reclaims :: nat
  ab_next_attempt_id :: u64
  ab_trip_after :: nat
  ab_max_in_flight :: nat
  ab_stale_after :: nat
  ab_max_stale_reclaims :: nat
  ab_refusal_log_every :: nat

datatype audit_admission = AdmitAttempt u64 | RefuseOpen | RefuseAtCapacity




function reclaim_stale :: "nat \<Rightarrow> audit_breaker \<Rightarrow> audit_breaker" where
  "reclaim_stale now b =
     (case ab_in_flight b of
        [] \<Rightarrow> b
      | (_, started) # rest \<Rightarrow>
          if ab_stale_reclaims b < ab_max_stale_reclaims b \<and> ab_stale_after b \<le> now - started
          then reclaim_stale now (b\<lparr>ab_in_flight := rest, ab_stale_reclaims := ab_stale_reclaims b + 1\<rparr>)
          else b)"
  by pat_completeness auto
termination by (relation "measure (\<lambda>(now, b). length (ab_in_flight b))") auto

declare reclaim_stale.simps [simp del]

definition saturating_inc :: "u64 \<Rightarrow> u64" where
  "saturating_inc x = (if x = -1 then x else x + 1)"

definition audit_begin_attempt_at :: "nat \<Rightarrow> audit_breaker \<Rightarrow> audit_admission \<times> audit_breaker" where
  "audit_begin_attempt_at now b =
     (if ab_trip_after b = 0 then (RefuseOpen, b)
      else let b1 = reclaim_stale now b in
        if length (ab_in_flight b1) < ab_max_in_flight b1
        then (AdmitAttempt (ab_next_attempt_id b1),
              b1\<lparr>ab_next_attempt_id := saturating_inc (ab_next_attempt_id b1),
                 ab_in_flight := ab_in_flight b1 @ [(ab_next_attempt_id b1, now)]\<rparr>)
        else if ab_max_stale_reclaims b1 \<le> ab_stale_reclaims b1 then (RefuseOpen, b1)
        else (RefuseAtCapacity, b1))"

definition audit_should_log_refusal_at :: "nat \<Rightarrow> audit_breaker \<Rightarrow> bool \<times> audit_breaker" where
  "audit_should_log_refusal_at now b =
     (let should_log = (case ab_last_refusal_logged_at b of
                          None \<Rightarrow> True | Some logged_at \<Rightarrow> ab_refusal_log_every b \<le> now - logged_at)
      in (should_log, if should_log then b\<lparr>ab_last_refusal_logged_at := Some now\<rparr> else b))"

definition audit_record_success :: "u64 \<Rightarrow> audit_breaker \<Rightarrow> audit_breaker" where
  "audit_record_success attempt b =
     (case position (\<lambda>(a, _). a = attempt) (ab_in_flight b) of
        Some pos \<Rightarrow> b\<lparr>ab_in_flight := take pos (ab_in_flight b) @ drop (Suc pos) (ab_in_flight b)\<rparr>
      | None \<Rightarrow> b)"

section \<open>The sink\<close>

record primary =
  pr_file :: bytes
  pr_failed :: bool
  pr_poisoned :: bool

record audit_sink =
  as_primary :: primary
  as_breaker :: audit_breaker
  as_busy_since :: nat
  as_busy_limit :: nat


definition U64_MAX :: nat where "U64_MAX = 18446744073709551615"

definition hold_from :: "nat \<Rightarrow> nat" where
  "hold_from now = min (min now U64_MAX + 1) U64_MAX"

definition busy_longer_than :: "nat \<Rightarrow> nat \<Rightarrow> nat \<Rightarrow> bool" where
  "busy_longer_than since limit now \<longleftrightarrow> since \<noteq> 0 \<and> limit < now - (since - 1)"

text \<open>An append up to the spawn of its worker: refused, or admitted under an attempt number.\<close>

definition append_admitted :: "nat \<Rightarrow> audit_sink \<Rightarrow> (string + u64) \<times> audit_sink" where
  "append_admitted now sk =
     (if busy_longer_than (as_busy_since sk) (as_busy_limit sk) now
      then (Inl (''audit writer busy for more than '' @ show_nat (as_busy_limit sk div 1000000) @ ''ms''),
            sk\<lparr>as_breaker := snd (audit_should_log_refusal_at now (as_breaker sk))\<rparr>)
      else case audit_begin_attempt_at now (as_breaker sk) of
        (AdmitAttempt a, b) \<Rightarrow> (Inr a, sk\<lparr>as_breaker := b\<rparr>)
      | (RefuseOpen, b) \<Rightarrow>
          (Inl ''audit append circuit breaker open'', sk\<lparr>as_breaker := snd (audit_should_log_refusal_at now b)\<rparr>)
      | (RefuseAtCapacity, b) \<Rightarrow>
          (Inl ''audit append worker capacity exhausted'',
           sk\<lparr>as_breaker := snd (audit_should_log_refusal_at now b)\<rparr>))"

text \<open>
  \<open>write_line\<close> in two parts, because other appends run while it holds the writer: taking the
  writer, and what the write and the sync then do. A failed or panicking \<open>write_all\<close> leaves the
  bytes written so far.
\<close>

datatype write_io = WriteOk | WriteErr nat string | WritePanic nat

datatype sync_io = SyncOk | SyncErr string

definition write_begin :: "nat \<Rightarrow> audit_sink \<Rightarrow> string + audit_sink" where
  "write_begin now sk =
     (if pr_poisoned (as_primary sk) then Inl ''audit writer panicked; primary sink requires recovery''
      else if pr_failed (as_primary sk) then Inl ''prior audit append failed; primary sink requires recovery''
      else Inr (sk\<lparr>as_primary := (as_primary sk)\<lparr>pr_failed := True\<rparr>, as_busy_since := hold_from now\<rparr>))"

definition write_end :: "bytes \<Rightarrow> write_io \<Rightarrow> sync_io \<Rightarrow> audit_sink \<Rightarrow> (string + unit) \<times> audit_sink" where
  "write_end line wr sy sk =
     (let p = as_primary sk; idle = sk\<lparr>as_busy_since := 0\<rparr> in
      case wr of
        WriteErr n e \<Rightarrow> (Inl e, idle\<lparr>as_primary := p\<lparr>pr_file := pr_file p @ take n line\<rparr>\<rparr>)
      | WritePanic n \<Rightarrow>
          (Inl ''blocking write task panicked/was cancelled'',
           idle\<lparr>as_primary := p\<lparr>pr_file := pr_file p @ take n line, pr_poisoned := True\<rparr>\<rparr>)
      | WriteOk \<Rightarrow>
          (case sy of
             SyncErr e \<Rightarrow> (Inl e, idle\<lparr>as_primary := p\<lparr>pr_file := pr_file p @ line\<rparr>\<rparr>)
           | SyncOk \<Rightarrow> (Inr (), idle\<lparr>as_primary := p\<lparr>pr_file := pr_file p @ line, pr_failed := False\<rparr>\<rparr>)))"

definition slot_release :: "u64 \<Rightarrow> audit_sink \<Rightarrow> audit_sink" where
  "slot_release attempt sk = sk\<lparr>as_breaker := audit_record_success attempt (as_breaker sk)\<rparr>"

definition sink_scan_back ::
  "audit_sink \<Rightarrow> string + nat \<Rightarrow> (nat \<Rightarrow> nat \<Rightarrow> string + bytes) \<Rightarrow> (bytes \<Rightarrow> bool)
    \<Rightarrow> ((string + scan_error) + scan_result) outcome" where
  "sink_scan_back sk metadata_len read_at matches =
     (if pr_poisoned (as_primary sk)
      then Returns (Inl (Inl ''audit writer panicked; primary sink requires recovery''))
      else case metadata_len of
        Inl e \<Rightarrow> Returns (Inl (Inl e))
      | Inr len \<Rightarrow>
          (case scan_back len read_at matches of
             Panics \<Rightarrow> Panics
           | Returns r \<Rightarrow> Returns (map_err Inr r)))"

section \<open>Appends running together\<close>

text \<open>
  The appends of a process: a submitted line waits as a worker, one worker at a time holds the
  writer, and the operating system decides how its write ends. \<open>ts_written\<close> lists the lines whose
  write was synced, \<open>ts_acked\<close> those whose caller was told so: an append with a bound may have
  stopped waiting (\<open>waits\<close> is false) while its worker went on. A worker the runtime drops before
  it starts releases its slot.
\<close>

record trail_state =
  ts_sink :: audit_sink
  ts_pending :: "(u64 \<times> bytes) multiset"
  ts_holder :: "(u64 \<times> bytes) option"
  ts_written :: "bytes list"
  ts_acked :: "bytes list"
  ts_submitted :: "bytes set"


inductive trail_step :: "trail_state \<Rightarrow> trail_state \<Rightarrow> bool" where
  submit: "append_admitted now (ts_sink s) = (Inr a, sk) \<Longrightarrow>
    trail_step s (s\<lparr>ts_sink := sk, ts_pending := add_mset (a, line) (ts_pending s),
                    ts_submitted := insert line (ts_submitted s)\<rparr>)"
| refuse: "append_admitted now (ts_sink s) = (Inl e, sk) \<Longrightarrow> trail_step s (s\<lparr>ts_sink := sk\<rparr>)"
| start: "\<lbrakk>ts_holder s = None; w \<in># ts_pending s; write_begin now (ts_sink s) = Inr sk\<rbrakk> \<Longrightarrow>
    trail_step s (s\<lparr>ts_sink := sk, ts_pending := ts_pending s - {#w#}, ts_holder := Some w\<rparr>)"
| turned_away: "\<lbrakk>ts_holder s = None; w \<in># ts_pending s; write_begin now (ts_sink s) = Inl e\<rbrakk> \<Longrightarrow>
    trail_step s (s\<lparr>ts_sink := slot_release (fst w) (ts_sink s), ts_pending := ts_pending s - {#w#}\<rparr>)"
| cancelled: "w \<in># ts_pending s \<Longrightarrow>
    trail_step s (s\<lparr>ts_sink := slot_release (fst w) (ts_sink s), ts_pending := ts_pending s - {#w#}\<rparr>)"
| finish: "\<lbrakk>ts_holder s = Some w; write_end (snd w) wr sy (ts_sink s) = (res, sk)\<rbrakk> \<Longrightarrow>
    trail_step s (s\<lparr>ts_sink := slot_release (fst w) sk, ts_holder := None,
                    ts_written := (if res = Inr () then ts_written s @ [snd w] else ts_written s),
                    ts_acked := (if res = Inr () \<and> waits then ts_acked s @ [snd w] else ts_acked s)\<rparr>)"

inductive_cases trail_stepE: "trail_step s s'"



lemma slot_release_primary [simp]: "as_primary (slot_release a sk) = as_primary sk"
  by (simp add: slot_release_def)







section \<open>How many workers there can be\<close>










section \<open>What an acknowledgement means\<close>









end
