(* ===== verification/Frames.thy ===== *)
theory Frames
  imports Bytes
begin

text \<open>
  Message framing (\<open>crates/maknae-proto/src/frame.rs\<close>): a big-endian length, a class byte and the
  body, read under a cap per class. The stream written to is given by its \<open>write_all\<close> and \<open>flush\<close>;
  a stream read from is the list of bytes it still delivers. The lemmas show that the reader
  accepts exactly what the writer emits, and that a run of frames is read back in order.
\<close>

section \<open>The code\<close>

datatype frame_class = Control | Attempt | Prompt

fun class_byte :: "frame_class \<Rightarrow> u8" where
  "class_byte Control = 1"
| "class_byte Attempt = 2"
| "class_byte Prompt = 3"

datatype frame_error =
    FOversize nat nat
  | FTruncated
  | FUnknownClass u8
  | FUnexpectedClass frame_class frame_class
  | FIo string

definition frame_class_from :: "u8 \<Rightarrow> frame_error + frame_class" where
  "frame_class_from b =
     (if b = 1 then Inr Control else if b = 2 then Inr Attempt else if b = 3 then Inr Prompt
      else Inl (FUnknownClass b))"

record frame_caps =
  fc_control :: nat
  fc_attempt :: nat
  fc_prompt :: nat

fun frame_cap :: "frame_caps \<Rightarrow> frame_class \<Rightarrow> nat" where
  "frame_cap caps Control = fc_control caps"
| "frame_cap caps Attempt = fc_attempt caps"
| "frame_cap caps Prompt = fc_prompt caps"

definition MAX_MUTATION_DEPTH :: nat where "MAX_MUTATION_DEPTH = 128"
definition MAX_MUTATION_PATH_BYTES :: nat where "MAX_MUTATION_PATH_BYTES = 4096"
definition CONTROL_RESPONSE_MAX :: nat where "CONTROL_RESPONSE_MAX = 65536"
definition ATTEMPT_RESPONSE_MAX :: nat where "ATTEMPT_RESPONSE_MAX = MAX_MUTATION_DEPTH * MAX_MUTATION_PATH_BYTES"

definition response_caps :: "nat \<Rightarrow> frame_caps" where
  "response_caps prompt = \<lparr>fc_control = CONTROL_RESPONSE_MAX, fc_attempt = ATTEMPT_RESPONSE_MAX, fc_prompt = prompt\<rparr>"

definition U32_MAX :: nat where "U32_MAX = 4294967295"

definition frame_len :: "bytes \<Rightarrow> frame_error + u32" where
  "frame_len body = (if length body \<le> U32_MAX then Inr (of_nat (length body)) else Inl (FOversize (length body) U32_MAX))"

text \<open>
  \<open>write_all\<close> and \<open>flush\<close> of the stream written to are arguments; a stream read from is the bytes
  it still delivers, and \<open>read_exact\<close> fails when fewer are left.
\<close>

definition write_frame ::
  "('w \<Rightarrow> bytes \<Rightarrow> string + 'w) \<Rightarrow> ('w \<Rightarrow> string + 'w) \<Rightarrow> 'w \<Rightarrow> frame_class \<Rightarrow> bytes \<Rightarrow> frame_error + 'w" where
  "write_frame write_all flush w cls body =
     res_bind (frame_len body) (\<lambda>n.
     res_bind (map_err FIo (write_all w (rev (to_le 4 n) @ [class_byte cls]))) (\<lambda>w1.
     res_bind (map_err FIo (write_all w1 body)) (\<lambda>w2.
     map_err FIo (flush w2))))"

definition read_exact :: "nat \<Rightarrow> bytes \<Rightarrow> frame_error + bytes \<times> bytes" where
  "read_exact n s = (if n \<le> length s then Inr (take n s, drop n s) else Inl FTruncated)"

definition read_frame_zeroizing :: "frame_caps \<Rightarrow> bytes \<Rightarrow> frame_error + (frame_class \<times> bytes) \<times> bytes" where
  "read_frame_zeroizing caps r =
     res_bind (read_exact 5 r) (\<lambda>(header, r1).
     res_bind (frame_class_from (header ! 4)) (\<lambda>cls.
       let declared = unat (from_le (rev (take 4 header)) :: u32); limit = frame_cap caps cls in
       if declared > limit then Inl (FOversize declared limit)
       else res_bind (read_exact declared r1) (\<lambda>(body, r2). Inr ((cls, body), r2))))"

definition read_frame_of_class :: "frame_class \<Rightarrow> frame_caps \<Rightarrow> bytes \<Rightarrow> frame_error + bytes \<times> bytes" where
  "read_frame_of_class expected caps r =
     res_bind (read_frame_zeroizing caps r) (\<lambda>((got, body), r').
       if got \<noteq> expected then Inl (FUnexpectedClass expected got) else Inr (body, r'))"

section \<open>Integers in big-endian order\<close>

lemma to_le_from_le:
  assumes "length bs = n" "LENGTH('a) = 8 * n"
  shows "to_le n (from_le bs :: 'a::len word) = bs"
proof (rule nth_equalityI)
  show "length (to_le n (from_le bs :: 'a word)) = length bs" using assms by simp
next
  fix i assume "i < length (to_le n (from_le bs :: 'a word))"
  then have i: "i < n" by simp
  show "to_le n (from_le bs :: 'a word) ! i = bs ! i"
  proof (rule bit_word_eqI)
    fix k assume "k < LENGTH(8)"
    then have k: "k < 8" by simp
    then have "8 * i + k < 8 * n" "(8 * i + k) div 8 = i" "(8 * i + k) mod 8 = k" using i by auto
    then show "bit (to_le n (from_le bs :: 'a word) ! i) k = bit (bs ! i) k"
      using i k assms by (simp add: to_le_def bit_ucast_iff bit_drop_bit_eq bit_from_le)
  qed
qed

lemma unat_u32: "n \<le> U32_MAX \<Longrightarrow> unat (of_nat n :: u32) = n"
  by (simp add: unat_of_nat U32_MAX_def)

section \<open>Reader and writer agree\<close>

definition frame_bytes :: "frame_class \<Rightarrow> bytes \<Rightarrow> bytes" where
  "frame_bytes cls body = rev (to_le 4 (of_nat (length body) :: u32)) @ class_byte cls # body"

definition frame_ok :: "frame_caps \<Rightarrow> frame_class \<times> bytes \<Rightarrow> bool" where
  "frame_ok caps f \<longleftrightarrow> length (snd f) \<le> frame_cap caps (fst f) \<and> length (snd f) \<le> U32_MAX"

lemma frame_class_byte [simp]: "frame_class_from (class_byte c) = Inr c"
  by (cases c) (simp_all add: frame_class_from_def)

lemma frame_class_from_Inr: "frame_class_from b = Inr c \<Longrightarrow> class_byte c = b"
  by (auto simp: frame_class_from_def split: if_splits)

lemma header_split: "5 \<le> length s \<Longrightarrow> s = take 4 s @ s ! 4 # drop 5 s"
  by (metis Cons_nth_drop_Suc append_take_drop_id eval_nat_numeral(3) less_le_trans lessI
      numeral_eq_Suc pred_numeral_simps(3))

lemma read_frame_iff:
  "read_frame_zeroizing caps s = Inr ((c, b), r) \<longleftrightarrow> s = frame_bytes c b @ r \<and> frame_ok caps (c, b)"
proof
  assume read: "read_frame_zeroizing caps s = Inr ((c, b), r)"
  define len where "len = (from_le (rev (take 4 s)) :: u32)"
  from read have l: "5 \<le> length s" and c: "frame_class_from (s ! 4) = Inr c"
    and cap: "unat len \<le> frame_cap caps c" and b: "unat len \<le> length (drop 5 s)"
      "b = take (unat len) (drop 5 s)" "r = drop (unat len) (drop 5 s)"
    by (auto simp: read_frame_zeroizing_def read_exact_def Let_def len_def min_def
        elim!: res_bind_InrE split: if_splits)
  have "unat len \<le> U32_MAX" 
  proof -
    have "unat len < 2 ^ LENGTH(32)" by (rule unsigned_less)
    then show ?thesis by (simp add: U32_MAX_def)
  qed
  moreover have n: "length b = unat len" using b by simp
  moreover have "to_le 4 len = rev (take 4 s)" unfolding len_def using l by (intro to_le_from_le) simp_all
  moreover have "drop 5 s = b @ r" unfolding b by (simp only: append_take_drop_id)
  ultimately show "s = frame_bytes c b @ r \<and> frame_ok caps (c, b)"
    using header_split [OF l] frame_class_from_Inr [OF c] cap by (simp add: frame_bytes_def frame_ok_def)
next
  assume s: "s = frame_bytes c b @ r \<and> frame_ok caps (c, b)"
  then have "from_le (to_le 4 (of_nat (length b) :: u32)) = (of_nat (length b) :: u32)" "unat (of_nat (length b) :: u32) = length b"
    by (simp_all add: from_le_to_le unat_u32 frame_ok_def)
  with s show "read_frame_zeroizing caps s = Inr ((c, b), r)"
    by (simp add: read_frame_zeroizing_def read_exact_def frame_bytes_def frame_ok_def nth_append Let_def)
qed

lemma write_frame_ok:
  assumes "length b \<le> U32_MAX" and "\<And>w x. write_all w x = Inr (w @ x)" and "\<And>w. flush w = Inr w"
  shows "write_frame write_all flush w c b = Inr (w @ frame_bytes c b)"
  using assms by (simp add: write_frame_def frame_len_def frame_bytes_def)

interpretation frames: stream_codec "read_frame_zeroizing caps" "\<lambda>(c, b) s. frame_bytes c b @ s" "frame_ok caps"
  for caps
  by unfold_locales (auto simp: read_frame_iff)

text \<open>A writer that sends several frames on one stream.\<close>

fun write_frames ::
  "('w \<Rightarrow> bytes \<Rightarrow> string + 'w) \<Rightarrow> ('w \<Rightarrow> string + 'w) \<Rightarrow> 'w \<Rightarrow> (frame_class \<times> bytes) list \<Rightarrow> frame_error + 'w" where
  "write_frames write_all flush w [] = Inr w"
| "write_frames write_all flush w ((c, b) # fs) =
     res_bind (write_frame write_all flush w c b) (\<lambda>w'. write_frames write_all flush w' fs)"

lemma write_frames_ok:
  assumes "list_all (frame_ok caps) fs"
    and "\<And>w x. write_all w x = Inr (w @ x)" and "\<And>w. flush w = Inr w"
  shows "write_frames write_all flush w fs = Inr (w @ foldr (\<lambda>(c, b) s. frame_bytes c b @ s) fs [])"
  using assms(1)
proof (induction fs arbitrary: w)
  case (Cons f fs)
  obtain c b where f: "f = (c, b)" by fastforce
  then show ?case using Cons write_frame_ok [of b write_all flush, OF _ assms(2,3)] by (simp add: frame_ok_def)
qed simp

lemma foldr_frames: "foldr (\<lambda>(c, b) s. frame_bytes c b @ s) fs t = foldr (\<lambda>(c, b) s. frame_bytes c b @ s) fs [] @ t"
  by (induction fs) auto

text \<open>
  Framing is unambiguous: frames within their caps, written one after the other on a stream,
  are read back as the same classes and bodies in the same order, leaving what follows them
  untouched; and whatever bytes arrive, a frame the reader accepts is exactly a frame some writer
  emits, within the cap of its class, so a peer cannot make the reader hold more than the cap.
\<close>

lemma frames_roundtrip:
  assumes "list_all (frame_ok caps) fs"
  shows "(\<exists>s. write_frames (\<lambda>w x. Inr (w @ x)) Inr w fs = Inr (w @ s)
            \<and> get_many (read_frame_zeroizing caps) (length fs) (s @ rest) = Inr (fs, rest))
    \<and> (read_frame_zeroizing caps bs = Inr ((c, b), r) \<longleftrightarrow>
         write_frames (\<lambda>w x. Inr (w @ x)) Inr [] [(c, b)] = Inr (take (length bs - length r) bs)
         \<and> r = drop (length b + 5) bs \<and> length b + 5 \<le> length bs
         \<and> length b \<le> frame_cap caps c \<and> length b \<le> U32_MAX)"
proof (intro conjI exI)
  show "write_frames (\<lambda>w x. Inr (w @ x)) Inr w fs = Inr (w @ foldr (\<lambda>(c, b) s. frame_bytes c b @ s) fs [])"
    by (rule write_frames_ok [OF assms]) simp_all
  show "get_many (read_frame_zeroizing caps) (length fs) (foldr (\<lambda>(c, b) s. frame_bytes c b @ s) fs [] @ rest) = Inr (fs, rest)"
    using frames.get_many_feed [OF assms] foldr_frames by metis
next
  have len: "length (frame_bytes c b) = length b + 5" by (simp add: frame_bytes_def)
  have "length b \<le> U32_MAX \<Longrightarrow> write_frames (\<lambda>w x. Inr (w @ x)) Inr [] [(c, b)] = Inr (frame_bytes c b)"
    using write_frame_ok [of b "\<lambda>w x. Inr (w @ x)" Inr "[]" c] by simp
  moreover have "bs = frame_bytes c b @ r \<longleftrightarrow>
      frame_bytes c b = take (length bs - length r) bs \<and> r = drop (length b + 5) bs \<and> length b + 5 \<le> length bs"
    using len by (auto simp: append_eq_conv_conj)
  ultimately show "read_frame_zeroizing caps bs = Inr ((c, b), r) \<longleftrightarrow>
         write_frames (\<lambda>w x. Inr (w @ x)) Inr [] [(c, b)] = Inr (take (length bs - length r) bs)
         \<and> r = drop (length b + 5) bs \<and> length b + 5 \<le> length bs
         \<and> length b \<le> frame_cap caps c \<and> length b \<le> U32_MAX"
    unfolding read_frame_iff frame_ok_def by auto
qed

end
