(* ===== verification/Wire.thy ===== *)
theory Wire
  imports RustStr Frames
begin

text \<open>
  The client wire contract (\<open>crates/maknae-proto/src\<close>): the request verbs and their operands, the
  shape checks on them, the frame class of a verb and the versioned decode (\<open>wire.rs\<close>). The CBOR codec, Unicode normalisation (\<open>nfc\<close>) and the
  Unicode general category of a character (\<open>gc\<close>) belong to other packages and are arguments.
\<close>

section \<open>Operands of the verbs\<close>

record page_request =
  pr_offset_line :: u64
  pr_limit_lines :: u32
  pr_column :: u64

definition WHOLE_FILE :: page_request where
  "WHOLE_FILE = \<lparr>pr_offset_line = 1, pr_limit_lines = -1, pr_column = 0\<rparr>"

definition page_request_is_acceptable :: "page_request \<Rightarrow> bool" where
  "page_request_is_acceptable p \<longleftrightarrow> 1 \<le> pr_offset_line p \<and> 1 \<le> pr_limit_lines p"

datatype write_mode = Existing | CreateExclusive

datatype contain_target = TName string | TUid u32

datatype content_block =
    Text string
  | Image string string
  | Audio string string
  | Resource string "string option"
  | ResourceLink string string

fun content_kind :: "content_block \<Rightarrow> string" where
  "content_kind (Text _) = ''text''"
| "content_kind (Image _ _) = ''image''"
| "content_kind (Audio _ _) = ''audio''"
| "content_kind (Resource _ _) = ''resource''"
| "content_kind (ResourceLink _ _) = ''resource_link''"

datatype call_refusal = ArgumentsOverBound u64

record proposed_tool_call =
  tc_name :: string
  tc_call_id :: string
  tc_arguments :: string
  tc_refused :: "call_refusal option"

datatype turn =
    UserTurn "content_block list"
  | AssistantTurn "content_block list" "proposed_tool_call list" "string option"
  | ToolTurn string "content_block list"

record provider_choice =
  pc_provider :: string
  pc_model :: string
  pc_key_subpath :: string
  pc_key_field :: string
  pc_sealed_key :: bytes

datatype (plugins only: code) verb =
    Ping | Whoami | AdminStatus | AdminConfigShow | AdminAuditTail | AdminPolicyReload
  | AdminSubjectList | AdminBaselineShow | AdminBaselineAccept string
  | AdminSubjectBind | AdminSubjectUnbind | AdminContain contain_target string | AdminRelease contain_target
  | AdminCredentialRotate | AdminProviderList | AdminProviderSet | AdminProviderDisable
  | AdminSessionList | AdminSessionTerminate
  | SessionNew | SessionResume | SessionClose | SessionDelete | SessionList | SessionFork
  | SessionPrompt string "turn list" "u64 option" "provider_choice option"
  | SessionCancel | SessionSetconfigoption | SessionSetmode | SessionLoad | SessionUpdate
  | SessionRequestpermission | SessionElicitCreate | SessionElicitComplete | SessionCompact
  | Read string "string option" "page_request option"
  | FsWrite string u64 write_mode "string option"
  | FsDelete string bool
  | FsMove | FsList | FsStat
  | FsMkdir string bool "string list"
  | FsLink | FsChmod | FsChown
  | TerminalCreate | TerminalOutput | TerminalWaitforexit | TerminalKill | TerminalRelease | TerminalInput
  | McpConnect | McpDisconnect | McpMessage | McpToolCall | McpResourceRead | McpPromptGet | McpSamplingCreate


section \<open>Shape checks\<close>

definition MAX_CONVERSATION_ID_BYTES :: nat where "MAX_CONVERSATION_ID_BYTES = 32"
definition MAX_CONTEXT_TOKENS :: nat where "MAX_CONTEXT_TOKENS = 16777216"
definition MAX_TOOL_CALL_ARGS_BYTES :: nat where "MAX_TOOL_CALL_ARGS_BYTES = 61440"
definition MAX_TOOL_CALL_NAME_BYTES :: nat where "MAX_TOOL_CALL_NAME_BYTES = 64"
definition MAX_TOOL_CALL_ID_BYTES :: nat where "MAX_TOOL_CALL_ID_BYTES = 64"
definition MAX_REASONING_BYTES :: nat where "MAX_REASONING_BYTES = MAX_TOOL_CALL_ARGS_BYTES"

definition conversation_id_is_acceptable :: "string \<Rightarrow> bool" where
  "conversation_id_is_acceptable i \<longleftrightarrow>
     i \<noteq> [] \<and> length i \<le> MAX_CONVERSATION_ID_BYTES
     \<and> list_all (\<lambda>b. is_ascii_alphanumeric b \<or> b \<in> set ''._-'') i"

definition output_tokens_is_acceptable :: "u64 \<Rightarrow> bool" where
  "output_tokens_is_acceptable n \<longleftrightarrow> 1 \<le> n \<and> unat n \<le> MAX_CONTEXT_TOKENS"

definition reasoning_is_acceptable :: "string option \<Rightarrow> bool" where
  "reasoning_is_acceptable r = (case r of None \<Rightarrow> True | Some t \<Rightarrow> length t \<le> MAX_REASONING_BYTES)"

definition proposed_tool_call_is_acceptable :: "proposed_tool_call \<Rightarrow> bool" where
  "proposed_tool_call_is_acceptable c \<longleftrightarrow>
     tc_name c \<noteq> [] \<and> length (tc_name c) \<le> MAX_TOOL_CALL_NAME_BYTES
     \<and> tc_call_id c \<noteq> [] \<and> length (tc_call_id c) \<le> MAX_TOOL_CALL_ID_BYTES
     \<and> (case tc_refused c of
          None \<Rightarrow> length (tc_arguments c) \<le> MAX_TOOL_CALL_ARGS_BYTES
        | Some (ArgumentsOverBound bytes) \<Rightarrow> tc_arguments c = [] \<and> MAX_TOOL_CALL_ARGS_BYTES < unat bytes)"

fun turn_is_acceptable :: "turn \<Rightarrow> bool" where
  "turn_is_acceptable (UserTurn content) \<longleftrightarrow> content \<noteq> []"
| "turn_is_acceptable (AssistantTurn content tool_calls reasoning) \<longleftrightarrow>
     (content \<noteq> [] \<or> tool_calls \<noteq> []) \<and> list_all proposed_tool_call_is_acceptable tool_calls
     \<and> reasoning_is_acceptable reasoning"
| "turn_is_acceptable (ToolTurn call_id content) \<longleftrightarrow>
     call_id \<noteq> [] \<and> length call_id \<le> MAX_TOOL_CALL_ID_BYTES \<and> content \<noteq> []"

section \<open>Containment operands\<close>

definition CONTAIN_REASON_MAX_BYTES :: nat where "CONTAIN_REASON_MAX_BYTES = 384"
definition CONTAIN_NAME_MAX_BYTES :: nat where "CONTAIN_NAME_MAX_BYTES = 256"
definition CONTAIN_ALLOWED_FORMAT :: "nat list" where "CONTAIN_ALLOWED_FORMAT = []"

datatype operand = OReason | OName

datatype operand_error =
    OpEmpty operand
  | OpTooLong operand
  | OpControl operand nat
  | OpFormat operand nat
  | OpSeparator operand nat
  | OpPrivateUse operand nat
  | EdgeWhitespace

datatype general_category =
    GcControl | GcFormat | GcLineSeparator | GcParagraphSeparator | GcPrivateUse | GcOther

definition is_bidi_override :: "nat \<Rightarrow> bool" where
  "is_bidi_override c \<longleftrightarrow> 0x202A \<le> c \<and> c \<le> 0x202E \<or> 0x2066 \<le> c \<and> c \<le> 0x2069"

definition format_allowed :: "nat \<Rightarrow> nat list \<Rightarrow> bool" where
  "format_allowed c allowed \<longleftrightarrow> \<not> is_bidi_override c \<and> c \<in> set allowed"

text \<open>\<open>str::chars\<close>: the scalar values of well-formed UTF-8; a stray byte stands for itself.\<close>

fun str_chars :: "string \<Rightarrow> nat list" where
  "str_chars [] = []"
| "str_chars (a # s) =
     (let x = of_char a; low = \<lambda>c. of_char c mod 64 in
      if x < 0xC0 then x # str_chars s
      else if x < 0xE0 then (case s of b # s1 \<Rightarrow> (x mod 32 * 64 + low b) # str_chars s1 | _ \<Rightarrow> [x])
      else if x < 0xF0 then
        (case s of b # c # s2 \<Rightarrow> (x mod 16 * 4096 + low b * 64 + low c) # str_chars s2 | _ \<Rightarrow> [x])
      else
        (case s of b # c # d # s3 \<Rightarrow> (x mod 8 * 262144 + low b * 4096 + low c * 64 + low d) # str_chars s3
         | _ \<Rightarrow> [x]))"

definition char_fault :: "(nat \<Rightarrow> general_category) \<Rightarrow> operand \<Rightarrow> nat list \<Rightarrow> nat \<Rightarrow> operand_error option" where
  "char_fault gc what allowed c =
     (case gc c of
        GcControl \<Rightarrow> Some (OpControl what c)
      | GcFormat \<Rightarrow> if format_allowed c allowed then None else Some (OpFormat what c)
      | GcLineSeparator \<Rightarrow> Some (OpSeparator what c)
      | GcParagraphSeparator \<Rightarrow> Some (OpSeparator what c)
      | GcPrivateUse \<Rightarrow> Some (OpPrivateUse what c)
      | GcOther \<Rightarrow> None)"

definition checked_with ::
  "(string \<Rightarrow> string) \<Rightarrow> (nat \<Rightarrow> general_category) \<Rightarrow> string \<Rightarrow> operand \<Rightarrow> nat \<Rightarrow> nat list \<Rightarrow> operand_error + string"
where
  "checked_with nfc gc raw what limit allowed =
     (let text = nfc raw in
      case find_map (char_fault gc what allowed) (str_chars text) of
        Some e \<Rightarrow> Inl e
      | None \<Rightarrow>
          if trim text = [] then Inl (OpEmpty what)
          else if length text > limit then Inl (OpTooLong what)
          else Inr text)"

definition checked ::
  "(string \<Rightarrow> string) \<Rightarrow> (nat \<Rightarrow> general_category) \<Rightarrow> string \<Rightarrow> operand \<Rightarrow> nat \<Rightarrow> operand_error + string" where
  "checked nfc gc raw what limit = checked_with nfc gc raw what limit CONTAIN_ALLOWED_FORMAT"

definition contain_reason :: "(string \<Rightarrow> string) \<Rightarrow> (nat \<Rightarrow> general_category) \<Rightarrow> string \<Rightarrow> operand_error + string" where
  "contain_reason nfc gc raw = checked nfc gc raw OReason CONTAIN_REASON_MAX_BYTES"

definition contain_name :: "(string \<Rightarrow> string) \<Rightarrow> (nat \<Rightarrow> general_category) \<Rightarrow> string \<Rightarrow> operand_error + string" where
  "contain_name nfc gc raw =
     res_bind (checked nfc gc raw OName CONTAIN_NAME_MAX_BYTES) (\<lambda>name.
       if trim name \<noteq> name then Inl EdgeWhitespace else Inr name)"

definition contain_target_checked ::
  "(string \<Rightarrow> string) \<Rightarrow> (nat \<Rightarrow> general_category) \<Rightarrow> contain_target \<Rightarrow> operand_error + contain_target" where
  "contain_target_checked nfc gc t =
     (case t of
        TName n \<Rightarrow> res_bind (contain_name nfc gc n) (\<lambda>m. Inr (TName m))
      | TUid u \<Rightarrow> Inr (TUid u))"

datatype containment_outcome =
    Contained | Released | AlreadyContained | NotContained | LastReleaser | SelfContainWithoutRelease
  | Busy | Stopping | NoExplicitBindings | UnknownAccount | LookupUnavailable

fun outcome_code :: "containment_outcome \<Rightarrow> string" where
  "outcome_code Contained = ''contained''"
| "outcome_code Released = ''released''"
| "outcome_code AlreadyContained = ''already-contained''"
| "outcome_code NotContained = ''not-contained''"
| "outcome_code LastReleaser = ''last-releaser''"
| "outcome_code SelfContainWithoutRelease = ''self-contain-without-release''"
| "outcome_code Busy = ''busy''"
| "outcome_code Stopping = ''stopping''"
| "outcome_code NoExplicitBindings = ''no-explicit-bindings''"
| "outcome_code UnknownAccount = ''unknown-account''"
| "outcome_code LookupUnavailable = ''lookup-unavailable''"

fun outcome_text :: "containment_outcome \<Rightarrow> string" where
  "outcome_text Contained = ''subject is contained''"
| "outcome_text Released = ''subject is released''"
| "outcome_text AlreadyContained = ''subject is already contained''"
| "outcome_text NotContained = ''subject is not contained''"
| "outcome_text LastReleaser = ''refused: this would leave no subject able to release''"
| "outcome_text SelfContainWithoutRelease =
     ''refused: you may contain yourself only if you hold admin.release''"
| "outcome_text Busy = ''refused: the daemon is busy, try again''"
| "outcome_text Stopping = ''refused: the daemon is stopping''"
| "outcome_text NoExplicitBindings = ''refused: this host has no explicit bindings; re-enroll first''"
| "outcome_text UnknownAccount = ''refused: no such account''"
| "outcome_text LookupUnavailable = ''refused: the account lookup is unavailable''"

definition outcome_is_success :: "containment_outcome \<Rightarrow> bool" where
  "outcome_is_success c \<longleftrightarrow> c \<in> {Contained, Released, AlreadyContained, NotContained}"

record containment_view =
  cv_outcome :: containment_outcome
  cv_target_uid :: "u32 option"
  cv_revision :: "u64 option"

section \<open>The frame class of a verb\<close>

definition wire_class_of :: "verb \<Rightarrow> frame_class" where
  "wire_class_of v =
     (case v of
        SessionPrompt _ _ _ _ \<Rightarrow> Prompt
      | Read _ _ _ \<Rightarrow> Attempt
      | FsWrite _ _ _ _ \<Rightarrow> Attempt
      | FsDelete _ _ \<Rightarrow> Attempt
      | FsMove \<Rightarrow> Attempt
      | FsList \<Rightarrow> Attempt
      | FsStat \<Rightarrow> Attempt
      | FsMkdir _ _ _ \<Rightarrow> Attempt
      | FsLink \<Rightarrow> Attempt
      | FsChmod \<Rightarrow> Attempt
      | FsChown \<Rightarrow> Attempt
      | _ \<Rightarrow> Control)"

definition frame_admits :: "frame_class \<Rightarrow> verb \<Rightarrow> bool" where
  "frame_admits declared v \<longleftrightarrow> wire_class_of v = declared"

section \<open>The versioned request\<close>

definition PROTOCOL_VERSION :: u16 where "PROTOCOL_VERSION = 1"

datatype codec_error = CEncode string | CDecode string | CUnsupportedVersion u16

record wire_request =
  wr_protocol_version :: u16
  wr_verb :: verb

definition decode_request :: "(bytes \<Rightarrow> string + wire_request) \<Rightarrow> bytes \<Rightarrow> codec_error + wire_request" where
  "decode_request cbor b =
     res_bind (map_err CDecode (cbor b)) (\<lambda>r.
       if wr_protocol_version r \<noteq> PROTOCOL_VERSION then Inl (CUnsupportedVersion (wr_protocol_version r)) else Inr r)"

end
