(* ===== verification/BTree.thy ===== *)
theory BTree
  imports Prelude
begin

text \<open>
  \<open>std::collections::BTreeMap\<close> as the association list of its in-order iteration:
  keys strictly ascending. The interface the components rely on is the locale
  \<open>ordered_map\<close>; \<open>bt\<close> interprets it on the operations below.
\<close>

type_synonym ('k, 'v) btree = "('k \<times> 'v) list"

definition bt_inv :: "('k::linorder, 'v) btree \<Rightarrow> bool" where
  "bt_inv m \<longleftrightarrow> sorted_wrt (<) (map fst m)"

fun bt_insert :: "'k::linorder \<Rightarrow> 'v \<Rightarrow> ('k, 'v) btree \<Rightarrow> ('k, 'v) btree" where
  "bt_insert k v [] = [(k, v)]"
| "bt_insert k v ((k', v') # m) =
     (if k < k' then (k, v) # (k', v') # m
      else if k = k' then (k, v) # m
      else (k', v') # bt_insert k v m)"

fun bt_remove :: "'k::linorder \<Rightarrow> ('k, 'v) btree \<Rightarrow> ('k, 'v) btree" where
  "bt_remove k [] = []"
| "bt_remove k ((k', v') # m) = (if k = k' then m else (k', v') # bt_remove k m)"

abbreviation bt_get :: "('k, 'v) btree \<Rightarrow> 'k \<Rightarrow> 'v option" where
  "bt_get m k \<equiv> map_of m k"

text \<open>\<open>m.entry(k).or_default()\<close> followed by an in-place change \<open>f\<close>.\<close>

definition bt_entry :: "'k::linorder \<Rightarrow> 'v \<Rightarrow> ('v \<Rightarrow> 'v) \<Rightarrow> ('k, 'v) btree \<Rightarrow> ('k, 'v) btree" where
  "bt_entry k d f m = bt_insert k (f (case bt_get m k of None \<Rightarrow> d | Some v \<Rightarrow> v)) m"

text \<open>\<open>collect()\<close> into a map: later pairs win.\<close>

definition bt_of_list :: "('k::linorder \<times> 'v) list \<Rightarrow> ('k, 'v) btree" where
  "bt_of_list kvs = fold (\<lambda>(k, v) m. bt_insert k v m) kvs []"

lemma strict_keys_unique:
  fixes xs ys :: "('k::linorder \<times> 'v) list"
  assumes "sorted_wrt (<) (map fst xs)" "sorted_wrt (<) (map fst ys)" "set xs = set ys"
  shows "xs = ys"
  using assms
proof (induction xs arbitrary: ys)
  case Nil
  then show ?case by simp
next
  case (Cons x xs)
  then obtain y ys' where ys: "ys = y # ys'" by (cases ys) auto
  have lx: "\<forall>z\<in>set xs. fst x < fst z" and ly: "\<forall>z\<in>set ys'. fst y < fst z"
    using Cons.prems ys by auto
  have "x \<in> set (y # ys')" and "y \<in> set (x # xs)"
    using Cons.prems(3) ys by auto
  then have xy: "x = y"
    using lx ly by (metis not_less_iff_gr_or_eq set_ConsD)
  have "x \<notin> set xs" "y \<notin> set ys'"
    using lx ly by auto
  then have "set xs = set ys'"
    using Cons.prems(3) ys xy by auto
  with Cons ys xy show ?case by simp
qed

section \<open>The interface\<close>

locale ordered_map =
  fixes empty :: "'m"
    and insert :: "'k::linorder \<Rightarrow> 'v \<Rightarrow> 'm \<Rightarrow> 'm"
    and get :: "'m \<Rightarrow> 'k \<Rightarrow> 'v option"
    and entries :: "'m \<Rightarrow> ('k \<times> 'v) list"
    and inv :: "'m \<Rightarrow> bool"
  assumes inv_empty: "inv empty"
    and inv_insert: "inv m \<Longrightarrow> inv (insert k v m)"
    and get_empty: "get empty k = None"
    and get_insert: "get (insert k v m) k' = (if k' = k then Some v else get m k')"
    and entries_sorted: "inv m \<Longrightarrow> sorted_wrt (<) (map fst (entries m))"
    and entries_get: "inv m \<Longrightarrow> (k, v) \<in> set (entries m) \<longleftrightarrow> get m k = Some v"
    and entries_inj: "entries m = entries m' \<Longrightarrow> m = m'"
begin

lemma ext_eq:
  assumes "inv m" "inv m'" "\<And>k. get m k = get m' k"
  shows "m = m'"
proof (rule entries_inj, rule strict_keys_unique)
  show "set (entries m) = set (entries m')"
    using assms entries_get by auto
qed (use assms entries_sorted in auto)

lemma collect_inv: "inv m \<Longrightarrow> inv (fold (\<lambda>(k, v) m. insert k v m) kvs m)"
  by (induction kvs arbitrary: m) (auto simp: inv_insert)

lemma collect_get:
  "get (fold (\<lambda>(k, v) m. insert k v m) kvs m) k
     = (case map_of (rev kvs) k of Some v \<Rightarrow> Some v | None \<Rightarrow> get m k)"
proof (induction kvs arbitrary: m)
  case Nil
  then show ?case by simp
next
  case (Cons kv kvs)
  obtain k0 v0 where kv: "kv = (k0, v0)" by fastforce
  show ?case
    by (simp add: kv Cons.IH get_insert map_add_def split: option.split)
qed

end

section \<open>The operations satisfy it\<close>

lemma set_keys_bt_insert [simp]: "fst ` set (bt_insert k v m) = insert k (fst ` set m)"
  by (induction k v m rule: bt_insert.induct) auto

lemma bt_inv_Nil [simp]: "bt_inv []"
  by (simp add: bt_inv_def)

lemma bt_inv_Cons [simp]:
  "bt_inv ((k, v) # m) \<longleftrightarrow> (\<forall>k'\<in>fst ` set m. k < k') \<and> bt_inv m"
  by (simp add: bt_inv_def)

lemma bt_inv_insert [simp]: "bt_inv m \<Longrightarrow> bt_inv (bt_insert k v m)"
proof (induction k v m rule: bt_insert.induct)
  case (1 k v)
  then show ?case by simp
next
  case (2 k v k' v' m)
  then show ?case by (auto simp: not_less_iff_gr_or_eq)
qed

lemma bt_get_insert: "bt_get (bt_insert k v m) k' = (if k' = k then Some v else bt_get m k')"
  by (induction k v m rule: bt_insert.induct) auto

lemma bt_get_insert_same [simp]: "bt_get (bt_insert k v m) k = Some v"
  by (simp add: bt_get_insert)

lemma bt_inv_distinct: "bt_inv m \<Longrightarrow> distinct (map fst m)"
  by (simp add: bt_inv_def strict_sorted_iff)

lemma bt_entries_get: "bt_inv m \<Longrightarrow> (k, v) \<in> set m \<longleftrightarrow> bt_get m k = Some v"
  by (simp add: map_of_eq_Some_iff bt_inv_distinct)

interpretation bt: ordered_map "[]" bt_insert "map_of" "\<lambda>m. m" bt_inv
  by unfold_locales
    (simp_all add: bt_get_insert bt_entries_get, simp add: bt_inv_def)

lemma map_of_rev_distinct: "distinct (map fst m) \<Longrightarrow> map_of (rev m) = map_of m"
proof (rule ext)
  fix k
  assume d: "distinct (map fst m)"
  then have d': "distinct (map fst (rev m))" by (simp add: rev_map [symmetric])
  show "map_of (rev m) k = map_of m k"
  proof (cases "map_of m k")
    case None
    then show ?thesis by (metis map_of_eq_None_iff set_rev)
  next
    case (Some v)
    then have "(k, v) \<in> set (rev m)" by (simp add: map_of_SomeD)
    with d' Some show ?thesis by (simp add: map_of_eq_Some_iff)
  qed
qed

lemma bt_inv_of_list [simp]: "bt_inv (bt_of_list kvs)"
  unfolding bt_of_list_def by (rule bt.collect_inv) simp

lemma bt_get_of_list: "bt_get (bt_of_list kvs) k = map_of (rev kvs) k"
  unfolding bt_of_list_def by (simp add: bt.collect_get split: option.splits)

lemma bt_of_list_id: "bt_inv m \<Longrightarrow> bt_of_list m = m"
  by (rule bt.ext_eq) (simp_all add: bt_get_of_list map_of_rev_distinct bt_inv_distinct)

lemma bt_inv_entry [simp]: "bt_inv m \<Longrightarrow> bt_inv (bt_entry k d f m)"
  by (simp add: bt_entry_def)

lemma bt_get_entry:
  "bt_get (bt_entry k d f m) k' =
     (if k' = k then Some (f (case bt_get m k of None \<Rightarrow> d | Some v \<Rightarrow> v)) else bt_get m k')"
  by (simp add: bt_entry_def bt_get_insert)

lemma bt_inv_filter [simp]: "bt_inv m \<Longrightarrow> bt_inv (filter p m)"
  by (induction m) auto

lemma bt_inv_map_filter:
  assumes "bt_inv m" "\<And>k v k' w. f k v = Some (k', w) \<Longrightarrow> k' = k"
  shows "sorted_wrt (<) (map fst (List.map_filter (\<lambda>(k, v). f k v) m))"
  using assms(1)
proof (induction m)
  case Nil
  then show ?case by (simp add: List.map_filter_simps)
next
  case (Cons kv m)
  obtain k v where kv: "kv = (k, v)" by fastforce
  have "\<forall>k'\<in>fst ` set (List.map_filter (\<lambda>(k, v). f k v) m). k < k'"
    using Cons.prems assms(2) kv by (fastforce simp: mem_map_filter)
  moreover have "k' = k" if "f k v = Some (k', w)" for k' w
    using that by (rule assms(2))
  ultimately show ?case
    using Cons kv by (cases "f k v") (auto simp: List.map_filter_simps)
qed

end
