(* ===== verification/Seam.thy ===== *)
theory Seam
  imports BTree RustStr
begin

text \<open>
  The policy-agnostic authorization seam, \<^verbatim>\<open>crates/maknae-security\<close>: attribute bags
  (\<^verbatim>\<open>value.rs\<close>), requests (\<^verbatim>\<open>request.rs\<close>), obligations and their merge
  (\<^verbatim>\<open>obligation.rs\<close>), the four-valued verdict and its fail-closed finalisation
  (\<^verbatim>\<open>verdict.rs\<close>), the \<open>Authorizer\<close> trait (\<^verbatim>\<open>authorizer.rs\<close>) and the N-ary
  composition of authorizers behind panic boundaries (\<^verbatim>\<open>compose.rs\<close>).

  A trait object is a record of its methods; a method that may panic returns an
  \<open>outcome\<close>, so that \<open>catch_unwind\<close> is a case distinction.
\<close>

section \<open>Attributes and requests\<close>

datatype attr_value = AStr string | AInt int | ABool bool | ASet "string set"

type_synonym attributes = "(string, attr_value) btree"

definition attrs_new :: attributes where
  "attrs_new = []"

definition attrs_insert :: "string \<Rightarrow> attr_value \<Rightarrow> attributes \<Rightarrow> attributes" where
  "attrs_insert k v a = bt_insert k v a"

definition attrs_get :: "attributes \<Rightarrow> string \<Rightarrow> attr_value option" where
  "attrs_get a k = bt_get a k"

definition attrs_str :: "attributes \<Rightarrow> string \<Rightarrow> string option" where
  "attrs_str a k = (case attrs_get a k of Some (AStr s) \<Rightarrow> Some s | _ \<Rightarrow> None)"

definition attrs_set_of :: "attributes \<Rightarrow> string \<Rightarrow> string set option" where
  "attrs_set_of a k = (case attrs_get a k of Some (ASet s) \<Rightarrow> Some s | _ \<Rightarrow> None)"

lemma attrs_get_insert [simp]:
  "attrs_get (attrs_insert k v a) k' = (if k' = k then Some v else attrs_get a k')"
  by (simp add: attrs_get_def attrs_insert_def bt_get_insert)

lemma attrs_get_new [simp]: "attrs_get attrs_new k = None"
  by (simp add: attrs_get_def attrs_new_def)

lemma attrs_str_Some_iff: "attrs_str a k = Some s \<longleftrightarrow> attrs_get a k = Some (AStr s)"
  by (auto simp: attrs_str_def split: option.splits attr_value.splits)

record request =
  subject :: attributes
  resource :: attributes
  action :: string
  ctx :: attributes

definition CONTEXT_DAC_LANE :: string where "CONTEXT_DAC_LANE = ''dac_lane''"
definition SUBJECT_HOME :: string where "SUBJECT_HOME = ''home''"
definition SUBJECT_INITIATOR :: string where "SUBJECT_INITIATOR = ''initiator''"
definition INITIATOR_KERNEL :: string where "INITIATOR_KERNEL = ''kernel''"
definition RESOURCE_OS_ACCESSIBLE :: string where "RESOURCE_OS_ACCESSIBLE = ''os_accessible''"
definition CONTEXT_FS_OPERATION :: string where "CONTEXT_FS_OPERATION = ''fs_operation''"
definition RESOURCE_CLASSIFICATION :: string where "RESOURCE_CLASSIFICATION = ''classification''"

lemmas attr_key_defs =
  CONTEXT_DAC_LANE_def SUBJECT_HOME_def SUBJECT_INITIATOR_def INITIATOR_KERNEL_def
  RESOURCE_OS_ACCESSIBLE_def CONTEXT_FS_OPERATION_def RESOURCE_CLASSIFICATION_def

datatype fs_operation = WriteExisting | WriteCreate | DeleteEntry | DeleteTree | Mkdir | ReadOp

fun fs_operation_as_str :: "fs_operation \<Rightarrow> string" where
  "fs_operation_as_str WriteExisting = ''write-existing''"
| "fs_operation_as_str WriteCreate = ''write-create''"
| "fs_operation_as_str DeleteEntry = ''delete-entry''"
| "fs_operation_as_str DeleteTree = ''delete-tree''"
| "fs_operation_as_str Mkdir = ''mkdir''"
| "fs_operation_as_str ReadOp = ''read''"

definition fs_operation_parse :: "string \<Rightarrow> fs_operation option" where
  "fs_operation_parse v =
     (if v = ''write-existing'' then Some WriteExisting
      else if v = ''write-create'' then Some WriteCreate
      else if v = ''delete-entry'' then Some DeleteEntry
      else if v = ''delete-tree'' then Some DeleteTree
      else if v = ''mkdir'' then Some Mkdir
      else if v = ''read'' then Some ReadOp
      else None)"

lemma fs_operation_parse_as_str [simp]: "fs_operation_parse (fs_operation_as_str x) = Some x"
  by (cases x) (simp_all add: fs_operation_parse_def)

datatype lane = Local | Remote

fun lane_as_str :: "lane \<Rightarrow> string" where
  "lane_as_str Local = ''local''"
| "lane_as_str Remote = ''remote''"

section \<open>Obligations\<close>

record obligation =
  ob_id :: string
  ob_params :: attributes

datatype obligation_conflict = ObligationConflict

fun merge_into :: "obligation list \<Rightarrow> obligation list \<Rightarrow> obligation_conflict + obligation list" where
  "merge_into out [] = Inr out"
| "merge_into out (o' # os) =
     (if \<exists>e\<in>set out. ob_id e = ob_id o' \<and> ob_params e = ob_params o' then merge_into out os
      else if \<exists>e\<in>set out. ob_id e = ob_id o' \<and> ob_params e \<noteq> ob_params o' then Inl ObligationConflict
      else merge_into (out @ [o']) os)"

definition merge_obligations ::
  "obligation list \<Rightarrow> obligation list \<Rightarrow> obligation_conflict + obligation list" where
  "merge_obligations a b = merge_into [] (a @ b)"

section \<open>Verdicts\<close>

datatype verdict =
    Permit "obligation list"
  | Deny string
  | NotApplicable "string option"
  | Indeterminate

definition verdict_default :: verdict where
  "verdict_default = NotApplicable None"

datatype decision = DecPermit "obligation list" | DecDeny string

definition decision_default :: decision where
  "decision_default = DecDeny ''default (fail-closed)''"

fun finalize :: "verdict \<Rightarrow> decision" where
  "finalize (Permit obligations) = DecPermit obligations"
| "finalize (Deny reason) = DecDeny reason"
| "finalize (NotApplicable note) =
     DecDeny (case note of Some n \<Rightarrow> n | None \<Rightarrow> ''no applicable authorizer (fail-closed)'')"
| "finalize Indeterminate = DecDeny ''indeterminate (fail-closed)''"

section \<open>The composition fold\<close>

fun note_of :: "verdict \<Rightarrow> string option" where
  "note_of (NotApplicable note) = note"
| "note_of _ = None"

fun deny_reason :: "verdict \<Rightarrow> string option" where
  "deny_reason (Deny reason) = Some reason"
| "deny_reason _ = None"

fun union_permits :: "bool \<Rightarrow> obligation list \<Rightarrow> verdict list
    \<Rightarrow> obligation_conflict + (bool \<times> obligation list)" where
  "union_permits any_permit acc [] = Inr (any_permit, acc)"
| "union_permits any_permit acc (Permit obligations # vs) =
     (case merge_obligations acc obligations of
        Inr m \<Rightarrow> union_permits True m vs
      | Inl e \<Rightarrow> Inl e)"
| "union_permits any_permit acc (v # vs) = union_permits any_permit acc vs"

definition combine :: "verdict list \<Rightarrow> verdict" where
  "combine verdicts =
     (let first_note = find_map note_of verdicts in
      case find_map deny_reason verdicts of
        Some reason \<Rightarrow> Deny reason
      | None \<Rightarrow>
          if Indeterminate \<in> set verdicts
          then Deny ''indeterminate operand blocks (fail-closed)''
          else case union_permits False [] verdicts of
                 Inl _ \<Rightarrow> Deny ''conflicting obligations (fail-closed)''
               | Inr (any_permit, acc) \<Rightarrow>
                   if any_permit then Permit acc else NotApplicable first_note)"

section \<open>Authorizers and their panic boundaries\<close>

record subject_binding =
  sb_role :: string
  sb_members :: "string list"

record rule_citation =
  rc_node :: u64
  rc_key :: string
  rc_section :: string

record decided =
  d_verdict :: verdict
  d_role :: "string option"
  d_rule :: "rule_citation option"

record authorizer =
  a_decide_cited :: "request \<Rightarrow> decided outcome"
  a_decide_cited_all :: "request list \<Rightarrow> decided list outcome"
  a_subjects :: "subject_binding list option outcome"
  a_backend_name :: "string outcome"

text \<open>The trait's default methods, over the ones an implementation must give.\<close>

definition default_decide_cited :: "(request \<Rightarrow> verdict) \<Rightarrow> request \<Rightarrow> decided" where
  "default_decide_cited decide req = \<lparr>d_verdict = decide req, d_role = None, d_rule = None\<rparr>"

definition decide_each_cited :: "(request \<Rightarrow> decided) \<Rightarrow> request list \<Rightarrow> decided list" where
  "decide_each_cited decide_cited reqs = map decide_cited reqs"

definition indeterminate_decided :: decided where
  "indeterminate_decided = \<lparr>d_verdict = Indeterminate, d_role = None, d_rule = None\<rparr>"

definition guarded_decide_cited :: "authorizer \<Rightarrow> request \<Rightarrow> decided" where
  "guarded_decide_cited a req =
     (case a_decide_cited a req of Returns d \<Rightarrow> d | Panics \<Rightarrow> indeterminate_decided)"

definition guarded_decide_reporting_role :: "authorizer \<Rightarrow> request \<Rightarrow> verdict \<times> string option" where
  "guarded_decide_reporting_role a req =
     (d_verdict (guarded_decide_cited a req), d_role (guarded_decide_cited a req))"

definition guarded_decide :: "authorizer \<Rightarrow> request \<Rightarrow> verdict" where
  "guarded_decide a req = fst (guarded_decide_reporting_role a req)"

definition guarded_decide_cited_all :: "authorizer \<Rightarrow> request list \<Rightarrow> decided list" where
  "guarded_decide_cited_all a reqs =
     (case a_decide_cited_all a reqs of
        Returns all \<Rightarrow>
          if length all = length reqs then all else map (\<lambda>_. indeterminate_decided) reqs
      | Panics \<Rightarrow> map (\<lambda>_. indeterminate_decided) reqs)"

definition fold_cited :: "decided list \<Rightarrow> decided" where
  "fold_cited ds =
     (let role = find_map d_role ds;
          verdict = combine (map d_verdict ds);
          rule = (case find (\<lambda>d. d_rule d \<noteq> None \<and> d_verdict d = verdict) ds of
                    Some d \<Rightarrow> d_rule d | None \<Rightarrow> None)
      in \<lparr>d_verdict = verdict, d_role = role, d_rule = rule\<rparr>)"

definition compose_decide_cited :: "authorizer list \<Rightarrow> request \<Rightarrow> decided" where
  "compose_decide_cited operands req = fold_cited (map (\<lambda>a. guarded_decide_cited a req) operands)"

definition compose_decide_reporting_role ::
  "authorizer list \<Rightarrow> request \<Rightarrow> verdict \<times> string option" where
  "compose_decide_reporting_role operands req =
     (d_verdict (compose_decide_cited operands req), d_role (compose_decide_cited operands req))"

definition compose_decide :: "authorizer list \<Rightarrow> request \<Rightarrow> verdict" where
  "compose_decide operands req = fst (compose_decide_reporting_role operands req)"

definition compose_decide_cited_all :: "authorizer list \<Rightarrow> request list \<Rightarrow> decided list" where
  "compose_decide_cited_all operands reqs =
     (let answers = map (\<lambda>a. guarded_decide_cited_all a reqs) operands
      in map (\<lambda>i. fold_cited (map (\<lambda>a. a ! i) answers)) [0..<length reqs])"

section \<open>Disclosure: names and subjects\<close>

definition BACKEND_NAME_MAX :: nat where
  "BACKEND_NAME_MAX = 128"

definition name_char :: "char \<Rightarrow> bool" where
  "name_char c \<longleftrightarrow> is_ascii_alphanumeric c \<or> c \<in> set ''-_.+''"

definition sanitize_backend_name :: "string \<Rightarrow> string" where
  "sanitize_backend_name raw =
     (let kept = filter name_char raw;
          cleaned = (if length kept > BACKEND_NAME_MAX
                     then take BACKEND_NAME_MAX kept @ ''~'' else kept)
      in if cleaned = [] then ''unknown'' else cleaned)"

definition caught_backend_name :: "authorizer \<Rightarrow> string" where
  "caught_backend_name a = (case a_backend_name a of Returns n \<Rightarrow> n | Panics \<Rightarrow> ''unknown'')"

definition guarded_backend_name :: "authorizer \<Rightarrow> string" where
  "guarded_backend_name a = sanitize_backend_name (caught_backend_name a)"

definition compose_backend_name :: "authorizer list \<Rightarrow> string" where
  "compose_backend_name operands =
     join_with ''+'' (map (\<lambda>a. let raw = caught_backend_name a
                               in if sanitize_backend_name raw = ''unknown''
                                  then ''unknown'' else raw) operands)"

text \<open>
  \<open>char::is_control\<close> over UTF-8: the C0 bytes and DEL, and the two-byte encodings
  \<open>C2 80\<close> to \<open>C2 9F\<close> of the C1 range.
\<close>

fun strip_control :: "string \<Rightarrow> string" where
  "strip_control [] = []"
| "strip_control [c] = (if is_c0 c then [] else [c])"
| "strip_control (c # d # s) =
     (if is_c0 c then strip_control (d # s)
      else if is_c1 c d then strip_control s
      else c # strip_control (d # s))"

definition guarded_subjects :: "authorizer \<Rightarrow> subject_binding list option" where
  "guarded_subjects a =
     map_option (map (\<lambda>b. \<lparr>sb_role = strip_control (sb_role b),
                          sb_members = map strip_control (sb_members b)\<rparr>))
       (case a_subjects a of Returns s \<Rightarrow> s | Panics \<Rightarrow> None)"

fun subject_answers :: "authorizer list \<Rightarrow> subject_binding list list option" where
  "subject_answers [] = Some []"
| "subject_answers (a # as) =
     (case a_subjects a of
        Panics \<Rightarrow> None
      | Returns (Some l) \<Rightarrow> map_option ((#) l) (subject_answers as)
      | Returns None \<Rightarrow> subject_answers as)"

definition compose_subjects :: "authorizer list \<Rightarrow> subject_binding list option" where
  "compose_subjects operands =
     (case subject_answers operands of
        None \<Rightarrow> None
      | Some answers \<Rightarrow> (case answers of [l] \<Rightarrow> Some l | _ \<Rightarrow> None))"

text \<open>The homogeneous combinator over boxed operands.\<close>

definition conjunction_authorizer :: "authorizer list \<Rightarrow> authorizer" where
  "conjunction_authorizer operands =
     \<lparr>a_decide_cited = (\<lambda>req. Returns (compose_decide_cited operands req)),
      a_decide_cited_all = (\<lambda>reqs. Returns (compose_decide_cited_all operands reqs)),
      a_subjects = Returns (compose_subjects operands),
      a_backend_name = Returns (compose_backend_name operands)\<rparr>"


section \<open>Obligation merge\<close>

definition ob_consistent :: "obligation list \<Rightarrow> bool" where
  "ob_consistent os \<longleftrightarrow>
     (\<forall>a\<in>set os. \<forall>b\<in>set os. ob_id a = ob_id b \<longrightarrow> ob_params a = ob_params b)"

text \<open>First occurrences, in order.\<close>

definition nub :: "'a list \<Rightarrow> 'a list" where
  "nub xs = rev (remdups (rev xs))"

lemma set_nub [simp]: "set (nub xs) = set xs"
  by (simp add: nub_def)

lemma distinct_nub [simp]: "distinct (nub xs)"
  by (simp add: nub_def)

lemma nub_snoc: "nub (xs @ [x]) = (if x \<in> set xs then nub xs else nub xs @ [x])"
  by (simp add: nub_def)

lemma nub_Nil [simp]: "nub [] = []"
  by (simp add: nub_def)

lemma nub_append_nub: "nub (nub xs @ ys) = nub (xs @ ys)"
proof (induction ys rule: rev_induct)
  case Nil
  then show ?case by (simp add: nub_def)
next
  case (snoc y ys)
  then show ?case by (simp add: nub_snoc append.assoc [symmetric] del: append_assoc)
qed

lemma ob_consistent_Nil [simp]: "ob_consistent []"
  by (simp add: ob_consistent_def)

lemma ob_consistent_appendD: "ob_consistent (a @ b) \<Longrightarrow> ob_consistent a"
  unfolding ob_consistent_def by (simp only: set_append) blast

lemma ob_consistent_set_eq: "set a = set b \<Longrightarrow> ob_consistent a = ob_consistent b"
  by (simp add: ob_consistent_def)

lemma obligation_eqI: "ob_id a = ob_id b \<Longrightarrow> ob_params a = ob_params b \<Longrightarrow> a = (b :: obligation)"
  by simp

lemma merge_into_spec:
  "ob_consistent out \<Longrightarrow>
     merge_into (nub out) os
       = (if ob_consistent (out @ os) then Inr (nub (out @ os)) else Inl ObligationConflict)"
proof (induction os arbitrary: out)
  case Nil
  then show ?case by simp
next
  case (Cons x os)
  have seen: "(\<exists>e\<in>set out. ob_id e = ob_id x \<and> ob_params e = ob_params x) \<longleftrightarrow> x \<in> set out"
    by (metis obligation_eqI)
  show ?case
  proof (cases "x \<in> set out")
    case True
    then have "ob_consistent (out @ x # os) = ob_consistent (out @ os)"
      by (intro ob_consistent_set_eq) auto
    moreover from True have "nub (out @ x # os) = nub (out @ os)"
      using nub_append_nub [of "out @ [x]" os] nub_append_nub [of out os] by (simp add: nub_snoc)
    ultimately show ?thesis using Cons.IH [OF Cons.prems] seen True by simp
  next
    case False
    show ?thesis
    proof (cases "\<exists>e\<in>set out. ob_id e = ob_id x \<and> ob_params e \<noteq> ob_params x")
      case True
      then have "\<not> ob_consistent (out @ x # os)" by (auto simp: ob_consistent_def)
      moreover have "\<not> (\<exists>e\<in>set out. ob_id e = ob_id x \<and> ob_params e = ob_params x)"
        using False seen by simp
      ultimately show ?thesis using True by auto
    next
      case clash: False
      have "set (out @ [x]) = insert x (set out)" by simp
      with clash Cons.prems have "ob_consistent (out @ [x])"
        unfolding ob_consistent_def by (metis insert_iff)
      from Cons.IH [OF this] have
        "merge_into (nub out @ [x]) os = (if ob_consistent (out @ x # os)
           then Inr (nub (out @ x # os)) else Inl ObligationConflict)"
        using False by (simp add: nub_snoc)
      moreover have "\<not> (\<exists>e\<in>set out. ob_id e = ob_id x)"
        using clash False seen by blast
      ultimately show ?thesis by auto
    qed
  qed
qed

lemma merge_obligations_spec:
  "merge_obligations a b =
     (if ob_consistent (a @ b) then Inr (nub (a @ b)) else Inl ObligationConflict)"
  using merge_into_spec [of "[]" "a @ b"] by (simp add: merge_obligations_def)

section \<open>What the fold computes\<close>

fun permit_obligations :: "verdict \<Rightarrow> obligation list" where
  "permit_obligations (Permit os) = os"
| "permit_obligations _ = []"

definition all_obligations :: "verdict list \<Rightarrow> obligation list" where
  "all_obligations vs = concat (map permit_obligations vs)"

definition is_permit :: "verdict \<Rightarrow> bool" where
  "is_permit v \<longleftrightarrow> (\<exists>os. v = Permit os)"

definition is_deny :: "verdict \<Rightarrow> bool" where
  "is_deny v \<longleftrightarrow> (\<exists>r. v = Deny r)"

definition is_absence :: "verdict \<Rightarrow> bool" where
  "is_absence v \<longleftrightarrow> (\<exists>n. v = NotApplicable n)"

lemma verdict_kind_simps [simp]:
  "is_permit (Permit os)" "\<not> is_permit (Deny r)" "\<not> is_permit (NotApplicable n)"
  "\<not> is_permit Indeterminate"
  "is_deny (Deny r)" "\<not> is_deny (Permit os)" "\<not> is_deny (NotApplicable n)"
  "\<not> is_deny Indeterminate"
  "is_absence (NotApplicable n)" "\<not> is_absence (Permit os)" "\<not> is_absence (Deny r)"
  "\<not> is_absence Indeterminate"
  by (simp_all add: is_permit_def is_deny_def is_absence_def)

lemma union_permits_spec:
  "ob_consistent acc \<Longrightarrow>
     union_permits b (nub acc) vs =
       (if ob_consistent (acc @ all_obligations vs)
        then Inr (b \<or> (\<exists>v\<in>set vs. is_permit v), nub (acc @ all_obligations vs))
        else Inl ObligationConflict)"
proof (induction vs arbitrary: b acc)
  case Nil
  then show ?case by (simp add: all_obligations_def)
next
  case (Cons v vs)
  show ?case
  proof (cases v)
    case (Permit os)
    have *: "ob_consistent (nub acc @ os) = ob_consistent (acc @ os)"
      by (intro ob_consistent_set_eq) simp
    show ?thesis
    proof (cases "ob_consistent (acc @ os)")
      case True
      with Cons.IH [OF True, of True] show ?thesis
        by (simp add: Permit merge_obligations_spec * nub_append_nub all_obligations_def)
    next
      case False
      then have "\<not> ob_consistent (acc @ os @ all_obligations vs)"
        using ob_consistent_appendD [of "acc @ os"] by auto
      with False show ?thesis
        by (simp add: Permit merge_obligations_spec * all_obligations_def)
    qed
  qed (use Cons in \<open>simp_all add: all_obligations_def\<close>)
qed

lemma union_permits_start:
  "union_permits False [] vs =
     (if ob_consistent (all_obligations vs)
      then Inr (\<exists>v\<in>set vs. is_permit v, nub (all_obligations vs))
      else Inl ObligationConflict)"
  using union_permits_spec [of "[]" False vs] by simp

lemma find_deny_None_iff: "find_map deny_reason vs = None \<longleftrightarrow> (\<forall>v\<in>set vs. \<not> is_deny v)"
proof -
  have "deny_reason v = None \<longleftrightarrow> \<not> is_deny v" for v by (cases v) simp_all
  then show ?thesis by (simp add: find_map_None_iff)
qed

lemma combine_cases:
  "combine vs =
     (if \<exists>v\<in>set vs. is_deny v then Deny (the (find_map deny_reason vs))
      else if Indeterminate \<in> set vs then Deny ''indeterminate operand blocks (fail-closed)''
      else if \<not> ob_consistent (all_obligations vs)
        then Deny ''conflicting obligations (fail-closed)''
      else if \<exists>v\<in>set vs. is_permit v then Permit (nub (all_obligations vs))
      else NotApplicable (find_map note_of vs))"
proof (cases "find_map deny_reason vs")
  case None
  then have "\<not> (\<exists>v\<in>set vs. is_deny v)" by (simp add: find_deny_None_iff)
  with None show ?thesis by (simp add: combine_def union_permits_start)
next
  case (Some r)
  then have "\<exists>v\<in>set vs. is_deny v" using find_deny_None_iff [of vs] by auto
  with Some show ?thesis by (simp add: combine_def)
qed

lemma combine_not_indeterminate [simp]: "combine vs \<noteq> Indeterminate"
  by (simp add: combine_cases)

text \<open>
  C1. \<open>combine\<close> permits exactly when no operand denies, no operand is indeterminate, at
  least one permits, and the permitting operands' obligations do not clash; the result
  then carries each of their obligations once, in order of first occurrence.
\<close>

theorem combine_permit_iff:
  "combine vs = Permit obs \<longleftrightarrow>
     (\<forall>v\<in>set vs. \<not> is_deny v) \<and> Indeterminate \<notin> set vs \<and> (\<exists>v\<in>set vs. is_permit v)
     \<and> ob_consistent (all_obligations vs) \<and> obs = nub (all_obligations vs)"
  by (auto simp: combine_cases)

theorem combine_permit_iff_witness:
  "combine [NotApplicable None, Permit [\<lparr>ob_id = ''audit'', ob_params = []\<rparr>],
            Permit [\<lparr>ob_id = ''audit'', ob_params = []\<rparr>]]
     = Permit [\<lparr>ob_id = ''audit'', ob_params = []\<rparr>]"
  unfolding combine_permit_iff
  by (simp add: ob_consistent_def all_obligations_def nub_def)

text \<open>The verdicts that compose alike: the same kind, with the same set of obligations.\<close>

fun same_class :: "verdict \<Rightarrow> verdict \<Rightarrow> bool" where
  "same_class (Permit a) (Permit b) = (set a = set b)"
| "same_class (Deny _) (Deny _) = True"
| "same_class (NotApplicable _) (NotApplicable _) = True"
| "same_class Indeterminate Indeterminate = True"
| "same_class _ _ = False"

lemma set_all_obligations: "set (all_obligations vs) = (\<Union>v\<in>set vs. set (permit_obligations v))"
  by (auto simp: all_obligations_def)

text \<open>
  C2. The classification of a composed verdict does not depend on the order, nor on the
  multiplicity, of the operands: only which explanation survives does.
\<close>

theorem combine_order_independent:
  assumes "set vs = set vs'"
  shows "same_class (combine vs) (combine vs')"
proof -
  have "set (all_obligations vs) = set (all_obligations vs')"
    using assms by (simp add: set_all_obligations)
  moreover from this have "ob_consistent (all_obligations vs) = ob_consistent (all_obligations vs')"
    by (rule ob_consistent_set_eq)
  ultimately show ?thesis
    using assms by (simp add: combine_cases)
qed

theorem combine_order_independent_witness:
  "same_class (combine [NotApplicable (Some ''a''), Permit []])
     (combine [Permit [], NotApplicable (Some ''a'')])"
  by (rule combine_order_independent) auto

text \<open>Forgetting every absence note.\<close>

fun erase_note :: "verdict \<Rightarrow> verdict" where
  "erase_note (NotApplicable _) = NotApplicable None"
| "erase_note v = v"

lemma erase_note_simps [simp]:
  "is_deny (erase_note v) = is_deny v" "is_permit (erase_note v) = is_permit v"
  "deny_reason (erase_note v) = deny_reason v" "permit_obligations (erase_note v) = permit_obligations v"
  "note_of (erase_note v) = None"
  "Indeterminate = erase_note v \<longleftrightarrow> v = Indeterminate"
  by (cases v; simp)+

lemma find_map_map: "find_map f (map g xs) = find_map (f \<circ> g) xs"
  by (induction xs) (auto split: option.splits)

text \<open>
  C3. Absence notes are testimony: erasing them from the operands erases the note of the
  composed verdict and changes nothing else, reason strings and obligations included.
\<close>

theorem combine_notes_are_testimony:
  "combine (map erase_note vs) = erase_note (combine vs)"
proof -
  have "find_map deny_reason (map erase_note vs) = find_map deny_reason vs"
    by (simp add: find_map_map comp_def)
  moreover have "all_obligations (map erase_note vs) = all_obligations vs"
    by (simp add: all_obligations_def comp_def)
  moreover have "find_map note_of (map erase_note vs) = None"
    by (simp add: find_map_None_iff)
  moreover have "Indeterminate \<in> set (map erase_note vs) \<longleftrightarrow> Indeterminate \<in> set vs"
    by (auto simp: image_iff)
  ultimately show ?thesis
    by (simp add: combine_cases image_iff)
qed

section \<open>Composition behind the panic boundary\<close>

lemma fold_cited_sel [simp]:
  "d_verdict (fold_cited ds) = combine (map d_verdict ds)"
  "d_role (fold_cited ds) = find_map d_role ds"
  by (simp_all add: fold_cited_def Let_def)

lemma compose_decide_eq:
  "compose_decide operands req = combine (map (\<lambda>a. guarded_decide a req) operands)"
  by (simp add: compose_decide_def compose_decide_reporting_role_def compose_decide_cited_def
      guarded_decide_def guarded_decide_reporting_role_def comp_def)

lemma guarded_decide_panics: "a_decide_cited a req = Panics \<Longrightarrow> guarded_decide a req = Indeterminate"
  by (simp add: guarded_decide_def guarded_decide_reporting_role_def guarded_decide_cited_def
      indeterminate_decided_def)

lemma guarded_decide_returns:
  "a_decide_cited a req = Returns d \<Longrightarrow> guarded_decide a req = d_verdict d"
  by (simp add: guarded_decide_def guarded_decide_reporting_role_def guarded_decide_cited_def)

lemma finalize_permit_iff: "finalize v = DecPermit obs \<longleftrightarrow> v = Permit obs"
  by (cases v) simp_all

lemma verdict_trichotomy: "\<not> is_deny v \<Longrightarrow> v \<noteq> Indeterminate \<Longrightarrow> is_permit v \<or> is_absence v"
  by (cases v) simp_all

text \<open>
  C4. Fail-closed end to end: when the finalised decision over any operands is a permit,
  every operand returned without panicking, each of them permitted or abstained, and
  one of them permitted.
\<close>

theorem compose_permit_fail_closed:
  assumes "finalize (compose_decide operands req) = DecPermit obs"
  shows "(\<forall>a\<in>set operands. \<exists>d. a_decide_cited a req = Returns d
            \<and> (is_permit (d_verdict d) \<or> is_absence (d_verdict d)))
         \<and> (\<exists>a\<in>set operands. \<exists>d. a_decide_cited a req = Returns d \<and> is_permit (d_verdict d))"
proof -
  let ?vs = "map (\<lambda>a. guarded_decide a req) operands"
  from assms have c: "combine ?vs = Permit obs"
    by (simp add: finalize_permit_iff compose_decide_eq)
  then have nd: "\<forall>v\<in>set ?vs. \<not> is_deny v" and ni: "Indeterminate \<notin> set ?vs"
    and ex: "\<exists>v\<in>set ?vs. is_permit v"
    by (auto simp: combine_cases split: if_splits)
  have ret: "\<exists>d. a_decide_cited a req = Returns d \<and> guarded_decide a req = d_verdict d"
    if "a \<in> set operands" for a
  proof (cases "a_decide_cited a req")
    case (Returns d)
    then show ?thesis by (simp add: guarded_decide_returns)
  next
    case Panics
    with that ni show ?thesis by (force simp: guarded_decide_panics image_iff)
  qed
  have "\<exists>d. a_decide_cited a req = Returns d \<and> (is_permit (d_verdict d) \<or> is_absence (d_verdict d))"
    if a: "a \<in> set operands" for a
  proof -
    from ret [OF a] obtain d where d: "a_decide_cited a req = Returns d"
      "guarded_decide a req = d_verdict d" by blast
    have "guarded_decide a req \<in> set ?vs" using a by simp
    with nd ni d(2) have "\<not> is_deny (d_verdict d)" "d_verdict d \<noteq> Indeterminate" by auto
    with d(1) verdict_trichotomy show ?thesis by blast
  qed
  moreover from ex ret have
    "\<exists>a\<in>set operands. \<exists>d. a_decide_cited a req = Returns d \<and> is_permit (d_verdict d)"
    by fastforce
  ultimately show ?thesis by blast
qed

definition always :: "verdict \<Rightarrow> authorizer" where
  "always v =
     \<lparr>a_decide_cited = (\<lambda>req. Returns (default_decide_cited (\<lambda>_. v) req)),
      a_decide_cited_all = (\<lambda>reqs. Returns (decide_each_cited (default_decide_cited (\<lambda>_. v)) reqs)),
      a_subjects = Returns None, a_backend_name = Returns ''unknown''\<rparr>"

definition empty_request :: request where
  "empty_request = \<lparr>subject = [], resource = [], action = [], ctx = []\<rparr>"

lemma compose_always: "compose_decide (map always vs) req = combine vs"
  by (simp add: compose_decide_eq guarded_decide_def guarded_decide_reporting_role_def
      guarded_decide_cited_def always_def default_decide_cited_def comp_def)

theorem compose_permit_fail_closed_witness:
  "\<exists>a\<in>set (map always [Permit [], NotApplicable None]).
     \<exists>d. a_decide_cited a empty_request = Returns d \<and> is_permit (d_verdict d)"
proof -
  have "finalize (compose_decide (map always [Permit [], NotApplicable None]) empty_request)
      = DecPermit []"
    unfolding compose_always by code_simp
  from compose_permit_fail_closed [OF this] show ?thesis by blast
qed

lemma find_map_Some_nth:
  "find_map f xs = Some y \<longleftrightarrow> (\<exists>i<length xs. f (xs ! i) = Some y \<and> (\<forall>j<i. f (xs ! j) = None))"
proof (induction xs)
  case (Cons x xs)
  then show ?case by (cases "f x") (simp_all add: Ex_less_Suc2 All_less_Suc2)
qed simp

lemma fold_cited_rule:
  "d_rule (fold_cited ds) = Some r \<longleftrightarrow>
     (\<exists>i<length ds. d_rule (ds ! i) = Some r \<and> d_verdict (ds ! i) = combine (map d_verdict ds)
        \<and> (\<forall>j<i. d_verdict (ds ! j) = combine (map d_verdict ds) \<longrightarrow> d_rule (ds ! j) = None))"
proof -
  have find: "(case find (\<lambda>d. d_rule d \<noteq> None \<and> d_verdict d = v) xs of Some d \<Rightarrow> d_rule d | None \<Rightarrow> None)
      = find_map (\<lambda>d. if d_verdict d = v then d_rule d else None) xs" for xs v
    by (induction xs) (auto split: option.splits)
  show ?thesis unfolding fold_cited_def Let_def decided.select_convs find find_map_Some_nth by auto
qed

lemma guarded_cites:
  "d_rule (guarded_decide_cited a req) = Some r \<longleftrightarrow> (\<exists>d. a_decide_cited a req = Returns d \<and> d_rule d = Some r)"
  "d_role (guarded_decide_cited a req) = Some w \<longleftrightarrow> (\<exists>d. a_decide_cited a req = Returns d \<and> d_role d = Some w)"
  by (cases "a_decide_cited a req"; simp add: guarded_decide_cited_def indeterminate_decided_def)+

text \<open>
  C5. A composed decision cites the rule of the first operand that both returned the composed
  verdict and cites a rule, and no other: a composed deny never cites the rule of an operand that
  permitted. The role it reports is the one of the first operand that reports a role, whatever
  that operand's verdict. An operand that panicked contributes neither.
\<close>

theorem compose_cites_agreeing_operand:
  "(d_rule (compose_decide_cited operands req) = Some r \<longleftrightarrow>
      (\<exists>i<length operands.
         (\<exists>d. a_decide_cited (operands ! i) req = Returns d \<and> d_rule d = Some r
            \<and> d_verdict d = compose_decide operands req)
         \<and> (\<forall>j<i. \<nexists>d. a_decide_cited (operands ! j) req = Returns d \<and> d_rule d \<noteq> None
            \<and> d_verdict d = compose_decide operands req)))
   \<and> (d_role (compose_decide_cited operands req) = Some role \<longleftrightarrow>
      (\<exists>i<length operands.
         (\<exists>d. a_decide_cited (operands ! i) req = Returns d \<and> d_role d = Some role)
         \<and> (\<forall>j<i. \<nexists>d. a_decide_cited (operands ! j) req = Returns d \<and> d_role d \<noteq> None)))"
proof -
  let ?g = "\<lambda>a. guarded_decide_cited a req" and ?v = "compose_decide operands req"
  have v: "?v = combine (map d_verdict (map ?g operands))"
    by (simp add: compose_decide_def compose_decide_reporting_role_def compose_decide_cited_def)
  have agrees: "(d_verdict (?g a) = ?v \<longrightarrow> d_rule (?g a) = None)
      \<longleftrightarrow> (\<nexists>d. a_decide_cited a req = Returns d \<and> d_rule d \<noteq> None \<and> d_verdict d = ?v)" for a
    by (cases "a_decide_cited a req") (auto simp: guarded_decide_cited_def indeterminate_decided_def)
  have cites: "d_rule (?g a) = Some r \<and> d_verdict (?g a) = ?v
      \<longleftrightarrow> (\<exists>d. a_decide_cited a req = Returns d \<and> d_rule d = Some r \<and> d_verdict d = ?v)" for a
    by (cases "a_decide_cited a req") (auto simp: guarded_decide_cited_def indeterminate_decided_def)
  have silent: "d_role (?g a) = None \<longleftrightarrow> (\<nexists>d. a_decide_cited a req = Returns d \<and> d_role d \<noteq> None)" for a
    by (cases "a_decide_cited a req") (auto simp: guarded_decide_cited_def indeterminate_decided_def)
  have "d_rule (compose_decide_cited operands req) = Some r \<longleftrightarrow>
      (\<exists>i<length operands. (d_rule (?g (operands ! i)) = Some r \<and> d_verdict (?g (operands ! i)) = ?v)
         \<and> (\<forall>j<i. d_verdict (?g (operands ! j)) = ?v \<longrightarrow> d_rule (?g (operands ! j)) = None))"
    unfolding compose_decide_cited_def fold_cited_rule v [symmetric] by auto
  moreover have "d_role (compose_decide_cited operands req) = Some role \<longleftrightarrow>
      (\<exists>i<length operands. d_role (?g (operands ! i)) = Some role \<and> (\<forall>j<i. d_role (?g (operands ! j)) = None))"
    unfolding compose_decide_cited_def fold_cited_sel find_map_Some_nth by auto
  ultimately show ?thesis unfolding agrees cites silent guarded_cites(2) by (rule conjI)
qed

definition citing :: "verdict \<Rightarrow> rule_citation \<Rightarrow> authorizer" where
  "citing v r = (always v)\<lparr>a_decide_cited :=
     (\<lambda>req. Returns \<lparr>d_verdict = v, d_role = Some ''user'', d_rule = Some r\<rparr>)\<rparr>"

theorem compose_cites_agreeing_operand_witness:
  "d_rule (compose_decide_cited
      [citing (Permit []) \<lparr>rc_node = 1, rc_key = ''k1'', rc_section = ''s''\<rparr>,
       citing (Deny ''no'') \<lparr>rc_node = 2, rc_key = ''k2'', rc_section = ''s''\<rparr>] empty_request)
     = Some \<lparr>rc_node = 2, rc_key = ''k2'', rc_section = ''s''\<rparr>"
  unfolding conjunct1 [OF compose_cites_agreeing_operand]
  by (rule exI [of _ 1])
    (simp add: compose_decide_eq guarded_decide_def guarded_decide_reporting_role_def guarded_decide_cited_def
      citing_def combine_def)

section \<open>Batches\<close>

lemma guarded_decide_cited_all_length [simp]:
  "length (guarded_decide_cited_all a reqs) = length reqs"
  by (simp add: guarded_decide_cited_all_def split: outcome.splits)

text \<open>
  C6. A batch is answered one decision per request, in order; and where every operand's
  batch answer is its single answers (one view of the policy), the composed batch is the
  composed single decisions.
\<close>

theorem compose_batch_agrees:
  assumes "\<And>a. a \<in> set operands \<Longrightarrow>
             guarded_decide_cited_all a reqs = map (guarded_decide_cited a) reqs"
  shows "compose_decide_cited_all operands reqs = map (compose_decide_cited operands) reqs"
proof (rule nth_equalityI)
  show "length (compose_decide_cited_all operands reqs) = length (map (compose_decide_cited operands) reqs)"
    by (simp add: compose_decide_cited_all_def)
next
  fix i
  assume "i < length (compose_decide_cited_all operands reqs)"
  then have i: "i < length reqs" by (simp add: compose_decide_cited_all_def)
  have eq: "map (\<lambda>a. guarded_decide_cited_all a reqs ! i) operands
      = map (\<lambda>a. guarded_decide_cited a (reqs ! i)) operands"
    using assms i by (auto intro!: map_cong)
  have "compose_decide_cited_all operands reqs ! i
      = fold_cited (map (\<lambda>a. guarded_decide_cited_all a reqs ! i) operands)"
    using i by (simp add: compose_decide_cited_all_def comp_def)
  also have "\<dots> = fold_cited (map (\<lambda>a. guarded_decide_cited a (reqs ! i)) operands)"
    by (rule arg_cong [OF eq])
  also have "\<dots> = map (compose_decide_cited operands) reqs ! i"
    using i by (simp add: compose_decide_cited_def)
  finally show "compose_decide_cited_all operands reqs ! i = map (compose_decide_cited operands) reqs ! i" .
qed

theorem compose_batch_agrees_witness:
  "compose_decide_cited_all [always (Permit [])] [empty_request, empty_request]
     = map (compose_decide_cited [always (Permit [])]) [empty_request, empty_request]"
  by (rule compose_batch_agrees)
    (simp add: guarded_decide_cited_all_def guarded_decide_cited_def always_def decide_each_cited_def)

section \<open>Disclosed names\<close>

lemma tilde_not_name_char: "\<not> name_char (CHR ''~'')"
  by code_simp

lemma unknown_name_chars: "\<forall>c\<in>set ''unknown''. name_char c"
  by code_simp

text \<open>
  C7. A disclosed backend name is non-empty, at most 129 bytes of the identifier character set
  plus the truncation mark, and the mark appears exactly when something was cut: no operand
  can name itself into looking truncated, and none can look complete after a cut.
\<close>

theorem sanitize_backend_name_shape:
  "sanitize_backend_name raw \<noteq> []
   \<and> length (sanitize_backend_name raw) \<le> BACKEND_NAME_MAX + 1
   \<and> set (sanitize_backend_name raw) \<subseteq> Collect name_char \<union> {CHR ''~''}
   \<and> (CHR ''~'' \<in> set (sanitize_backend_name raw)
        \<longleftrightarrow> BACKEND_NAME_MAX < length (filter name_char raw))"
proof (cases "BACKEND_NAME_MAX < length (filter name_char raw)")
  case True
  then have "sanitize_backend_name raw = take BACKEND_NAME_MAX (filter name_char raw) @ ''~''"
    by (simp add: sanitize_backend_name_def)
  with True show ?thesis by (auto dest: in_set_takeD)
next
  case False
  then have *: "sanitize_backend_name raw =
      (if filter name_char raw = [] then ''unknown'' else filter name_char raw)"
    by (simp add: sanitize_backend_name_def)
  have "CHR ''~'' \<notin> set (filter name_char raw)"
    using tilde_not_name_char by auto
  with False unknown_name_chars show ?thesis
    unfolding * by (auto simp: BACKEND_NAME_MAX_def)
qed

theorem sanitize_backend_name_shape_witness:
  "CHR ''~'' \<in> set (sanitize_backend_name (replicate 200 CHR ''a''))"
proof -
  have "name_char CHR ''a''" by code_simp
  then have "BACKEND_NAME_MAX < length (filter name_char (replicate 200 CHR ''a''))"
    by (simp add: BACKEND_NAME_MAX_def)
  then show ?thesis using sanitize_backend_name_shape by blast
qed

lemma strip_control_no_c0: "x \<in> set (strip_control s) \<Longrightarrow> \<not> is_c0 x"
proof (induction s rule: strip_control.induct)
  case (3 c d s)
  then show ?case by (auto split: if_splits)
qed (simp_all split: if_splits)

lemma subject_answers_no_panic: "subject_answers ops = Some ls \<Longrightarrow> a \<in> set ops \<Longrightarrow> a_subjects a \<noteq> Panics"
  by (induction ops arbitrary: ls) (auto split: outcome.splits option.splits)

lemma subject_answers_Nil:
  "subject_answers ops = Some [] \<Longrightarrow> a \<in> set ops \<Longrightarrow> a_subjects a = Returns None"
  by (induction ops) (auto split: outcome.splits option.splits)

lemma subject_answers_single:
  "subject_answers ops = Some [l] \<Longrightarrow>
     \<exists>us a vs. ops = us @ a # vs \<and> a_subjects a = Returns (Some l)
       \<and> (\<forall>b\<in>set us \<union> set vs. a_subjects b = Returns None)"
proof (induction ops)
  case Nil
  then show ?case by simp
next
  case (Cons a ops)
  consider "a_subjects a = Returns None" "subject_answers ops = Some [l]"
    | "a_subjects a = Returns (Some l)" "subject_answers ops = Some []"
    using Cons.prems by (auto split: outcome.splits option.splits)
  then show ?case
  proof cases
    case 1
    with Cons.IH obtain us b vs where "ops = us @ b # vs" "a_subjects b = Returns (Some l)"
      "\<forall>b\<in>set us \<union> set vs. a_subjects b = Returns None" by blast
    with 1 have "a # ops = (a # us) @ b # vs \<and> a_subjects b = Returns (Some l)
      \<and> (\<forall>b\<in>set (a # us) \<union> set vs. a_subjects b = Returns None)" by auto
    then show ?thesis by blast
  next
    case 2
    then have "a # ops = [] @ a # ops \<and> a_subjects a = Returns (Some l)
      \<and> (\<forall>b\<in>set [] \<union> set ops. a_subjects b = Returns None)"
      by (simp add: subject_answers_Nil)
    then show ?thesis by blast
  qed
qed

text \<open>
  C8. Subjects are disclosed only when no operand panicked and exactly one operand
  enumerates; what is disclosed is that operand's list. A panicking operand cannot remove
  itself from the count.
\<close>

theorem compose_subjects_unique_source:
  assumes "compose_subjects operands = Some l"
  shows "(\<forall>a\<in>set operands. a_subjects a \<noteq> Panics)
         \<and> (\<exists>us a vs. operands = us @ a # vs \<and> a_subjects a = Returns (Some l)
              \<and> (\<forall>b\<in>set us \<union> set vs. a_subjects b = Returns None))"
proof -
  from assms have "subject_answers operands = Some [l]"
    by (auto simp: compose_subjects_def split: option.splits list.splits)
  then show ?thesis
    using subject_answers_no_panic subject_answers_single by blast
qed

theorem compose_subjects_unique_source_witness:
  "\<exists>us a vs. [always Indeterminate, (always Indeterminate)\<lparr>a_subjects := Returns (Some [])\<rparr>] = us @ a # vs
     \<and> a_subjects a = Returns (Some [])"
proof -
  have "compose_subjects
      [always Indeterminate, (always Indeterminate)\<lparr>a_subjects := Returns (Some [])\<rparr>] = Some []"
    by (simp add: compose_subjects_def always_def)
  from compose_subjects_unique_source [OF this] show ?thesis by blast
qed

end
