(* ===== verification/Config.thy ===== *)
theory Config
  imports BTree RustStr
begin

text \<open>
  The configuration value tree and its canonical JSON (\<^verbatim>\<open>crates/maknae-config/src/value.rs\<close>),
  the crate's error types (\<^verbatim>\<open>error.rs\<close>, \<^verbatim>\<open>authz.rs\<close>, \<^verbatim>\<open>bindings.rs\<close>), the closed-vocabulary
  check every section parser uses (\<^verbatim>\<open>lib.rs\<close>), and the \<open>principal\<close> section
  (\<^verbatim>\<open>principal.rs\<close>). YAML text enters as a parameter: the scanner is a third-party crate.
\<close>

section \<open>Values\<close>

text \<open>A float is its IEEE bit pattern; how Rust prints one is a parameter.\<close>

datatype config_value =
    VNull
  | VBool bool
  | VInt int
  | VFloat u64
  | VStr string
  | VSeq "config_value list"
  | VMap "(string \<times> config_value) list"

definition show_int :: "int \<Rightarrow> string" where
  "show_int n = (if n < 0 then ''-'' @ show_nat (nat (- n)) else show_nat (nat n))"

definition hex_digit :: "nat \<Rightarrow> char" where
  "hex_digit d = (if d < 10 then char_of (48 + d) else char_of (87 + d))"

definition escape_json_char :: "char \<Rightarrow> string" where
  "escape_json_char c =
     (let n = (of_char c :: nat) in
      if n = 34 then [char_of (92::nat), char_of (34::nat)]
      else if n = 92 then [char_of (92::nat), char_of (92::nat)]
      else if n = 10 then [char_of (92::nat), CHR ''n'']
      else if n = 13 then [char_of (92::nat), CHR ''r'']
      else if n = 9 then [char_of (92::nat), CHR ''t'']
      else if n < 32 then [char_of (92::nat), CHR ''u'', CHR ''0'', CHR ''0'', hex_digit (n div 16), hex_digit (n mod 16)]
      else [c])"

definition write_json_string :: "string \<Rightarrow> string" where
  "write_json_string s = char_of (34::nat) # concat (map escape_json_char s) @ [char_of (34::nat)]"

definition write_float :: "(u64 \<Rightarrow> string) \<Rightarrow> u64 \<Rightarrow> string" where
  "write_float f64_to_string f =
     (let text = f64_to_string f
      in if \<exists>c\<in>set text. c = CHR ''.'' \<or> c = CHR ''e'' \<or> c = CHR ''E'' then text else text @ ''.0'')"

primrec canonical_json :: "(u64 \<Rightarrow> string) \<Rightarrow> config_value \<Rightarrow> string" where
  "canonical_json ft VNull = ''null''"
| "canonical_json ft (VBool b) = (if b then ''true'' else ''false'')"
| "canonical_json ft (VInt n) = show_int n"
| "canonical_json ft (VFloat f) = write_float ft f"
| "canonical_json ft (VStr s) = write_json_string s"
| "canonical_json ft (VSeq items) = ''['' @ join_with '','' (map (canonical_json ft) items) @ '']''"
| "canonical_json ft (VMap entries) =
     ''{'' @ join_with '','' (map (\<lambda>(k, v). write_json_string k @ '':'' @ v)
       (sort_key fst (map (map_prod id (canonical_json ft)) entries))) @ ''}''"

section \<open>Errors\<close>

datatype config_error =
    CfgIo string
  | CfgNotFound string
  | CfgParse string nat nat
  | CfgDuplicateKey string nat nat
  | CfgInsecurePermissions string u32
  | CfgSymlink string
  | CfgPermissionsUnsupported
  | CfgNotAMap string
  | CfgUnknownKey string string
  | CfgUnknownSection string string
  | CfgDuplicateSection string
  | CfgMissingSection string
  | CfgCoreOverride
  | CfgReservedSection string
  | CfgDuplicateSpec string
  | CfgInvalidCeiling string
  | CfgUnknownClassificationPolicy string
  | CfgInvalidProvider string
  | CfgInvalidEgressBounds string
  | CfgInvalidEgress string
  | CfgProviderPlaintextKey string
  | CfgSourceNotRootOwned string
  | CfgInvalidTransport string
  | CfgInvalidAudit string
  | CfgInvalidPrincipal string
  | CfgInvalidDeployment string
  | CfgUserProviders string
  | CfgBaselineValue string

datatype authz_error =
    AzUnknownSchemaVersion int
  | AzConfig config_error
  | AzBadPattern string
  | AzInsecurePermissions
  | AzSymlink
  | AzNotRootOwned
  | AzInsecureDirectory string
  | AzIo string
  | AzYaml string
  | AzBindingsMoved

datatype bindings_error =
    BnUnknownSchemaVersion int
  | BnConfig config_error
  | BnInsecurePermissions
  | BnSymlink
  | BnNotRootOwned
  | BnInsecureDirectory string
  | BnIo string
  | BnYaml string

section \<open>Rendering\<close>

definition octal_digit :: "nat \<Rightarrow> char" where
  "octal_digit d = char_of (48 + d mod 8)"

fun show_octal :: "nat \<Rightarrow> string" where
  "show_octal n = (if n < 8 then [octal_digit n] else show_octal (n div 8) @ [octal_digit n])"

declare show_octal.simps [simp del]

definition quoted :: "string \<Rightarrow> string" where
  "quoted s = [char_of (39::nat)] @ s @ [char_of (39::nat)]"

fun config_error_display :: "config_error \<Rightarrow> string" where
  "config_error_display (CfgIo m) = ''config i/o error: '' @ m"
| "config_error_display (CfgNotFound path) = ''config file not found: '' @ path"
| "config_error_display (CfgParse message line col) =
     ''config parse error at '' @ show_nat line @ '':'' @ show_nat col @ '': '' @ message"
| "config_error_display (CfgDuplicateKey key line col) =
     ''duplicate config key '' @ quoted key @ '' at '' @ show_nat line @ '':'' @ show_nat col"
| "config_error_display (CfgInsecurePermissions path mode) =
     ''insecure permissions on '' @ quoted path @ '': mode '' @ show_octal (unat mode mod 4096)
       @ '' has world/other bits''"
| "config_error_display (CfgSymlink path) = ''config path is a symlink (refused): '' @ quoted path"
| "config_error_display CfgPermissionsUnsupported =
     ''config permission enforcement is unavailable on this platform; refusing to load''"
| "config_error_display (CfgNotAMap source_path) = ''config root is not a mapping: '' @ quoted source_path"
| "config_error_display (CfgUnknownKey sect key) = ''unknown key '' @ quoted key @ '' in '' @ quoted sect"
| "config_error_display (CfgUnknownSection sect source_path) =
     ''unknown config section '' @ quoted sect @ '' in '' @ quoted source_path @ '' (no registered spec)''"
| "config_error_display (CfgDuplicateSection sect) =
     ''section '' @ quoted sect @ '' defined in more than one config.d file''"
| "config_error_display (CfgMissingSection sect) =
     ''required config section '' @ quoted sect @ '' is missing''"
| "config_error_display CfgCoreOverride =
     ''the '' @ quoted ''core'' @ '' section may only be defined in maknae.yaml, not config.d''"
| "config_error_display (CfgReservedSection sect) =
     ''section name '' @ quoted sect @ '' is reserved and cannot be registered''"
| "config_error_display (CfgDuplicateSpec sect) =
     ''section '' @ quoted sect @ '' registered more than once''"
| "config_error_display (CfgInvalidCeiling reason) =
     ''invalid core classification ceiling: '' @ reason"
| "config_error_display (CfgUnknownClassificationPolicy name) =
     ''core.handling.policy names a classification system this build does not carry: '' @ quoted name"
| "config_error_display (CfgInvalidProvider reason) = ''invalid provider config: '' @ reason"
| "config_error_display (CfgInvalidEgressBounds reason) = ''egress-bounds.yaml: '' @ reason"
| "config_error_display (CfgInvalidEgress reason) = ''invalid egress config: '' @ reason"
| "config_error_display (CfgProviderPlaintextKey field) =
     ''provider config carries a plaintext credential under '' @ quoted field @ '': each user''
       @ [char_of (39::nat)]
       @ ''s key lives in Vault under their own login, never in the config''"
| "config_error_display (CfgSourceNotRootOwned path) =
     path @ '' must be owned by root and not group- or world-writable, as must every maknae.yaml and config.d source and the directories that hold them''"
| "config_error_display (CfgInvalidTransport reason) = ''invalid transport config: '' @ reason"
| "config_error_display (CfgInvalidAudit reason) = ''invalid audit config: '' @ reason"
| "config_error_display (CfgInvalidPrincipal reason) = ''invalid principal config: '' @ reason"
| "config_error_display (CfgInvalidDeployment reason) = ''invalid deployment config: '' @ reason"
| "config_error_display (CfgUserProviders reason) = ''providers.yaml: '' @ reason"
| "config_error_display (CfgBaselineValue reason) = ''baseline value refused: '' @ reason"

section \<open>Names of providers and models\<close>

definition MAX_PROVIDER_NAME_BYTES :: nat where
  "MAX_PROVIDER_NAME_BYTES = 32"

definition MAX_MODEL_BYTES :: nat where
  "MAX_MODEL_BYTES = 128"

definition safe_token_byte :: "char \<Rightarrow> bool" where
  "safe_token_byte b \<longleftrightarrow> is_ascii_alphanumeric b \<or> b \<in> {CHR ''.'', CHR ''_'', CHR ''-''}"

definition provider_name_is_acceptable :: "string \<Rightarrow> bool" where
  "provider_name_is_acceptable s \<longleftrightarrow>
     s \<noteq> [] \<and> length s \<le> MAX_PROVIDER_NAME_BYTES \<and> list_all safe_token_byte s"

definition model_is_acceptable :: "string \<Rightarrow> bool" where
  "model_is_acceptable s \<longleftrightarrow>
     s \<noteq> [] \<and> length s \<le> MAX_MODEL_BYTES \<and> list_all is_ascii_graphic s"

section \<open>Closed vocabularies\<close>

fun reject_unknown_keys ::
  "string \<Rightarrow> (string \<times> config_value) list \<Rightarrow> string list \<Rightarrow> config_error + unit" where
  "reject_unknown_keys sect [] allowed = Inr ()"
| "reject_unknown_keys sect ((key, _) # rest) allowed =
     (if key \<notin> set allowed then Inl (CfgUnknownKey sect key)
      else reject_unknown_keys sect rest allowed)"

lemma reject_unknown_keys_Inr_iff [simp]:
  "reject_unknown_keys sect m allowed = Inr u \<longleftrightarrow> fst ` set m \<subseteq> set allowed"
  by (induction sect m allowed rule: reject_unknown_keys.induct) auto

lemma reject_unknown_keys_InlD:
  "reject_unknown_keys sect m allowed = Inl e \<Longrightarrow>
     \<exists>k\<in>fst ` set m. k \<notin> set allowed \<and> e = CfgUnknownKey sect k"
  by (induction sect m allowed rule: reject_unknown_keys.induct) (auto split: if_splits)

text \<open>\<open>map.iter().find(|(k, _)| k == key)\<close>: the first entry with the key.\<close>

definition map_get :: "(string \<times> config_value) list \<Rightarrow> string \<Rightarrow> config_value option" where
  "map_get m key = map_of m key"

section \<open>The principal\<close>

record principal =
  p_name :: string
  p_uid :: u32

definition i64_to_u32 :: "int \<Rightarrow> u32 option" where
  "i64_to_u32 n = (if 0 \<le> n \<and> n < 2 ^ 32 then Some (word_of_int n) else None)"

definition value_get :: "config_value \<Rightarrow> string \<Rightarrow> config_value option" where
  "value_get v key = (case v of VMap entries \<Rightarrow> map_get entries key | _ \<Rightarrow> None)"

definition value_as_str :: "config_value \<Rightarrow> string option" where
  "value_as_str v = (case v of VStr s \<Rightarrow> Some s | _ \<Rightarrow> None)"

definition value_as_u32 :: "config_value \<Rightarrow> u32 option" where
  "value_as_u32 v = (case v of VInt n \<Rightarrow> i64_to_u32 n | _ \<Rightarrow> None)"

definition principal_err :: "string \<Rightarrow> string \<Rightarrow> config_error" where
  "principal_err field reason = CfgInvalidPrincipal (''principal.'' @ field @ '': '' @ reason)"

definition principal_keys_known :: "config_value \<Rightarrow> config_error + unit" where
  "principal_keys_known sect =
     (case sect of
        VMap entries \<Rightarrow> reject_unknown_keys ''principal'' entries [''name'', ''uid'']
      | _ \<Rightarrow> Inr ())"

definition principal_from_section :: "config_value option \<Rightarrow> config_error + principal option" where
  "principal_from_section v =
     (case v of
        None \<Rightarrow> Inr None
      | Some sect \<Rightarrow>
          res_bind (principal_keys_known sect) (\<lambda>_.
          if (case sect of VMap _ \<Rightarrow> False | _ \<Rightarrow> True)
          then Inl (CfgInvalidPrincipal ''principal section must be a map'')
          else
            res_bind (ok_or (principal_err ''name'' ''missing or not a string'')
              (Option.bind (value_get sect ''name'') value_as_str)) (\<lambda>name.
            if name = [] then Inl (principal_err ''name'' ''must not be empty'')
            else
              res_bind (ok_or (principal_err ''uid'' ''missing'') (value_get sect ''uid'')) (\<lambda>u.
              res_bind (ok_or (principal_err ''uid'' ''must be an integer in 0..=u32::MAX'')
                (value_as_u32 u)) (\<lambda>uid.
              Inr (Some \<lparr>p_name = name, p_uid = uid\<rparr>))))))"

lemma i64_to_u32_Some_iff: "i64_to_u32 n = Some u \<longleftrightarrow> n = uint u"
  using uint_lt2p [of u]
  by (auto simp: i64_to_u32_def word_of_int_inverse take_bit_int_eq_self)

text \<open>
  C9. A present \<open>principal\<close> section never reads as no principal: it either yields a principal
  with a non-empty name and the uid written in the file, or it is an error. Only an absent
  section is \<open>None\<close>.
\<close>

theorem principal_never_silently_absent:
  "(principal_from_section v = Inr None \<longleftrightarrow> v = None)
   \<and> (principal_from_section (Some sect) = Inr (Some p) \<longleftrightarrow>
        (\<exists>entries. sect = VMap entries \<and> fst ` set entries \<subseteq> {''name'', ''uid''}
           \<and> map_of entries ''name'' = Some (VStr (p_name p)) \<and> p_name p \<noteq> []
           \<and> map_of entries ''uid'' = Some (VInt (uint (p_uid p)))))"
proof
  show "principal_from_section v = Inr None \<longleftrightarrow> v = None"
    by (cases v) (auto simp: principal_from_section_def res_bind_Inr_iff split: if_splits)
  show "principal_from_section (Some sect) = Inr (Some p) \<longleftrightarrow>
        (\<exists>entries. sect = VMap entries \<and> fst ` set entries \<subseteq> {''name'', ''uid''}
           \<and> map_of entries ''name'' = Some (VStr (p_name p)) \<and> p_name p \<noteq> []
           \<and> map_of entries ''uid'' = Some (VInt (uint (p_uid p))))"
  proof (cases sect)
    case (VMap entries)
    have str: "value_as_str x = Some s \<longleftrightarrow> x = VStr s" for x s
      by (auto simp: value_as_str_def split: config_value.splits)
    have u32: "value_as_u32 x = Some u \<longleftrightarrow> x = VInt (uint u)" for x u
      by (auto simp: value_as_u32_def i64_to_u32_Some_iff split: config_value.splits)
    show ?thesis
      by (cases p)
        (auto simp: principal_from_section_def principal_keys_known_def VMap res_bind_Inr_iff
          value_get_def map_get_def str u32 bind_eq_Some_conv split: if_splits)
  qed (auto simp: principal_from_section_def res_bind_Inr_iff)
qed

end
