(* ===== verification/Classification.thy ===== *)
theory Classification
  imports Seam Config
begin

text \<open>
  Classification systems and the ceiling operand: the \<open>ClassificationPolicy\<close> seam of
  \<^verbatim>\<open>maknae-security/src/classification.rs\<close> as a record of methods, the US and the Australian
  systems behind it (\<^verbatim>\<open>maknae-config/src/policy.rs\<close>, \<^verbatim>\<open>maknae-classification-aus/src/lib.rs\<close>),
  the registry of \<^verbatim>\<open>maknae-kernel/src/classification.rs\<close>, the declaration of a ceiling in the
  configuration (\<^verbatim>\<open>maknae-config/src/ceiling.rs\<close>) and the per-request decision of
  \<^verbatim>\<open>maknae-kernel/src/ceiling_authz.rs\<close>. The contract the kernel relies on is the locale
  \<open>classification_system\<close>; both systems are proved to meet it.
\<close>

section \<open>The seam\<close>

record level =
  l_policy :: string
  l_name :: string
  l_rank :: nat

record class_policy =
  cp_name :: string
  cp_level_of :: "string \<Rightarrow> level option"
  cp_unmarked :: level
  cp_dominates :: "level \<Rightarrow> level \<Rightarrow> bool option"
  cp_non_public :: "string \<Rightarrow> bool"

definition first_token :: "string \<Rightarrow> string" where
  "first_token marking = trim (hd (split_sub marking ''//''))"

section \<open>The US system\<close>

definition US_NAME :: string where "US_NAME = ''US''"

definition US_LEVELS :: "string list" where
  "US_LEVELS = [''UNCLASSIFIED'', ''CONFIDENTIAL'', ''SECRET'', ''TOP SECRET'']"

definition us_is_level :: "level \<Rightarrow> bool" where
  "us_is_level l \<longleftrightarrow> l_policy l = US_NAME
     \<and> (case nth_opt US_LEVELS (l_rank l) of None \<Rightarrow> False | Some n \<Rightarrow> eq_ignore_ascii_case n (l_name l))"

definition us_level :: "nat \<Rightarrow> level" where
  "us_level rank = \<lparr>l_policy = US_NAME, l_name = US_LEVELS ! rank, l_rank = rank\<rparr>"

definition us_level_of :: "string \<Rightarrow> level option" where
  "us_level_of marking =
     (let token = first_token marking
      in if eq_ignore_ascii_case token ''CUI'' then Some (us_level 0)
         else map_option us_level (position (\<lambda>l. eq_ignore_ascii_case l token) US_LEVELS))"

definition us_dominates :: "level \<Rightarrow> level \<Rightarrow> bool option" where
  "us_dominates ceiling content =
     (if \<not> us_is_level ceiling \<or> \<not> us_is_level content then None
      else Some (l_rank content \<le> l_rank ceiling))"

definition us_non_public :: "string \<Rightarrow> bool" where
  "us_non_public marking =
     (if eq_ignore_ascii_case (first_token marking) ''CUI'' then True
      else
        let upper = to_ascii_uppercase marking
        in if list_ex (\<lambda>seg. trim seg \<in> set [''FOUO'', ''SBU'', ''CUI''])
                (drop 1 (split_sub upper ''//''))
           then True
           else list_ex (\<lambda>rest. case rest of [] \<Rightarrow> False | c # _ \<Rightarrow> c \<in> set ''BCDEF'')
                  (drop 1 (split_sub upper ''DISTRIBUTION STATEMENT '')))"

definition BasicPolicy :: class_policy where
  "BasicPolicy =
     \<lparr>cp_name = US_NAME, cp_level_of = us_level_of, cp_unmarked = us_level 0,
      cp_dominates = us_dominates, cp_non_public = us_non_public\<rparr>"

section \<open>The Australian system\<close>

definition AUS_NAME :: string where "AUS_NAME = ''AUS''"

definition AUS_LEVELS :: "string list" where
  "AUS_LEVELS = [''UNOFFICIAL'', ''OFFICIAL'', ''OFFICIAL: SENSITIVE'', ''PROTECTED'', ''SECRET'',
     ''TOP SECRET'']"

definition aus_is_level :: "level \<Rightarrow> bool" where
  "aus_is_level l \<longleftrightarrow> l_policy l = AUS_NAME
     \<and> (case nth_opt AUS_LEVELS (l_rank l) of None \<Rightarrow> False | Some n \<Rightarrow> eq_ignore_ascii_case n (l_name l))"

definition aus_level :: "nat \<Rightarrow> level" where
  "aus_level rank = \<lparr>l_policy = AUS_NAME, l_name = AUS_LEVELS ! rank, l_rank = rank\<rparr>"

definition aus_level_of :: "string \<Rightarrow> level option" where
  "aus_level_of marking =
     (let token = first_token marking
      in map_option aus_level (position (\<lambda>l. eq_ignore_ascii_case l token) AUS_LEVELS))"

definition aus_dominates :: "level \<Rightarrow> level \<Rightarrow> bool option" where
  "aus_dominates ceiling content =
     (if \<not> aus_is_level ceiling \<or> \<not> aus_is_level content then None
      else Some (l_rank content \<le> l_rank ceiling))"

definition aus_non_public :: "string \<Rightarrow> bool" where
  "aus_non_public marking = eq_ignore_ascii_case (first_token marking) ''OFFICIAL: SENSITIVE''"

definition AusPspf :: class_policy where
  "AusPspf =
     \<lparr>cp_name = AUS_NAME, cp_level_of = aus_level_of, cp_unmarked = aus_level 0,
      cp_dominates = aus_dominates, cp_non_public = aus_non_public\<rparr>"

section \<open>The registry\<close>

definition SYSTEMS :: "class_policy list" where
  "SYSTEMS = [BasicPolicy, AusPspf]"

definition select :: "string \<Rightarrow> class_policy option" where
  "select name = find (\<lambda>p. eq_ignore_ascii_case (cp_name p) (trim name)) SYSTEMS"

definition system_names :: "string list" where
  "system_names = map cp_name SYSTEMS"

definition recognizing :: "string \<Rightarrow> string list" where
  "recognizing marking =
     (let token = first_token marking
      in map cp_name (filter (\<lambda>p. cp_level_of p token \<noteq> None) SYSTEMS))"

section \<open>Declaring a ceiling\<close>

record ceiling =
  c_classification :: level
  c_sci :: bool
  c_releasable_to :: "string list"
  c_cui_permitted :: bool
  c_cui_categories_permitted :: "string list"
  c_dissemination_permitted :: "string list"
  c_accreditation_ref :: "string option"

datatype ingest_posture = Public | Gated

definition baseline_for :: "class_policy \<Rightarrow> ceiling" where
  "baseline_for pol =
     \<lparr>c_classification = cp_unmarked pol, c_sci = False, c_releasable_to = [],
      c_cui_permitted = False, c_cui_categories_permitted = [],
      c_dissemination_permitted = [''Distribution Statement A''], c_accreditation_ref = None\<rparr>"

definition ingest_posture_of :: "ceiling \<Rightarrow> class_policy \<Rightarrow> ingest_posture" where
  "ingest_posture_of c pol = (if c = baseline_for pol then Public else Gated)"

definition ceiling_err :: "string \<Rightarrow> config_error" where
  "ceiling_err reason = CfgInvalidCeiling reason"

definition value_as_map :: "config_value \<Rightarrow> (string \<times> config_value) list option" where
  "value_as_map v = (case v of VMap m \<Rightarrow> Some m | _ \<Rightarrow> None)"

definition ceiling_field ::
  "(string \<times> config_value) list \<Rightarrow> string \<Rightarrow> config_error + config_value" where
  "ceiling_field m key =
     ok_or (ceiling_err (''handling.ceiling: missing '' @ quoted key)) (map_get m key)"

definition value_as_bool :: "config_value \<Rightarrow> bool option" where
  "value_as_bool v = (case v of VBool b \<Rightarrow> Some b | _ \<Rightarrow> None)"

definition value_as_str_vec :: "config_value \<Rightarrow> string list option" where
  "value_as_str_vec v = (case v of VSeq items \<Rightarrow> those (map value_as_str items) | _ \<Rightarrow> None)"

definition policy_name_from_core :: "config_value option \<Rightarrow> config_error + string" where
  "policy_name_from_core core =
     (case Option.bind core value_as_map of
        None \<Rightarrow> Inr US_NAME
      | Some core_map \<Rightarrow>
          (case Option.bind (map_get core_map ''handling'') value_as_map of
             None \<Rightarrow> Inr US_NAME
           | Some handling \<Rightarrow>
               (let refused = Inl (ceiling_err
                      ''handling.policy must be a non-empty string naming a classification system'')
                in case map_get handling ''policy'' of
                     None \<Rightarrow> Inr US_NAME
                   | Some (VStr s) \<Rightarrow>
                       if trim s \<noteq> [] then Inr (to_ascii_uppercase (trim s)) else refused
                   | Some _ \<Rightarrow> refused)))"

definition CEILING_KEYS :: "string list" where
  "CEILING_KEYS = [''classification'', ''sci'', ''releasable_to'', ''cui_permitted'',
     ''cui_categories_permitted'', ''dissemination_permitted'']"

definition ceiling_level :: "class_policy \<Rightarrow> string \<Rightarrow> level option" where
  "ceiling_level pol raw =
     (case cp_level_of pol raw of
        None \<Rightarrow> None
      | Some l \<Rightarrow>
          if first_token raw = trim raw \<and> eq_ignore_ascii_case (l_name l) (trim raw)
          then Some l else None)"

definition typed_field ::
  "(config_value \<Rightarrow> 'a option) \<Rightarrow> string \<Rightarrow> (string \<times> config_value) list \<Rightarrow> string
    \<Rightarrow> config_error + 'a" where
  "typed_field read reason m key =
     res_bind (ceiling_field m key) (\<lambda>v. ok_or (ceiling_err reason) (read v))"

definition parse_ceiling ::
  "config_value \<Rightarrow> string option \<Rightarrow> class_policy \<Rightarrow> config_error + ceiling" where
  "parse_ceiling v accreditation pol =
     res_bind (ok_or (ceiling_err ''handling.ceiling is not a map'') (value_as_map v)) (\<lambda>m.
     res_bind (reject_unknown_keys ''core.handling.ceiling'' m CEILING_KEYS) (\<lambda>_.
     res_bind (typed_field value_as_str ''classification must be a string'' m ''classification'') (\<lambda>raw.
     res_bind (ok_or (ceiling_err (''classification: '' @ quoted raw @ '' is not a level of the ''
                @ cp_name pol @ '' system'')) (ceiling_level pol raw)) (\<lambda>classification.
     res_bind (typed_field value_as_bool ''sci must be a boolean'' m ''sci'') (\<lambda>sci.
     res_bind (typed_field value_as_bool ''cui_permitted must be a boolean'' m ''cui_permitted'') (\<lambda>cui.
     res_bind (typed_field value_as_str_vec ''releasable_to must be an array of strings'' m
                ''releasable_to'') (\<lambda>rel.
     res_bind (typed_field value_as_str_vec ''cui_categories_permitted must be an array of strings'' m
                ''cui_categories_permitted'') (\<lambda>cats.
     res_bind (typed_field value_as_str_vec ''dissemination_permitted must be an array of strings'' m
                ''dissemination_permitted'') (\<lambda>diss.
     Inr \<lparr>c_classification = classification, c_sci = sci, c_releasable_to = rel,
          c_cui_permitted = cui, c_cui_categories_permitted = cats,
          c_dissemination_permitted = diss, c_accreditation_ref = accreditation\<rparr>)))))))))"

definition accreditation_of :: "(string \<times> config_value) list \<Rightarrow> config_error + string option" where
  "accreditation_of m =
     (case map_get m ''accreditation_ref'' of
        None \<Rightarrow> Inl (ceiling_err (''handling: missing '' @ quoted ''accreditation_ref''))
      | Some VNull \<Rightarrow> Inr None
      | Some (VStr s) \<Rightarrow> Inr (Some s)
      | Some _ \<Rightarrow> Inl (ceiling_err ''handling.accreditation_ref must be a string or null''))"

definition parse_handling :: "config_value \<Rightarrow> class_policy \<Rightarrow> config_error + ceiling" where
  "parse_handling handling pol =
     res_bind (ok_or (ceiling_err ''handling is not a map'') (value_as_map handling)) (\<lambda>m.
     res_bind (reject_unknown_keys ''core.handling'' m [''ceiling'', ''accreditation_ref'', ''policy'']) (\<lambda>_.
     res_bind (accreditation_of m) (\<lambda>accreditation.
     res_bind (ok_or (ceiling_err (''handling: missing '' @ quoted ''ceiling'')) (map_get m ''ceiling'')) (\<lambda>v.
     parse_ceiling v accreditation pol))))"

definition ceiling_from_core :: "config_value option \<Rightarrow> class_policy \<Rightarrow> config_error + ceiling" where
  "ceiling_from_core core pol =
     (case Option.bind core value_as_map of
        None \<Rightarrow> Inr (baseline_for pol)
      | Some core_map \<Rightarrow>
          (case map_get core_map ''handling'' of
             None \<Rightarrow> Inr (baseline_for pol)
           | Some handling \<Rightarrow> parse_handling handling pol))"

section \<open>The per-request decision\<close>

definition CONTROL_PLANE_CLASSES :: "string list" where
  "CONTROL_PLANE_CLASSES = [''liveness'', ''admin'', ''kernel'']"

definition CEILING_BACKEND_NAME :: string where
  "CEILING_BACKEND_NAME = ''maknae-ceiling''"

definition ceiling_in_class :: "string \<Rightarrow> string \<Rightarrow> bool" where
  "ceiling_in_class act cls \<longleftrightarrow>
     act = cls \<or> (length act > length cls \<and> act ! length cls = CHR ''.'' \<and> starts_with act cls)"

definition is_control_plane :: "string \<Rightarrow> bool" where
  "is_control_plane act = list_ex (ceiling_in_class act) CONTROL_PLANE_CLASSES"

datatype label = LAbsent | LMarking string | LNotAString

definition label_of :: "request \<Rightarrow> label" where
  "label_of req =
     (case attrs_get (resource req) RESOURCE_CLASSIFICATION of
        None \<Rightarrow> LAbsent
      | Some (AStr s) \<Rightarrow> LMarking s
      | Some _ \<Rightarrow> LNotAString)"

definition resolve_level :: "class_policy \<Rightarrow> label \<Rightarrow> string + level" where
  "resolve_level pol lab =
     (case lab of
        LNotAString \<Rightarrow> Inl ''ceiling: classification attribute is not a string''
      | LAbsent \<Rightarrow> Inr (cp_unmarked pol)
      | LMarking raw \<Rightarrow>
          ok_or (let others = filter (\<lambda>n. n \<noteq> cp_name pol) (recognizing raw)
                 in if others = [] then ''ceiling: unrecognized classification marking''
                    else ''ceiling: marking is a level of the '' @ join_with ''/'' others
                           @ '' system, not '' @ cp_name pol)
            (cp_level_of pol raw))"

definition decide_ceiling :: "class_policy \<Rightarrow> ceiling \<Rightarrow> string \<Rightarrow> label \<Rightarrow> verdict" where
  "decide_ceiling pol c act lab =
     (if is_control_plane act then NotApplicable None
      else
        (case resolve_level pol lab of
           Inl reason \<Rightarrow> Deny reason
         | Inr lev \<Rightarrow>
             (case cp_dominates pol (c_classification c) lev of
                Some True \<Rightarrow> NotApplicable None
              | Some False \<Rightarrow>
                  Deny (''ceiling: content marked '' @ l_name lev @ '' exceeds the declared ceiling ''
                    @ l_name (c_classification c))
              | None \<Rightarrow>
                  Deny (''ceiling: the declared ceiling is not a level of the '' @ cp_name pol
                    @ '' system''))))"

definition ceiling_decide :: "class_policy \<Rightarrow> ceiling \<Rightarrow> request \<Rightarrow> verdict" where
  "ceiling_decide pol c req = decide_ceiling pol c (action req) (label_of req)"

definition ceiling_authorizer :: "class_policy \<Rightarrow> ceiling \<Rightarrow> authorizer" where
  "ceiling_authorizer pol c =
     \<lparr>a_decide_cited = (\<lambda>req. Returns (default_decide_cited (ceiling_decide pol c) req)),
      a_decide_cited_all =
        (\<lambda>reqs. Returns (decide_each_cited (default_decide_cited (ceiling_decide pol c)) reqs)),
      a_subjects = Returns None, a_backend_name = Returns CEILING_BACKEND_NAME\<rparr>"

section \<open>First tokens\<close>

lemma first_token_idem [simp]: "first_token (first_token m) = first_token m"
proof -
  let ?h = "hd (split_sub m ''//'')"
  obtain u v where "?h = u @ trim ?h @ v" using trim_factor by blast
  moreover have "find_sub ?h ''//'' = None" by (rule hd_split_sub_free) simp
  ultimately have "find_sub (trim ?h) ''//'' = None" using find_sub_factor by metis
  then show ?thesis by (simp add: first_token_def split_sub_free)
qed

text \<open>Everything after the first \<open>//\<close> is opaque.\<close>

lemma first_token_caveats:
  assumes "find_sub (m @ ''/'') ''//'' = None"
  shows "first_token (m @ ''//'' @ caveats) = trim m"
proof -
  obtain i where i: "find_sub (m @ ''//'' @ caveats) ''//'' = Some i" "i \<le> length m"
    using find_sub_leftmost [of "m @ ''//'' @ caveats" m "''//''" caveats] by blast
  have "i = length m"
  proof (rule ccontr)
    assume "i \<noteq> length m"
    with i(2) have lt: "i + 2 \<le> length (m @ ''/'')" by simp
    have eq: "take i (m @ ''//'' @ caveats) @ ''//'' @ drop (i + 2) (m @ ''//'' @ caveats) = m @ ''//'' @ caveats"
      using find_sub_SomeD [OF i(1)] by simp
    have "take (length (m @ ''/'')) (m @ ''//'' @ caveats) = m @ ''/''" by simp
    with eq have "m @ ''/'' = take (length (m @ ''/''))
        (take i (m @ ''//'' @ caveats) @ ''//'' @ drop (i + 2) (m @ ''//'' @ caveats))" by metis
    also have "\<dots> = take i (m @ ''//'' @ caveats) @ ''//''
        @ take (length (m @ ''/'') - i - 2) (drop (i + 2) (m @ ''//'' @ caveats))"
      using lt i(2) by (simp add: take_Cons' min_absorb2)
    finally show False using assms unfolding find_sub_None_iff by metis
  qed
  then show ?thesis using i(1) by (simp add: first_token_def hd_split_sub)
qed

lemma parse_ceiling_level:
  assumes "parse_ceiling v accreditation pol = Inr c"
  shows "\<exists>raw. cp_level_of pol raw = Some (c_classification c)"
  using assms unfolding parse_ceiling_def
  by (elim res_bind_InrE) (auto simp: ceiling_level_def split: option.splits if_splits)

section \<open>Writing a ceiling down\<close>

definition ceiling_value :: "ceiling \<Rightarrow> config_value" where
  "ceiling_value c =
     VMap [(''classification'', VStr (l_name (c_classification c))), (''sci'', VBool (c_sci c)),
       (''releasable_to'', VSeq (map VStr (c_releasable_to c))),
       (''cui_permitted'', VBool (c_cui_permitted c)),
       (''cui_categories_permitted'', VSeq (map VStr (c_cui_categories_permitted c))),
       (''dissemination_permitted'', VSeq (map VStr (c_dissemination_permitted c)))]"

definition core_of_ceiling :: "ceiling \<Rightarrow> config_value" where
  "core_of_ceiling c =
     VMap [(''handling'', VMap [(''ceiling'', ceiling_value c), (''accreditation_ref'',
       case c_accreditation_ref c of None \<Rightarrow> VNull | Some s \<Rightarrow> VStr s)])]"

section \<open>The contract of a classification system\<close>

text \<open>
  What the kernel relies on: a system recognises its own levels, reads markings by their
  first token alone, ranks exactly its own levels, in a total preorder whose equal ranks
  are one level up to letter case, with the unmarked level at the bottom.
\<close>

locale classification_system =
  fixes pol :: class_policy
    and is_level :: "level \<Rightarrow> bool"
  assumes unmarked_level: "is_level (cp_unmarked pol)"
    and level_of_level: "cp_level_of pol m = Some l \<Longrightarrow> is_level l"
    and level_of_token: "cp_level_of pol (first_token m) = cp_level_of pol m"
    and dominates_rank:
      "cp_dominates pol c l = (if is_level c \<and> is_level l then Some (l_rank l \<le> l_rank c) else None)"
    and unmarked_bottom: "l_rank (cp_unmarked pol) = 0"
    and level_policy: "is_level l \<Longrightarrow> l_policy l = cp_name pol"
    and level_name:
      "cp_level_of pol m = Some l \<or> l = cp_unmarked pol \<Longrightarrow> ceiling_level pol (l_name l) = Some l"
begin

lemma resolve_level_level: "resolve_level pol lab = Inr l \<Longrightarrow> is_level l"
  by (auto simp: resolve_level_def unmarked_level level_of_level split: label.splits)

lemma baseline_level: "is_level (c_classification (baseline_for pol))"
  by (simp add: baseline_for_def unmarked_level)

lemma parsed_ceiling_source:
  assumes "ceiling_from_core core pol = Inr c"
  shows "c_classification c = cp_unmarked pol \<or> (\<exists>m. cp_level_of pol m = Some (c_classification c))"
  using assms
  by (auto simp: ceiling_from_core_def baseline_for_def parse_handling_def
      elim!: res_bind_InrE dest!: parse_ceiling_level split: option.splits)

lemma parsed_ceiling_level: "ceiling_from_core core pol = Inr c \<Longrightarrow> is_level (c_classification c)"
  using parsed_ceiling_source unmarked_level level_of_level by metis

lemma parsed_ceiling_name:
  assumes "ceiling_from_core core pol = Inr c"
  shows "ceiling_level pol (l_name (c_classification c)) = Some (c_classification c)"
  using parsed_ceiling_source [OF assms] level_name by blast

lemma ceiling_core_parses:
  assumes "ceiling_level pol (l_name (c_classification c)) = Some (c_classification c)"
  shows "ceiling_from_core (Some (core_of_ceiling c)) pol = Inr c"
proof -
  have "those (map value_as_str (map VStr xs)) = Some xs" for xs
    by (induction xs) (simp_all add: value_as_str_def)
  then have vec: "value_as_str_vec (VSeq (map VStr xs)) = Some xs" for xs
    by (simp add: value_as_str_vec_def)
  have "parse_ceiling (ceiling_value c) (c_accreditation_ref c) pol = Inr c"
    using assms
    by (simp add: parse_ceiling_def ceiling_value_def value_as_map_def CEILING_KEYS_def typed_field_def
        ceiling_field_def map_get_def value_as_bool_def value_as_str_def vec)
  moreover have "accreditation_of [(''ceiling'', v), (''accreditation_ref'',
      case c_accreditation_ref c of None \<Rightarrow> VNull | Some s \<Rightarrow> VStr s)] = Inr (c_accreditation_ref c)" for v
    by (simp add: accreditation_of_def map_get_def split: option.splits)
  ultimately show ?thesis
    by (simp add: ceiling_from_core_def core_of_ceiling_def value_as_map_def map_get_def parse_handling_def)
qed

lemma decide_ceiling_absent_iff:
  assumes "is_level (c_classification c)"
  shows "decide_ceiling pol c act lab = NotApplicable n \<longleftrightarrow>
     n = None \<and> (is_control_plane act
        \<or> (\<exists>l. resolve_level pol lab = Inr l \<and> l_rank l \<le> l_rank (c_classification c)))"
  using assms
  by (auto simp: decide_ceiling_def dominates_rank dest: resolve_level_level split: sum.splits bool.splits)

lemma decide_ceiling_two_valued:
  "decide_ceiling pol c act lab = NotApplicable None \<or> is_deny (decide_ceiling pol c act lab)"
  by (auto simp: decide_ceiling_def split: sum.splits option.splits bool.splits)

lemma decide_ceiling_unmarked:
  assumes "is_level (c_classification c)"
  shows "decide_ceiling pol c act LAbsent = NotApplicable None"
  using assms by (simp add: decide_ceiling_absent_iff resolve_level_def unmarked_bottom)

lemma recognizing_token: "recognizing (first_token m) = recognizing m"
  by (simp add: recognizing_def)

lemma decide_ceiling_first_token:
  "decide_ceiling pol c act (LMarking (first_token m)) = decide_ceiling pol c act (LMarking m)"
  by (simp add: decide_ceiling_def resolve_level_def level_of_token recognizing_token)

lemma decide_ceiling_mono:
  assumes "is_level (c_classification c')" "l_rank (c_classification c) \<le> l_rank (c_classification c')"
    and "is_level (c_classification c)" "decide_ceiling pol c act lab = NotApplicable None"
  shows "decide_ceiling pol c' act lab = NotApplicable None"
  using assms by (auto simp: decide_ceiling_absent_iff)

end

lemma ladder_position:
  assumes "position (\<lambda>l. eq_ignore_ascii_case l token) levels = Some i"
  shows "i < length levels \<and> eq_ignore_ascii_case (levels ! i) token"
  using position_SomeD [OF assms] by blast

lemma less_4_cases: "(i::nat) < 4 \<Longrightarrow> i = 0 \<or> i = 1 \<or> i = 2 \<or> i = 3" by auto

lemma less_6_cases: "(i::nat) < 6 \<Longrightarrow> i = 0 \<or> i = 1 \<or> i = 2 \<or> i = 3 \<or> i = 4 \<or> i = 5" by auto

lemma us_level_is_level: "rank < 4 \<Longrightarrow> us_is_level (us_level rank)"
  by (simp add: us_is_level_def us_level_def US_LEVELS_def nth_opt_def)

lemma aus_level_is_level: "rank < 6 \<Longrightarrow> aus_is_level (aus_level rank)"
  by (simp add: aus_is_level_def aus_level_def AUS_LEVELS_def nth_opt_def)

lemma us_level_of_rank:
  assumes "us_level_of m = Some l"
  obtains i where "i < 4" "l = us_level i"
proof (cases "eq_ignore_ascii_case (first_token m) ''CUI''")
  case True
  with assms that [of 0] show ?thesis by (simp add: us_level_of_def)
next
  case False
  with assms obtain i where "position (\<lambda>l. eq_ignore_ascii_case l (first_token m)) US_LEVELS = Some i"
    "l = us_level i" by (auto simp: us_level_of_def Let_def)
  moreover from ladder_position [OF this(1)] have "i < 4" by (simp add: US_LEVELS_def)
  ultimately show ?thesis using that by blast
qed

lemma aus_level_of_rank:
  assumes "aus_level_of m = Some l"
  obtains i where "i < 6" "l = aus_level i"
proof -
  from assms obtain i where "position (\<lambda>l. eq_ignore_ascii_case l (first_token m)) AUS_LEVELS = Some i"
    "l = aus_level i" by (auto simp: aus_level_of_def Let_def)
  moreover from ladder_position [OF this(1)] have "i < 6" by (simp add: AUS_LEVELS_def)
  ultimately show ?thesis using that by blast
qed

lemma us_level_named: "i < 4 \<Longrightarrow> ceiling_level BasicPolicy (l_name (us_level i)) = Some (us_level i)"
  by (drule less_4_cases, elim disjE; hypsubst; code_simp)

lemma aus_level_named: "i < 6 \<Longrightarrow> ceiling_level AusPspf (l_name (aus_level i)) = Some (aus_level i)"
  by (drule less_6_cases, elim disjE; hypsubst; code_simp)

interpretation us: classification_system BasicPolicy us_is_level
proof unfold_locales
  show "us_is_level (cp_unmarked BasicPolicy)" by (simp add: BasicPolicy_def us_level_is_level)
next
  fix m l
  assume "cp_level_of BasicPolicy m = Some l"
  then have "us_level_of m = Some l" by (simp add: BasicPolicy_def)
  then show "us_is_level l" by (rule us_level_of_rank) (simp add: us_level_is_level)
next
  fix m l
  assume "cp_level_of BasicPolicy m = Some l \<or> l = cp_unmarked BasicPolicy"
  then have "us_level_of m = Some l \<or> l = us_level 0" by (simp add: BasicPolicy_def)
  then have "\<exists>i<4. l = us_level i" by (elim disjE us_level_of_rank) (blast, rule exI [of _ 0], simp)
  then obtain i where "i < 4" "l = us_level i" by blast
  then show "ceiling_level BasicPolicy (l_name l) = Some l" using us_level_named by simp
qed (simp_all add: BasicPolicy_def us_level_of_def us_dominates_def us_level_def us_is_level_def)

interpretation aus: classification_system AusPspf aus_is_level
proof unfold_locales
  show "aus_is_level (cp_unmarked AusPspf)" by (simp add: AusPspf_def aus_level_is_level)
next
  fix m l
  assume "cp_level_of AusPspf m = Some l"
  then have "aus_level_of m = Some l" by (simp add: AusPspf_def)
  then show "aus_is_level l" by (rule aus_level_of_rank) (simp add: aus_level_is_level)
next
  fix m l
  assume "cp_level_of AusPspf m = Some l \<or> l = cp_unmarked AusPspf"
  then have "aus_level_of m = Some l \<or> l = aus_level 0" by (simp add: AusPspf_def)
  then have "\<exists>i<6. l = aus_level i" by (elim disjE aus_level_of_rank) (blast, rule exI [of _ 0], simp)
  then obtain i where "i < 6" "l = aus_level i" by blast
  then show "ceiling_level AusPspf (l_name l) = Some l" using aus_level_named by simp
qed (simp_all add: AusPspf_def aus_level_of_def aus_dominates_def aus_level_def aus_is_level_def)

text \<open>The level predicate of a compiled-in system, by its name.\<close>

definition system_level :: "class_policy \<Rightarrow> level \<Rightarrow> bool" where
  "system_level pol = (if cp_name pol = US_NAME then us_is_level else aus_is_level)"

lemma systems_meet_contract:
  assumes "pol \<in> set SYSTEMS"
  shows "classification_system pol (system_level pol)"
  using assms us.classification_system_axioms aus.classification_system_axioms
  by (auto simp: SYSTEMS_def system_level_def BasicPolicy_def AusPspf_def US_NAME_def AUS_NAME_def)

text \<open>
  C26. The ceiling operand is exact and fail-closed. With a ceiling read from the
  configuration in a compiled-in system, it abstains exactly on control-plane actions and on
  content whose level in that system is at or below the declared one; everything else,
  including a marking of another system and an attribute that is not a string, is denied; and
  it never permits. Unmarked content always flows, and what follows the first \<open>//\<close> of a
  marking has no influence.
\<close>

theorem ceiling_operand_exact:
  assumes "pol \<in> set SYSTEMS" "ceiling_from_core core pol = Inr c"
  shows "(decide_ceiling pol c act lab = NotApplicable None \<longleftrightarrow>
            is_control_plane act
            \<or> (\<exists>l. resolve_level pol lab = Inr l \<and> l_rank l \<le> l_rank (c_classification c)))
    \<and> (decide_ceiling pol c act lab \<noteq> NotApplicable None \<longrightarrow> is_deny (decide_ceiling pol c act lab))
    \<and> decide_ceiling pol c act LAbsent = NotApplicable None
    \<and> decide_ceiling pol c act (LMarking m) = decide_ceiling pol c act (LMarking (first_token m))"
proof -
  note sys = systems_meet_contract [OF assms(1)]
  note lev = classification_system.parsed_ceiling_level [OF sys assms(2)]
  show ?thesis
    using classification_system.decide_ceiling_absent_iff [OF sys lev, of act lab None]
      classification_system.decide_ceiling_two_valued [OF sys, of c act lab]
      classification_system.decide_ceiling_unmarked [OF sys lev, of act]
      classification_system.decide_ceiling_first_token [OF sys, of c act m]
    by auto
qed

definition sample_ceiling :: ceiling where
  "sample_ceiling = (baseline_for BasicPolicy)\<lparr>c_classification := us_level 1\<rparr>"

lemma sample_ceiling_parses: "ceiling_from_core (Some (core_of_ceiling sample_ceiling)) BasicPolicy = Inr sample_ceiling"
  by (rule us.ceiling_core_parses) (simp add: sample_ceiling_def us_level_named)

theorem ceiling_operand_exact_witness:
  "is_deny (decide_ceiling BasicPolicy sample_ceiling ''fs.read'' (LMarking ''SECRET//NOFORN''))
   \<and> decide_ceiling BasicPolicy sample_ceiling ''fs.read'' LAbsent = NotApplicable None"
proof -
  have "BasicPolicy \<in> set SYSTEMS" by (simp add: SYSTEMS_def)
  note exact = ceiling_operand_exact [OF this sample_ceiling_parses]
  have "decide_ceiling BasicPolicy sample_ceiling ''fs.read'' (LMarking ''SECRET//NOFORN'') \<noteq> NotApplicable None"
    by code_simp
  then show ?thesis using exact [of "''fs.read''" "LMarking ''SECRET//NOFORN''" "[]"] by blast
qed

text \<open>
  C27. A declared ceiling survives being written down: writing any ceiling the configuration
  can produce back as a \<open>core\<close> section and reading it again in the same system yields the
  same ceiling, so no field is lost, defaulted or renamed.
\<close>

theorem ceiling_roundtrip:
  assumes "pol \<in> set SYSTEMS" "ceiling_from_core core pol = Inr c"
  shows "ceiling_from_core (Some (core_of_ceiling c)) pol = Inr c"
proof -
  note sys = systems_meet_contract [OF assms(1)]
  show ?thesis
    by (rule classification_system.ceiling_core_parses [OF sys])
      (rule classification_system.parsed_ceiling_name [OF sys assms(2)])
qed

theorem ceiling_roundtrip_witness:
  "ceiling_from_core (Some (core_of_ceiling (baseline_for AusPspf))) AusPspf = Inr (baseline_for AusPspf)"
proof (rule ceiling_roundtrip)
  show "AusPspf \<in> set SYSTEMS" by (simp add: SYSTEMS_def)
  show "ceiling_from_core None AusPspf = Inr (baseline_for AusPspf)" by (simp add: ceiling_from_core_def)
qed

end
