(* ===== verification/Glob.thy ===== *)
theory Glob
  imports Config
begin

text \<open>
  The path-glob grammar of the capability-grant policy, \<^verbatim>\<open>crates/maknae-config/src/authz.rs\<close>:
  compiled globs, the within-component wildcard matcher, the \<open>**\<close>-aware segment matcher,
  and the two subtree approximations used for recursive deletion.

  A \<open>Path\<close> is only ever read through \<open>to_str()\<close>: it is a UTF-8 string or it is not one.
  The lemmas give each matcher a reference meaning: \<open>star_match\<close> for one component,
  \<open>seg_match\<close> for a segment list.
\<close>

section \<open>Paths and homes\<close>

datatype rpath = Utf8 string | NonUtf8 bytes

fun to_str :: "rpath \<Rightarrow> string option" where
  "to_str (Utf8 s) = Some s"
| "to_str (NonUtf8 _) = None"

definition components :: "string \<Rightarrow> string list" where
  "components s = filter (\<lambda>c. c \<noteq> []) (split_on CHR ''/'' s)"

datatype home_unbound = HomeUnbound

definition home_ok :: "rpath \<Rightarrow> bool" where
  "home_ok h =
     (case to_str h of
        None \<Rightarrow> False
      | Some s \<Rightarrow>
          let comps = components s
          in starts_with s ''/'' \<and> comps \<noteq> [] \<and> \<not> (\<exists>c\<in>set comps. c = ''.'' \<or> c = ''..''))"

definition valid_home :: "rpath option \<Rightarrow> rpath option" where
  "valid_home home = (case home of Some h \<Rightarrow> if home_ok h then Some h else None | None \<Rightarrow> None)"

section \<open>Compiled globs\<close>

datatype anchor = Root | Home

datatype glob_seg = DoubleStar | Comp string

record path_glob =
  anchor :: anchor
  segments :: "glob_seg list"

definition path_glob_parse :: "string \<Rightarrow> authz_error + path_glob" where
  "path_glob_parse spec =
     res_bind
       (case strip_prefix spec ''~'' of
          Some rest \<Rightarrow>
            if rest \<noteq> [] \<and> \<not> starts_with rest ''/'' then Inl (AzBadPattern spec)
            else Inr (Home, rest)
        | None \<Rightarrow>
            if starts_with spec ''/'' then Inr (Root, spec) else Inl (AzBadPattern spec))
       (\<lambda>(anchor, rest).
          Inr \<lparr>anchor = anchor,
               segments = map (\<lambda>c. if c = ''**'' then DoubleStar else Comp c) (components rest)\<rparr>)"

definition is_home :: "path_glob \<Rightarrow> bool" where
  "is_home g \<longleftrightarrow> anchor g = Home"

definition base :: "path_glob \<Rightarrow> rpath option \<Rightarrow> home_unbound + string list" where
  "base g home =
     (if anchor g = Root then Inr []
      else case Option.bind (valid_home home) to_str of
             None \<Rightarrow> Inl HomeUnbound
           | Some h \<Rightarrow> Inr (components h))"

section \<open>Matching one component\<close>

fun component_loop ::
  "nat \<Rightarrow> bool \<Rightarrow> bool \<Rightarrow> string \<Rightarrow> nat \<Rightarrow> string list \<Rightarrow> nat \<Rightarrow> bool" where
  "component_loop lst anchored_start anchored_end text i [] pos = True"
| "component_loop lst anchored_start anchored_end text i (frag # frags) pos =
     (if frag = []
      then component_loop lst anchored_start anchored_end text (Suc i) frags pos
      else if i = 0 \<and> anchored_start
      then (if \<not> starts_with (drop pos text) frag then False
            else if i = lst \<and> anchored_end then pos + length frag = length text
            else component_loop lst anchored_start anchored_end text (Suc i) frags (pos + length frag))
      else if i = lst \<and> anchored_end
      then (if \<not> ends_with (drop pos text) frag then False
            else component_loop lst anchored_start anchored_end text (Suc i) frags pos)
      else case find_sub (drop pos text) frag of
             Some offset \<Rightarrow>
               component_loop lst anchored_start anchored_end text (Suc i) frags
                 (pos + (offset + length frag))
           | None \<Rightarrow> False)"

definition component_matches :: "string \<Rightarrow> string \<Rightarrow> bool" where
  "component_matches pattern text =
     (let fragments = split_on CHR ''*'' pattern
      in component_loop (length fragments - 1) (\<not> starts_with pattern ''*'')
           (\<not> ends_with pattern ''*'') text 0 fragments 0)"

section \<open>Matching segments\<close>

fun match_segs :: "glob_seg list \<Rightarrow> string list \<Rightarrow> bool" where
  "match_segs [] comps = (comps = [])"
| "match_segs (DoubleStar # rest) comps =
     (if match_segs rest comps then True
      else case comps of [] \<Rightarrow> False | _ # tail \<Rightarrow> match_segs (DoubleStar # rest) tail)"
| "match_segs (Comp p # rest) comps =
     (case comps of [] \<Rightarrow> False | c # tail \<Rightarrow> component_matches p c \<and> match_segs rest tail)"

definition glob_matches :: "path_glob \<Rightarrow> rpath \<Rightarrow> rpath option \<Rightarrow> home_unbound + bool" where
  "glob_matches g path home =
     res_bind (base g home) (\<lambda>b.
       case to_str path of
         None \<Rightarrow> Inr False
       | Some s \<Rightarrow>
           let comps = components s
           in Inr (starts_with comps b \<and> match_segs (segments g) (drop (length b) comps)))"

section \<open>Subtree approximations\<close>

text \<open>The shared iterator of \<open>covers_subtree\<close>: each pattern takes the next component.\<close>

fun take_literals :: "string list \<Rightarrow> string list \<Rightarrow> string list option" where
  "take_literals [] comps = Some comps"
| "take_literals (b # bs) [] = None"
| "take_literals (b # bs) (c # comps) = (if c = b then take_literals bs comps else None)"

fun literal_prefix :: "glob_seg list \<Rightarrow> string list option" where
  "literal_prefix [] = Some []"
| "literal_prefix (Comp l # segs) = map_option ((#) l) (literal_prefix segs)"
| "literal_prefix (DoubleStar # segs) = None"

definition covers_subtree :: "path_glob \<Rightarrow> string \<Rightarrow> rpath option \<Rightarrow> home_unbound + bool" where
  "covers_subtree g root home =
     res_bind (base g home) (\<lambda>b.
       if segments g = [] \<or> last (segments g) \<noteq> DoubleStar then Inr False
       else Inr (case take_literals b (components root) of
                   None \<Rightarrow> False
                 | Some rest \<Rightarrow>
                     (case literal_prefix (butlast (segments g)) of
                        None \<Rightarrow> False
                      | Some lits \<Rightarrow> take_literals lits rest \<noteq> None)))"

text \<open>\<open>map_while\<close> over the fixed leading components.\<close>

fun fixed_prefix :: "glob_seg list \<Rightarrow> string list" where
  "fixed_prefix (Comp l # segs) = (if CHR ''*'' \<in> set l then [] else l # fixed_prefix segs)"
| "fixed_prefix _ = []"

definition may_intersect_subtree :: "path_glob \<Rightarrow> string \<Rightarrow> rpath option \<Rightarrow> home_unbound + bool" where
  "may_intersect_subtree g root home =
     res_bind (base g home) (\<lambda>b.
       Inr (\<forall>(x, y)\<in>set (zip (b @ fixed_prefix (segments g)) (components root)). x = y))"

section \<open>What the component matcher means\<close>

text \<open>The reference meaning of a component pattern: a star stands for any run of bytes.\<close>

fun star_match :: "string \<Rightarrow> string \<Rightarrow> bool" where
  "star_match [] t = (t = [])"
| "star_match (c # p) t =
     (if c = CHR ''*'' then \<exists>u\<in>set (suffixes t). star_match p u
      else case t of [] \<Rightarrow> False | d # t' \<Rightarrow> c = d \<and> star_match p t')"

text \<open>The fragments after a star: each sits somewhere in what is left, the last one at the end.\<close>

fun frags_match :: "string list \<Rightarrow> string \<Rightarrow> bool" where
  "frags_match [] t = (t = [])"
| "frags_match (f # fs) t = (\<exists>u v. t = u @ f @ v \<and> frags_match fs v)"

lemma star_match_literal:
  "CHR ''*'' \<notin> set f \<Longrightarrow> star_match (f @ q) t \<longleftrightarrow> (\<exists>r. t = f @ r \<and> star_match q r)"
  by (induction f arbitrary: t) (auto split: list.splits)

lemma star_match_frags:
  assumes "\<And>x. x \<in> set (f # fs) \<Longrightarrow> CHR ''*'' \<notin> set x"
  shows "star_match (join_with ''*'' (f # fs)) t \<longleftrightarrow> (\<exists>r. t = f @ r \<and> frags_match fs r)"
  using assms
proof (induction fs arbitrary: f t)
  case Nil
  then show ?case using star_match_literal [of f "[]" t] by simp
next
  case (Cons g gs)
  have "star_match (join_with ''*'' (f # g # gs)) t
        \<longleftrightarrow> (\<exists>r. t = f @ r \<and> star_match (''*'' @ join_with ''*'' (g # gs)) r)"
    using star_match_literal [of f "''*'' @ join_with ''*'' (g # gs)" t] Cons.prems by simp
  moreover have "star_match (''*'' @ join_with ''*'' (g # gs)) r \<longleftrightarrow> frags_match (g # gs) r" for r
    using Cons.IH [of g] Cons.prems by (auto simp: suffix_def) blast
  ultimately show ?case by simp
qed

lemma frags_match_extend: "frags_match (f # fs) v \<Longrightarrow> frags_match (f # fs) (u @ v)"
  unfolding frags_match.simps by (metis append.assoc)

lemma frags_match_skip: "frags_match ([] # g # fs) t \<longleftrightarrow> frags_match (g # fs) t"
proof
  assume "frags_match ([] # g # fs) t"
  then obtain u v where "t = u @ v" "frags_match (g # fs) v"
    by (auto simp del: frags_match.simps(2) simp: frags_match.simps(2) [of "[]" "g # fs"])
  then show "frags_match (g # fs) t" using frags_match_extend by blast
next
  assume "frags_match (g # fs) t"
  then show "frags_match ([] # g # fs) t"
    by (subst frags_match.simps) (metis append_Nil)
qed

text \<open>Taking the leftmost occurrence of an interior fragment loses no match.\<close>

lemma frags_match_greedy:
  "frags_match (f # g # fs) t \<longleftrightarrow>
     (case find_sub t f of None \<Rightarrow> False | Some i \<Rightarrow> frags_match (g # fs) (drop (i + length f) t))"
proof (cases "find_sub t f")
  case None
  then show ?thesis using find_sub_None [OF None] by auto
next
  case (Some i)
  have here: "take i t @ f @ drop (i + length f) t = t"
    using find_sub_SomeD [OF Some] by simp
  show ?thesis
  proof
    assume "frags_match (f # g # fs) t"
    then obtain u v where t: "t = u @ f @ v" and m: "frags_match (g # fs) v"
      by (subst (asm) frags_match.simps) blast
    have "i \<le> length u" using find_sub_leftmost [OF t] Some by auto
    then have "drop (i + length f) t = drop (i + length f) (u @ f) @ v"
      using t by simp
    then have "frags_match (g # fs) (drop (i + length f) t)"
      using frags_match_extend [OF m] by presburger
    then show "case find_sub t f of None \<Rightarrow> False
               | Some i \<Rightarrow> frags_match (g # fs) (drop (i + length f) t)"
      using Some by (simp only: option.case)
  next
    assume "case find_sub t f of None \<Rightarrow> False
            | Some i \<Rightarrow> frags_match (g # fs) (drop (i + length f) t)"
    then show "frags_match (f # g # fs) t"
      using here Some by (subst frags_match.simps) (metis (lifting) option.simps(5))
  qed
qed

lemma component_loop_frags:
  assumes "0 < i" "fs \<noteq> []" "i + length fs = Suc lst" "e \<longleftrightarrow> last fs \<noteq> []"
  shows "component_loop lst s e text i fs pos \<longleftrightarrow> frags_match fs (drop pos text)"
  using assms
proof (induction fs arbitrary: i pos)
  case Nil
  then show ?case by simp
next
  case (Cons f fs)
  show ?case
  proof (cases fs)
    case Nil
    then show ?thesis using Cons.prems by (auto simp: ends_with_iff)
  next
    case (Cons g gs)
    have IH: "component_loop lst s e text (Suc i) fs p \<longleftrightarrow> frags_match fs (drop p text)" for p
      using Cons.IH [of "Suc i" p] Cons.prems \<open>fs = g # gs\<close> by simp
    have "i \<noteq> lst" using Cons.prems \<open>fs = g # gs\<close> by simp
    then have "component_loop lst s e text i (f # fs) pos \<longleftrightarrow>
        (if f = [] then frags_match fs (drop pos text)
         else case find_sub (drop pos text) f of None \<Rightarrow> False
              | Some k \<Rightarrow> frags_match fs (drop (pos + (k + length f)) text))"
      using Cons.prems(1) by (simp add: IH split: option.split)
    also have "\<dots> \<longleftrightarrow> frags_match (f # fs) (drop pos text)"
    proof (cases "f = []")
      case True
      then show ?thesis unfolding \<open>fs = g # gs\<close> by (simp add: frags_match_skip del: frags_match.simps)
    next
      case False
      then show ?thesis
        unfolding \<open>fs = g # gs\<close>
        by (simp add: frags_match_greedy add.commute add.left_commute
          del: frags_match.simps split: option.split)
    qed
    finally show ?thesis .
  qed
qed

lemma split_star_ends:
  assumes "pattern \<noteq> []" "split_on CHR ''*'' pattern = f # fs"
  shows "starts_with pattern ''*'' \<longleftrightarrow> f = []"
    and "ends_with pattern ''*'' \<longleftrightarrow> last (f # fs) = []"
    and "f = [] \<Longrightarrow> fs \<noteq> []"
proof -
  show "f = [] \<Longrightarrow> fs \<noteq> []"
    using assms join_split_on [of "CHR ''*''" pattern] by (cases fs) auto
  show "starts_with pattern ''*'' \<longleftrightarrow> f = []"
    using assms by (cases pattern) (auto split: list.splits if_splits)
  show "ends_with pattern ''*'' \<longleftrightarrow> last (f # fs) = []"
  proof (cases pattern rule: rev_cases)
    case Nil
    then show ?thesis using assms by simp
  next
    case (snoc p c)
    show ?thesis
    proof (cases "c = CHR ''*''")
      case True
      then show ?thesis using snoc assms split_on_append [of c p "[]"] by (auto simp: ends_with_iff)
    next
      case False
      have "last (split_on CHR ''*'' (p @ [c])) \<noteq> []" using False
        by (induction p) (auto split: list.splits if_splits)
      then show ?thesis using False snoc assms by (auto simp: ends_with_iff)
    qed
  qed
qed

lemma component_matches_star_match:
  assumes "pattern \<noteq> []"
  shows "component_matches pattern text \<longleftrightarrow> star_match pattern text"
proof -
  obtain f fs where split: "split_on CHR ''*'' pattern = f # fs"
    using split_on_nonempty [of "CHR ''*''" pattern] by (cases "split_on CHR ''*'' pattern") auto
  note ends = split_star_ends [OF assms split]
  have "pattern = join_with ''*'' (f # fs)"
    using join_split_on [of "CHR ''*''" pattern] split by simp
  moreover have "\<And>x. x \<in> set (f # fs) \<Longrightarrow> CHR ''*'' \<notin> set x"
    using split_on_free [of _ "CHR ''*''" pattern] split by simp
  ultimately have ref: "star_match pattern text \<longleftrightarrow> (\<exists>r. text = f @ r \<and> frags_match fs r)"
    using star_match_frags [of f fs "text"] by blast
  have loop: "fs \<noteq> [] \<Longrightarrow>
      component_loop (length fs) (f \<noteq> []) (last (f # fs) \<noteq> []) text (Suc 0) fs pos
        \<longleftrightarrow> frags_match fs (drop pos text)" for pos
    by (rule component_loop_frags) auto
  show ?thesis
    unfolding ref component_matches_def split Let_def
    using loop ends by (cases "fs = []") (auto simp: starts_with_iff simp del: frags_match.simps(2))
qed

lemma star_match_refl: "star_match t t"
  by (induction t) (auto simp: suffix_def intro!: bexI)

lemma star_match_plain: "CHR ''*'' \<notin> set p \<Longrightarrow> star_match p t \<longleftrightarrow> t = p"
  using star_match_literal [of p "[]" t] by simp

section \<open>What the segment matcher means\<close>

inductive seg_match :: "glob_seg list \<Rightarrow> string list \<Rightarrow> bool" where
  seg_done: "seg_match [] []"
| seg_across: "seg_match segs comps \<Longrightarrow> seg_match (DoubleStar # segs) (pre @ comps)"
| seg_within: "star_match p c \<Longrightarrow> seg_match segs comps \<Longrightarrow> seg_match (Comp p # segs) (c # comps)"

inductive_simps seg_match_simps [simp]:
  "seg_match [] comps"
  "seg_match (Comp p # segs) comps"

inductive_cases seg_match_DoubleStarE: "seg_match (DoubleStar # segs) comps"

lemma seg_match_DoubleStar: "seg_match (DoubleStar # segs) comps \<longleftrightarrow> (\<exists>u v. comps = u @ v \<and> seg_match segs v)"
  by (blast elim: seg_match_DoubleStarE intro: seg_across)

definition nonempty_comps :: "glob_seg list \<Rightarrow> bool" where
  "nonempty_comps segs \<longleftrightarrow> Comp [] \<notin> set segs"

lemma match_segs_iff: "nonempty_comps segs \<Longrightarrow> match_segs segs comps \<longleftrightarrow> seg_match segs comps"
proof (induction segs comps rule: match_segs.induct)
  case (1 comps)
  then show ?case by simp
next
  case (2 rest comps)
  have ne: "nonempty_comps rest" using "2.prems" by (simp add: nonempty_comps_def)
  show ?case
  proof (cases comps)
    case Nil
    then show ?thesis using "2.IH"(1) [OF ne] by (simp add: seg_match_DoubleStar)
  next
    case (Cons c tail)
    have "seg_match (DoubleStar # rest) (c # tail) \<longleftrightarrow>
        seg_match rest (c # tail) \<or> seg_match (DoubleStar # rest) tail"
      by (auto simp: seg_match_DoubleStar Cons_eq_append_conv)
    then show ?thesis
      using Cons "2.IH"(1) [OF ne] "2.IH"(2) [OF _ Cons "2.prems"] by auto
  qed
next
  case (3 p rest comps)
  have "p \<noteq> []" "nonempty_comps rest" using "3.prems" by (auto simp: nonempty_comps_def)
  then show ?case
    using "3.IH" by (auto simp: component_matches_star_match split: list.splits)
qed

lemma path_glob_parse_nonempty: "path_glob_parse spec = Inr g \<Longrightarrow> nonempty_comps (segments g)"
  by (auto simp: path_glob_parse_def res_bind_Inr_iff nonempty_comps_def components_def split: if_splits)

section \<open>What a compiled glob matches\<close>

lemma starts_with_drop: "starts_with xs b \<and> P (drop (length b) xs) \<longleftrightarrow> (\<exists>rest. xs = b @ rest \<and> P rest)"
  by (auto simp: starts_with_iff)

lemma take_literals_Some_iff: "take_literals ls comps = Some rest \<longleftrightarrow> comps = ls @ rest"
  by (induction ls comps rule: take_literals.induct) auto

lemma literal_prefix_Some_iff: "literal_prefix segs = Some ls \<longleftrightarrow> segs = map Comp ls"
  by (induction segs arbitrary: ls rule: literal_prefix.induct) auto

lemma seg_match_literals: "seg_match segs rest \<Longrightarrow> seg_match (map Comp ls @ segs) (ls @ rest)"
  by (induction ls) (auto simp: star_match_refl)

lemma seg_match_fixed_prefix: "seg_match segs comps \<Longrightarrow> \<exists>rest. comps = fixed_prefix segs @ rest"
  by (induction rule: seg_match.induct) (auto simp: star_match_plain)

lemma zip_common_prefix: "xs @ us = ys @ vs \<Longrightarrow> (x, y) \<in> set (zip xs ys) \<Longrightarrow> x = y"
  by (induction xs arbitrary: ys) (auto simp: Cons_eq_append_conv)

lemma glob_matches_Inr_iff:
  assumes "nonempty_comps (segments g)"
  shows "glob_matches g (Utf8 path) home = Inr True \<longleftrightarrow>
     (\<exists>b rest. base g home = Inr b \<and> components path = b @ rest \<and> seg_match (segments g) rest)"
  using match_segs_iff [OF assms] starts_with_drop [of "components path" _ "match_segs (segments g)"]
  by (auto simp: glob_matches_def res_bind_Inr_iff Let_def)

lemma covers_subtree_matches:
  assumes "nonempty_comps (segments g)" "covers_subtree g root home = Inr True"
    and "components path = components root @ below"
  shows "glob_matches g (Utf8 path) home = Inr True"
proof -
  obtain b rest lits rest' where b: "base g home = Inr b"
    and star: "segments g \<noteq> []" "last (segments g) = DoubleStar"
    and root: "components root = b @ rest" "rest = lits @ rest'"
    and pre: "butlast (segments g) = map Comp lits"
    using assms(2)
    by (auto simp: covers_subtree_def res_bind_Inr_iff take_literals_Some_iff literal_prefix_Some_iff
        split: if_splits option.splits)
  have segs: "segments g = map Comp lits @ [DoubleStar]"
    using star pre append_butlast_last_id [of "segments g"] by simp
  have "seg_match [DoubleStar] (rest' @ below)"
    using seg_across [OF seg_done, of "rest' @ below"] by simp
  then have "seg_match (segments g) (lits @ rest' @ below)"
    unfolding segs by (rule seg_match_literals)
  then show ?thesis
    using glob_matches_Inr_iff [OF assms(1)] b root assms(3) by auto
qed

lemma matches_may_intersect:
  assumes "nonempty_comps (segments g)" "glob_matches g (Utf8 path) home = Inr True"
    and "components path = components root @ below"
  shows "may_intersect_subtree g root home = Inr True"
proof -
  obtain b rest where b: "base g home = Inr b" "components path = b @ rest"
    and m: "seg_match (segments g) rest"
    using glob_matches_Inr_iff [OF assms(1)] assms(2) by auto
  obtain rest' where "rest = fixed_prefix (segments g) @ rest'"
    using seg_match_fixed_prefix [OF m] by blast
  then have "(b @ fixed_prefix (segments g)) @ rest' = components root @ below"
    using b assms(3) by simp
  from zip_common_prefix [OF this] show ?thesis
    using b(1) by (auto simp: may_intersect_subtree_def)
qed

lemma covers_may_intersect:
  assumes "nonempty_comps (segments g)" "covers_subtree g root home = Inr True"
  shows "may_intersect_subtree g root home = Inr True"
  using matches_may_intersect [OF assms(1) covers_subtree_matches [OF assms, of root "[]"]] by simp

text \<open>
  C10. Glob matching: a pattern accepted by \<open>PathGlob::parse\<close> matches a path exactly when the
  path's components are the base components (none for a root-anchored pattern, the bound
  home's for \<open>~\<close>) followed by components the segment list describes, where \<open>**\<close> stands for
  any run of components including the empty one and a star inside a component stands for any
  run of bytes. The greedy left-to-right scanner loses and adds no match.
\<close>

theorem glob_matches_reference:
  assumes "path_glob_parse spec = Inr g"
  shows "glob_matches g (Utf8 path) home = Inr True \<longleftrightarrow>
     (\<exists>b rest. base g home = Inr b \<and> components path = b @ rest \<and> seg_match (segments g) rest)"
  by (rule glob_matches_Inr_iff [OF path_glob_parse_nonempty [OF assms]])

lemma parse_json_glob:
  "path_glob_parse ''~/**/*.json'' = Inr \<lparr>anchor = Home, segments = [DoubleStar, Comp ''*.json'']\<rparr>"
  by code_simp

theorem glob_matches_reference_witness:
  "glob_matches \<lparr>anchor = Home, segments = [DoubleStar, Comp ''*.json'']\<rparr>
     (Utf8 ''/home/op/a/b.json'') (Some (Utf8 ''/home/op'')) = Inr True
   \<and> (\<exists>b rest. base \<lparr>anchor = Home, segments = [DoubleStar, Comp ''*.json'']\<rparr> (Some (Utf8 ''/home/op'')) = Inr b
        \<and> components ''/home/op/a/b.json'' = b @ rest \<and> seg_match [DoubleStar, Comp ''*.json''] rest)"
proof -
  have m: "glob_matches \<lparr>anchor = Home, segments = [DoubleStar, Comp ''*.json'']\<rparr>
     (Utf8 ''/home/op/a/b.json'') (Some (Utf8 ''/home/op'')) = Inr True"
    by code_simp
  then show ?thesis
    using glob_matches_reference [OF parse_json_glob, of "''/home/op/a/b.json''" "Some (Utf8 ''/home/op'')"]
    by simp
qed

end
