(* ===== verification/Bindings.thy ===== *)
theory Bindings
  imports Config
begin

text \<open>
  Identity bindings: the \<^verbatim>\<open>bindings.yaml\<close> grammar and its role rules
  (\<^verbatim>\<open>crates/maknae-config/src/bindings.rs\<close>), the four shipped roles
  (\<^verbatim>\<open>crates/maknae-authz-basic/src/role.rs\<close>), and the resolution of a bindings file against
  the account database into one role per uid (\<^verbatim>\<open>binding.rs\<close>). The YAML scanner and the float
  printer are the arguments \<open>load\<close> and \<open>ft\<close>.
\<close>

section \<open>Roles\<close>

datatype role = Admin | User | Guest | Adversary

fun role_key :: "role \<Rightarrow> string" where
  "role_key Admin = ''admin''"
| "role_key User = ''user''"
| "role_key Guest = ''guest''"
| "role_key Adversary = ''adversary''"

definition role_from_key :: "string \<Rightarrow> role option" where
  "role_from_key k =
     (if k = ''admin'' then Some Admin
      else if k = ''user'' then Some User
      else if k = ''guest'' then Some Guest
      else if k = ''adversary'' then Some Adversary
      else None)"

lemma role_from_key_key [simp]: "role_from_key (role_key r) = Some r"
  by (cases r) (simp_all add: role_from_key_def)

lemma role_from_key_Some_iff: "role_from_key k = Some r \<longleftrightarrow> k = role_key r"
  by (cases r) (auto simp: role_from_key_def)

lemma role_key_inj [simp]: "role_key r = role_key s \<longleftrightarrow> r = s"
  by (cases r; cases s) simp_all

section \<open>The bindings file\<close>

definition BINDING_ROLES :: "string list" where
  "BINDING_ROLES = [''admin'', ''user'', ''guest'', ''adversary'']"

datatype binding_entry = Name string | Uid u32

fun render_entry :: "binding_entry \<Rightarrow> string" where
  "render_entry (Name n) = n"
| "render_entry (Uid u) = ''uid:'' @ show_u32 u"

record bindings =
  b_roles :: "(string, binding_entry list) btree option"
  b_section :: "string option"
  b_missing :: bool

definition bindings_absent :: bindings where
  "bindings_absent = \<lparr>b_roles = None, b_section = None, b_missing = False\<rparr>"

definition bindings_missing :: bindings where
  "bindings_missing = \<lparr>b_roles = None, b_section = None, b_missing = True\<rparr>"

definition lists_nobody :: "bindings \<Rightarrow> bool" where
  "lists_nobody b = (case b_roles b of None \<Rightarrow> False | Some m \<Rightarrow> list_all (\<lambda>(_, es). es = []) m)"

definition yaml :: "string \<Rightarrow> bindings_error" where
  "yaml m = BnYaml m"

datatype fault_kind = FEmpty | FColon | FComma | FControl

definition name_fault :: "string \<Rightarrow> fault_kind option" where
  "name_fault s =
     (if s = [] then Some FEmpty
      else if CHR '':'' \<in> set s then Some FColon
      else if CHR '','' \<in> set s then Some FComma
      else if has_control s then Some FControl
      else None)"

definition u32_max :: u32 where
  "u32_max = 4294967295"

text \<open>A backquote and a quote cannot be written in a string literal.\<close>

definition bq :: "string \<Rightarrow> string" where
  "bq s = [char_of (96::nat)] @ s @ [char_of (96::nat)]"

definition binding_entry_of :: "config_value \<Rightarrow> bindings_error + binding_entry" where
  "binding_entry_of v =
     (case v of
        VStr s \<Rightarrow>
          (case name_fault s of
             None \<Rightarrow> Inr (Name s)
           | Some FEmpty \<Rightarrow> Inl (yaml ''an empty name binds nobody; remove it'')
           | Some FColon \<Rightarrow>
               Inl (yaml (''a name cannot contain '' @ quoted '':'' @ ''; write '' @ bq ''uid: 7''
                 @ '' for a numeric uid''))
           | Some FComma \<Rightarrow> Inl (yaml (''a name cannot contain '' @ quoted '',''))
           | Some FControl \<Rightarrow> Inl (yaml ''a name cannot contain a control character''))
      | VMap m \<Rightarrow>
          (case m of
             [(k, VInt n)] \<Rightarrow>
               if k = ''uid''
               then (case i64_to_u32 n of
                       Some u \<Rightarrow>
                         if u \<noteq> u32_max then Inr (Uid u)
                         else Inl (yaml (''a '' @ bq ''uid:'' @ '' entry is a whole number from 0 to 4294967294''))
                     | None \<Rightarrow>
                         Inl (yaml (''a '' @ bq ''uid:'' @ '' entry is a whole number from 0 to 4294967294'')))
               else Inl (yaml (''a map entry is exactly '' @ bq ''uid: <0..4294967294>''))
           | _ \<Rightarrow> Inl (yaml (''a map entry is exactly '' @ bq ''uid: <0..4294967294>'')))
      | VInt _ \<Rightarrow> Inl (yaml (''quote every name; write '' @ bq ''uid: <n>'' @ '' for a numeric uid''))
      | _ \<Rightarrow> Inl (yaml (''bindings entries are quoted names or '' @ bq ''uid: <n>'')))"

definition role_members :: "string \<times> config_value \<Rightarrow> bindings_error + (string \<times> binding_entry list)" where
  "role_members rm =
     (case rm of (role, members) \<Rightarrow>
        (case members of
           VSeq items \<Rightarrow> res_bind (collect_res binding_entry_of items) (\<lambda>es. Inr (role, es))
         | _ \<Rightarrow> Inl (yaml (''a bindings member list must be a sequence (write '' @ bq ''role: []''
                   @ '' for empty)''))))"

definition section_roles :: "config_value \<Rightarrow> bindings_error + (string, binding_entry list) btree" where
  "section_roles sect =
     (case sect of
        VMap by_role \<Rightarrow> res_bind (collect_res role_members by_role) (\<lambda>rs. Inr (bt_of_list rs))
      | _ \<Rightarrow> Inl (yaml ''the bindings section must be a map of role to member list''))"

definition parse_bindings ::
  "(string \<Rightarrow> config_error + config_value) \<Rightarrow> (u64 \<Rightarrow> string) \<Rightarrow> string \<Rightarrow> bindings_error + bindings" where
  "parse_bindings load ft body =
     res_bind (map_err (\<lambda>e. BnYaml (config_error_display e)) (load body)) (\<lambda>root.
     case root of
       VMap m \<Rightarrow>
         res_bind (map_err BnConfig
           (reject_unknown_keys ''bindings.yaml'' m [''schema_version'', ''bindings''])) (\<lambda>_.
         res_bind
           (case map_get m ''schema_version'' of
              Some (VInt n) \<Rightarrow> if n = 1 then Inr () else Inl (BnUnknownSchemaVersion n)
            | _ \<Rightarrow> Inl (BnUnknownSchemaVersion 0)) (\<lambda>_.
         case map_get m ''bindings'' of
           None \<Rightarrow> Inr bindings_absent
         | Some sect \<Rightarrow>
             res_bind (section_roles sect) (\<lambda>roles.
             Inr \<lparr>b_roles = Some roles, b_section = Some (canonical_json ft sect),
                  b_missing = False\<rparr>)))
     | _ \<Rightarrow> Inl (yaml ''the bindings.yaml root must be a mapping''))"

section \<open>Role rules\<close>

datatype role_rule_error =
    UnknownRole string
  | Duplicate string
  | UidOutsideAdversary string

definition adversary_index :: nat where
  "adversary_index = length BINDING_ROLES - 1"

fun is_uid_entry :: "binding_entry \<Rightarrow> bool" where
  "is_uid_entry (Uid _) = True"
| "is_uid_entry (Name _) = False"

fun check_entries :: "string \<Rightarrow> nat \<Rightarrow> string list \<Rightarrow> binding_entry list \<Rightarrow> role_rule_error + unit" where
  "check_entries key idx seen [] = Inr ()"
| "check_entries key idx seen (e # es) =
     (if render_entry e \<in> set seen then Inl (Duplicate (render_entry e))
      else if is_uid_entry e \<and> idx \<noteq> adversary_index then Inl (UidOutsideAdversary key)
      else check_entries key idx (render_entry e # seen) es)"

definition checked_role ::
  "string \<times> binding_entry list \<Rightarrow> role_rule_error + (nat \<times> binding_entry list)" where
  "checked_role ke =
     (case ke of (key, entries) \<Rightarrow>
        res_bind (ok_or (UnknownRole key) (position (\<lambda>r. r = key) BINDING_ROLES)) (\<lambda>idx.
        res_bind (check_entries key idx [] entries) (\<lambda>_. Inr (idx, entries))))"

definition checked_roles :: "bindings \<Rightarrow> role_rule_error + (nat \<times> binding_entry list) list" where
  "checked_roles b = (case b_roles b of None \<Rightarrow> Inr [] | Some m \<Rightarrow> collect_res checked_role m)"

datatype effective = Bound nat | Contained | Unbound

definition effective_role :: "nat list \<Rightarrow> effective option" where
  "effective_role roles =
     (case roles of
        [] \<Rightarrow> None
      | first # _ \<Rightarrow>
          Some (if adversary_index \<in> set roles then Contained
                else if list_all (\<lambda>r. r = first) roles then Bound first
                else Unbound))"

type_synonym held_by = "(u32, (nat \<times> binding_entry) list) btree"

definition hold_one ::
  "(binding_entry \<Rightarrow> u32 option) \<Rightarrow> nat \<times> binding_entry
    \<Rightarrow> held_by \<times> (nat \<times> binding_entry) list \<Rightarrow> held_by \<times> (nat \<times> binding_entry) list" where
  "hold_one uid_of ie acc =
     (case acc of (held, unresolved) \<Rightarrow>
        case uid_of (snd ie) of
          Some u \<Rightarrow> (bt_entry u [] (\<lambda>es. es @ [ie]) held, unresolved)
        | None \<Rightarrow> (held, unresolved @ [ie]))"

definition subjects_by_uid ::
  "(nat \<times> binding_entry list) list \<Rightarrow> (binding_entry \<Rightarrow> u32 option)
    \<Rightarrow> held_by \<times> (nat \<times> binding_entry) list" where
  "subjects_by_uid roles uid_of =
     fold (\<lambda>(idx, entries). fold (\<lambda>e. hold_one uid_of (idx, e)) entries) roles ([], [])"

definition check_roles :: "bindings \<Rightarrow> role_rule_error + unit" where
  "check_roles b = res_bind (checked_roles b) (\<lambda>_. Inr ())"

section \<open>Resolution against the account database\<close>

type_synonym uid_map = "(string, u32) btree"

definition ROLE_ORDER :: "role list" where
  "ROLE_ORDER = [Admin, User, Guest, Adversary]"

datatype identity_problem =
    PUnresolved string string
  | PUnresolvedAdversary string
  | PContained u32 "string list" "string list"
  | PUnbound u32 "string list" "string list"
  | PCarriedForward u32 string "(string \<times> string) list"
  | PReleased u32 string string
  | PPrincipalAdmin u32

fun problem_kind :: "identity_problem \<Rightarrow> string" where
  "problem_kind (PUnresolved _ _) = ''unresolved''"
| "problem_kind (PUnresolvedAdversary _) = ''unresolved_adversary''"
| "problem_kind (PContained _ _ _) = ''contained''"
| "problem_kind (PUnbound _ _ _) = ''unbound_conflict''"
| "problem_kind (PCarriedForward _ _ _) = ''carried_forward''"
| "problem_kind (PReleased _ _ _) = ''released''"
| "problem_kind (PPrincipalAdmin _) = ''principal_admin''"

fun problem_uid :: "identity_problem \<Rightarrow> u32 option" where
  "problem_uid (PUnresolved _ _) = None"
| "problem_uid (PUnresolvedAdversary _) = None"
| "problem_uid (PContained uid _ _) = Some uid"
| "problem_uid (PUnbound uid _ _) = Some uid"
| "problem_uid (PCarriedForward uid _ _) = Some uid"
| "problem_uid (PReleased uid _ _) = Some uid"
| "problem_uid (PPrincipalAdmin uid) = Some uid"

fun problem_names :: "identity_problem \<Rightarrow> string list" where
  "problem_names (PUnresolved _ name) = [name]"
| "problem_names (PUnresolvedAdversary name) = [name]"
| "problem_names (PContained _ names _) = names"
| "problem_names (PUnbound _ names _) = names"
| "problem_names (PCarriedForward _ name overrides) = name # map fst overrides"
| "problem_names (PReleased _ name _) = [name]"
| "problem_names (PPrincipalAdmin _) = []"

fun problem_roles :: "identity_problem \<Rightarrow> string list" where
  "problem_roles (PUnresolved role _) = [role]"
| "problem_roles (PUnresolvedAdversary _) = [''adversary'']"
| "problem_roles (PContained _ _ roles) = roles"
| "problem_roles (PUnbound _ _ roles) = roles"
| "problem_roles (PCarriedForward _ _ overrides) = ''adversary'' # map snd overrides"
| "problem_roles (PReleased _ _ _) = [''adversary'']"
| "problem_roles (PPrincipalAdmin _) = [role_key Admin]"

record resolved =
  subjects :: "(u32 \<times> role \<times> string) list"
  problems :: "identity_problem list"
  adversary_names :: "(string, u32) btree"

definition uid_of_entry :: "uid_map \<Rightarrow> binding_entry \<Rightarrow> u32 option" where
  "uid_of_entry lookup e = (case e of Uid u \<Rightarrow> Some u | Name n \<Rightarrow> bt_get lookup n)"

definition unresolved_problem :: "nat \<times> binding_entry \<Rightarrow> identity_problem" where
  "unresolved_problem ie =
     (case ie of (idx, e) \<Rightarrow>
        let name = render_entry e
        in (case ROLE_ORDER ! idx of
              Adversary \<Rightarrow> PUnresolvedAdversary name
            | role \<Rightarrow> PUnresolved (role_key role) name))"

definition push_unique :: "'a \<Rightarrow> 'a list \<Rightarrow> 'a list" where
  "push_unique n names = (if n \<in> set names then names else names @ [n])"

definition resolve_uid :: "u32 \<times> (nat \<times> binding_entry) list \<Rightarrow> resolved \<Rightarrow> resolved" where
  "resolve_uid ue out =
     (case ue of (uid, entries) \<Rightarrow>
        let held = map (\<lambda>(idx, e). (ROLE_ORDER ! idx, render_entry e)) entries;
            adv_names =
              fold (\<lambda>((role, name), (_, e)) m.
                      if role = Adversary \<and> \<not> is_uid_entry e then bt_insert name uid m else m)
                (zip held entries) (adversary_names out);
            roles = remdups_adj (sort (map (\<lambda>(r, _). role_key r) held));
            names = fold (\<lambda>(_, n). push_unique n) held [];
            idxs = map fst entries;
            adversary = List.find (\<lambda>(r, _). r = Adversary) held;
            out = out\<lparr>adversary_names := adv_names\<rparr>
        in (case (effective_role idxs, adversary) of
              (Some Contained, Some (_, first)) \<Rightarrow>
                let out = out\<lparr>subjects := subjects out @ [(uid, Adversary, first)]\<rparr>
                in if length roles > 1
                   then out\<lparr>problems := problems out @ [PContained uid names roles]\<rparr> else out
            | (Some (Bound _), _) \<Rightarrow>
                out\<lparr>subjects := subjects out @ [(uid, fst (held ! 0), snd (held ! 0))]\<rparr>
            | _ \<Rightarrow> out\<lparr>problems := problems out @ [PUnbound uid names roles]\<rparr>))"

definition resolve_subjects :: "bindings \<Rightarrow> uid_map \<Rightarrow> role_rule_error + resolved" where
  "resolve_subjects bindings lookup =
     res_bind (checked_roles bindings) (\<lambda>roles.
       let (by_uid, unresolved) = subjects_by_uid roles (uid_of_entry lookup);
           out = \<lparr>subjects = [], problems = map unresolved_problem unresolved, adversary_names = []\<rparr>
       in Inr (fold resolve_uid by_uid out))"

section \<open>What the role rules accept\<close>

lemma BINDING_ROLES_keys: "BINDING_ROLES = map role_key ROLE_ORDER"
  by (simp add: BINDING_ROLES_def ROLE_ORDER_def)

lemma adversary_index_eq [simp]: "adversary_index = 3"
  by (simp add: adversary_index_def BINDING_ROLES_def)

lemma less_4_iff: "(i::nat) < 4 \<longleftrightarrow> i = 0 \<or> i = 1 \<or> i = 2 \<or> i = 3"
  by auto

lemma ROLE_ORDER_nth [simp]:
  "ROLE_ORDER ! 0 = Admin" "ROLE_ORDER ! Suc 0 = User" "ROLE_ORDER ! 2 = Guest" "ROLE_ORDER ! 3 = Adversary"
  by (simp_all add: ROLE_ORDER_def)

lemma ROLE_ORDER_nth_Adversary: "i < 4 \<Longrightarrow> ROLE_ORDER ! i = Adversary \<longleftrightarrow> i = 3"
  unfolding less_4_iff by (elim disjE) simp_all

lemma ROLE_ORDER_inj: "i < 4 \<Longrightarrow> j < 4 \<Longrightarrow> ROLE_ORDER ! i = ROLE_ORDER ! j \<longleftrightarrow> i = j"
  unfolding less_4_iff by (elim disjE) simp_all

lemma BINDING_ROLES_nth: "i < 4 \<Longrightarrow> BINDING_ROLES ! i = role_key (ROLE_ORDER ! i)"
  unfolding BINDING_ROLES_keys by (rule nth_map) (simp add: ROLE_ORDER_def)

lemma position_role: "position (\<lambda>r. r = k) BINDING_ROLES = Some i \<longleftrightarrow> i < 4 \<and> k = role_key (ROLE_ORDER ! i)"
proof -
  have "distinct BINDING_ROLES" "length BINDING_ROLES = 4"
    by (simp_all add: BINDING_ROLES_def)
  then show ?thesis using BINDING_ROLES_nth by (auto simp: position_nth)
qed

lemma check_entries_Inr_iff:
  "check_entries key idx seen es = Inr u \<longleftrightarrow>
     distinct (map render_entry es) \<and> set (map render_entry es) \<inter> set seen = {}
     \<and> (idx \<noteq> 3 \<longrightarrow> list_all (\<lambda>e. \<not> is_uid_entry e) es)"
  by (induction key idx seen es rule: check_entries.induct) auto

lemma checked_role_Inr_iff:
  "checked_role (key, es) = Inr out \<longleftrightarrow>
     (\<exists>i < 4. key = role_key (ROLE_ORDER ! i) \<and> out = (i, es) \<and> distinct (map render_entry es)
        \<and> (i \<noteq> 3 \<longrightarrow> list_all (\<lambda>e. \<not> is_uid_entry e) es))"
  by (auto simp: checked_role_def res_bind_Inr_iff position_role check_entries_Inr_iff)


section \<open>What resolution yields\<close>

definition flat_roles :: "(nat \<times> binding_entry list) list \<Rightarrow> (nat \<times> binding_entry) list" where
  "flat_roles roles = concat (map (\<lambda>(i, es). map (Pair i) es) roles)"

lemma subjects_by_uid_flat: "subjects_by_uid roles f = fold (hold_one f) (flat_roles roles) ([], [])"
proof -
  have "fold (\<lambda>(idx, entries). fold (\<lambda>e. hold_one f (idx, e)) entries) roles acc
        = fold (hold_one f) (flat_roles roles) acc" for acc
  proof (induction roles arbitrary: acc)
    case Nil
    then show ?case by (simp add: flat_roles_def)
  next
    case (Cons r roles)
    have "fold (\<lambda>e. hold_one f (i, e)) es a = fold (hold_one f) (map (Pair i) es) a" for i es a
      by (simp add: fold_map comp_def)
    then show ?case using Cons by (cases r) (simp add: flat_roles_def)
  qed
  then show ?thesis unfolding subjects_by_uid_def by blast
qed

lemma hold_one_spec:
  assumes "fold (hold_one f) xs ([], []) = (held, unres)"
  shows "bt_inv held" "unres = filter (\<lambda>(_, e). f e = None) xs"
    and "bt_get held u = (let es = filter (\<lambda>(_, e). f e = Some u) xs in if es = [] then None else Some es)"
  using assms
proof (induction xs arbitrary: held unres rule: rev_induct)
  case Nil
  { case 1 then show ?case by simp }
  { case 2 then show ?case by simp }
  { case 3 then show ?case by simp }
next
  case (snoc x xs)
  obtain held' un' where prev: "fold (hold_one f) xs ([], []) = (held', un')" by fastforce
  note IH = snoc.IH(1) [OF prev] snoc.IH(2) [OF prev] snoc.IH(3) [OF prev]
  have step: "fold (hold_one f) (xs @ [x]) ([], []) = hold_one f x (held', un')" using prev by simp
  { case 1
    with step have "hold_one f x (held', un') = (held, unres)" by simp
    then show ?case using IH(1) by (auto simp: hold_one_def split: option.splits) }
  { case 2
    with step have "hold_one f x (held', un') = (held, unres)" by simp
    then show ?case using IH(2) by (cases x) (auto simp: hold_one_def split: option.splits) }
  { case 3
    with step have "hold_one f x (held', un') = (held, unres)" by simp
    then show ?case using IH(3)
      by (cases x) (auto simp: hold_one_def bt_get_entry Let_def split: option.splits if_splits) }
qed

text \<open>What one uid's entries contribute to the subject list.\<close>

definition bound_subject :: "u32 \<Rightarrow> (nat \<times> binding_entry) list \<Rightarrow> (u32 \<times> role) option" where
  "bound_subject uid entries =
     (if 3 \<in> fst ` set entries then Some (uid, Adversary)
      else if \<forall>ie\<in>set entries. fst ie = fst (hd entries) then Some (uid, ROLE_ORDER ! fst (hd entries))
      else None)"

lemma find_adversary:
  assumes "3 \<in> fst ` set entries"
  shows "\<exists>n. List.find (\<lambda>(r, _). r = Adversary)
           (map (\<lambda>(idx, e). (ROLE_ORDER ! idx, render_entry e)) entries) = Some (Adversary, n)"
  using assms by (induction entries) auto

lemma subjects_resolve_uid:
  assumes "entries \<noteq> []"
  shows "map (\<lambda>(u, r, _). (u, r)) (subjects (resolve_uid (uid, entries) out))
         = map (\<lambda>(u, r, _). (u, r)) (subjects out)
           @ (case bound_subject uid entries of None \<Rightarrow> [] | Some s \<Rightarrow> [s])"
proof (cases "3 \<in> fst ` set entries")
  case True
  have "effective_role (map fst entries) = Some Contained"
    using True assms by (cases entries) (auto simp: effective_role_def)
  then show ?thesis
    using find_adversary [OF True] True by (auto simp: resolve_uid_def Let_def bound_subject_def)
next
  case False
  obtain i e es where "entries = (i, e) # es" using assms by (cases entries) auto
  then show ?thesis
    using False
    by (auto simp: resolve_uid_def Let_def effective_role_def bound_subject_def list_all_iff)
qed

lemma subjects_fold_resolve:
  assumes "\<forall>(u, es)\<in>set by_uid. es \<noteq> []"
  shows "map (\<lambda>(u, r, _). (u, r)) (subjects (fold resolve_uid by_uid out))
         = map (\<lambda>(u, r, _). (u, r)) (subjects out)
           @ List.map_filter (\<lambda>(u, es). bound_subject u es) by_uid"
  using assms
proof (induction by_uid arbitrary: out)
  case Nil
  then show ?case by (simp add: List.map_filter_simps)
next
  case (Cons ue by_uid)
  then show ?case
    by (cases ue) (auto simp: subjects_resolve_uid List.map_filter_simps split: option.splits)
qed

text \<open>The specification: under which roles the file lists a uid.\<close>

definition listed_under :: "bindings \<Rightarrow> uid_map \<Rightarrow> u32 \<Rightarrow> role \<Rightarrow> bool" where
  "listed_under b lookup uid r =
     (case b_roles b of
        None \<Rightarrow> False
      | Some m \<Rightarrow> \<exists>(key, es)\<in>set m. key = role_key r \<and> (\<exists>e\<in>set es. uid_of_entry lookup e = Some uid))"

lemma mem_flat_roles: "(i, e) \<in> set (flat_roles roles) \<longleftrightarrow> (\<exists>es. (i, es) \<in> set roles \<and> e \<in> set es)"
  by (force simp: flat_roles_def)

lemma checked_roles_mem:
  assumes "b_roles b = Some m" "checked_roles b = Inr roles"
  shows "(i, es) \<in> set roles \<longleftrightarrow> i < 4 \<and> (role_key (ROLE_ORDER ! i), es) \<in> set m"
proof -
  have all: "list_all2 (\<lambda>x y. checked_role x = Inr y) m roles"
    using assms by (simp add: checked_roles_def collect_res_Inr_iff)
  then have mem: "(i, es) \<in> set roles \<longleftrightarrow> (\<exists>x\<in>set m. checked_role x = Inr (i, es))"
    by (induction rule: list_all2_induct) auto
  have ok: "\<exists>out. checked_role x = Inr out" if "x \<in> set m" for x
    using all that by (induction rule: list_all2_induct) auto
  show ?thesis
  proof
    assume "(i, es) \<in> set roles"
    then obtain k es' where "(k, es') \<in> set m" "checked_role (k, es') = Inr (i, es)"
      using mem by auto
    then show "i < 4 \<and> (role_key (ROLE_ORDER ! i), es) \<in> set m"
      by (auto simp: checked_role_Inr_iff)
  next
    assume i: "i < 4 \<and> (role_key (ROLE_ORDER ! i), es) \<in> set m"
    then obtain out where "checked_role (role_key (ROLE_ORDER ! i), es) = Inr out" using ok by blast
    then have "checked_role (role_key (ROLE_ORDER ! i), es) = Inr (i, es)"
      using i ROLE_ORDER_inj by (auto simp: checked_role_Inr_iff)
    then show "(i, es) \<in> set roles" using mem i by blast
  qed
qed

lemma role_index: "\<exists>i < 4. ROLE_ORDER ! i = r"
proof (cases r)
  case Admin
  then show ?thesis by (intro exI [of _ 0]) simp
next
  case User
  then show ?thesis by (intro exI [of _ 1]) simp
next
  case Guest
  then show ?thesis by (intro exI [of _ 2]) simp
next
  case Adversary
  then show ?thesis by (intro exI [of _ 3]) simp
qed

lemma listed_under_flat:
  assumes "checked_roles b = Inr roles"
  shows "listed_under b lookup uid r \<longleftrightarrow>
     (\<exists>i e. (i, e) \<in> set (flat_roles roles) \<and> uid_of_entry lookup e = Some uid \<and> ROLE_ORDER ! i = r)"
proof (cases "b_roles b")
  case None
  then show ?thesis using assms by (simp add: listed_under_def checked_roles_def flat_roles_def)
next
  case (Some m)
  show ?thesis
    using role_index [of r] by (auto simp: listed_under_def Some mem_flat_roles checked_roles_mem [OF Some assms])
qed

lemma flat_roles_index:
  assumes "checked_roles b = Inr roles" "(i, e) \<in> set (flat_roles roles)"
  shows "i < 4"
proof (cases "b_roles b")
  case None
  then show ?thesis using assms by (simp add: checked_roles_def flat_roles_def)
next
  case (Some m)
  then show ?thesis using assms checked_roles_mem [OF Some assms(1)] by (auto simp: mem_flat_roles)
qed

lemma resolved_subjects_eq:
  assumes "resolve_subjects b lookup = Inr out" "checked_roles b = Inr roles"
  defines "entries \<equiv> \<lambda>uid. filter (\<lambda>(_, e). uid_of_entry lookup e = Some uid) (flat_roles roles)"
  shows "sorted_wrt (<) (map fst (subjects out))"
    and "(\<exists>n. (uid, r, n) \<in> set (subjects out)) \<longleftrightarrow>
           entries uid \<noteq> [] \<and> bound_subject uid (entries uid) = Some (uid, r)"
proof -
  obtain by_uid unres where held: "fold (hold_one (uid_of_entry lookup)) (flat_roles roles) ([], []) = (by_uid, unres)"
    by fastforce
  note spec = hold_one_spec [OF held]
  have mem: "(u, es) \<in> set by_uid \<longleftrightarrow> es = entries u \<and> es \<noteq> []" for u es
    using bt_entries_get [OF spec(1), of u es] spec(3) [of u] by (auto simp: entries_def Let_def)
  then have ne: "\<forall>(u, es)\<in>set by_uid. es \<noteq> []" by blast
  have "subjects out = subjects (fold resolve_uid by_uid
          \<lparr>subjects = [], problems = map unresolved_problem unres, adversary_names = []\<rparr>)"
    using assms(1) held by (auto simp: resolve_subjects_def assms(2) subjects_by_uid_flat)
  then have proj: "map (\<lambda>(u, r, _). (u, r)) (subjects out)
      = List.map_filter (\<lambda>(u, es). bound_subject u es) by_uid"
    by (simp add: subjects_fold_resolve [OF ne])
  have own: "u' = u" if "bound_subject u es = Some (u', r')" for u es u' r'
    using that by (auto simp: bound_subject_def split: if_splits)
  have "(\<exists>n. (uid, r, n) \<in> set (subjects out)) \<longleftrightarrow> (uid, r) \<in> set (map (\<lambda>(u, r, _). (u, r)) (subjects out))"
    by force
  also have "\<dots> \<longleftrightarrow> (\<exists>(u, es)\<in>set by_uid. bound_subject u es = Some (uid, r))"
    unfolding proj by (force simp: mem_map_filter)
  also have "\<dots> \<longleftrightarrow> entries uid \<noteq> [] \<and> bound_subject uid (entries uid) = Some (uid, r)"
    by (auto simp: mem; metis own)
  finally show "(\<exists>n. (uid, r, n) \<in> set (subjects out)) \<longleftrightarrow>
           entries uid \<noteq> [] \<and> bound_subject uid (entries uid) = Some (uid, r)" .
  have "map fst (subjects out) = map fst (map (\<lambda>(u, r, _). (u, r)) (subjects out))"
    by (simp add: case_prod_beta')
  moreover have "sorted_wrt (<) (map fst (List.map_filter (\<lambda>(u, es). bound_subject u es) by_uid))"
    by (rule bt_inv_map_filter [OF spec(1)]) (rule own)
  ultimately show "sorted_wrt (<) (map fst (subjects out))"
    using proj by metis
qed

lemma bound_subject_iff:
  assumes "E \<noteq> []" "\<And>i e. (i, e) \<in> set E \<Longrightarrow> i < 4"
  defines "roles \<equiv> (\<lambda>(i, e). ROLE_ORDER ! i) ` set E"
  shows "bound_subject uid E = Some (uid, r) \<longleftrightarrow> r \<in> roles \<and> (r = Adversary \<or> roles = {r})"
proof -
  obtain i e E' where E: "E = (i, e) # E'" using assms(1) by (cases E) auto
  have idx: "ROLE_ORDER ! j = ROLE_ORDER ! k \<longleftrightarrow> j = k"
    if "(j, x) \<in> set E" "(k, y) \<in> set E" for j k x y
    using that assms(2) ROLE_ORDER_inj by blast
  have adv: "ROLE_ORDER ! j = Adversary \<longleftrightarrow> j = 3" if "(j, x) \<in> set E" for j x
    using that assms(2) ROLE_ORDER_nth_Adversary by blast
  show ?thesis
  proof (cases "3 \<in> fst ` set E")
    case True
    then have "Adversary \<in> roles" using adv by (force simp: roles_def)
    then show ?thesis using True by (auto simp: bound_subject_def)
  next
    case False
    then have no: "Adversary \<notin> roles" using adv by (force simp: roles_def)
    have mem: "(i, e) \<in> set E" using E by simp
    have "roles = {ROLE_ORDER ! i} \<longleftrightarrow> (\<forall>j x. (j, x) \<in> set E \<longrightarrow> ROLE_ORDER ! j = ROLE_ORDER ! i)"
      unfolding roles_def using mem by (auto intro: rev_image_eqI)
    also have "\<dots> \<longleftrightarrow> (\<forall>j x. (j, x) \<in> set E \<longrightarrow> j = i)"
      using idx mem by metis
    also have "\<dots> \<longleftrightarrow> (\<forall>ie\<in>set E. fst ie = i)"
      by (metis fst_conv prod.collapse)
    finally have same: "(\<forall>ie\<in>set E. fst ie = fst (hd E)) \<longleftrightarrow> roles = {ROLE_ORDER ! i}"
      using E by simp
    have "bound_subject uid E = Some (uid, r) \<longleftrightarrow> roles = {ROLE_ORDER ! i} \<and> r = ROLE_ORDER ! i"
      unfolding bound_subject_def same using False E by auto
    moreover have "ROLE_ORDER ! i \<in> roles" using mem unfolding roles_def by force
    ultimately show ?thesis using no by auto
  qed
qed

lemma resolve_subjects_roles:
  assumes "resolve_subjects b lookup = Inr out"
  shows "sorted_wrt (<) (map fst (subjects out))
    \<and> ((\<exists>n. (uid, r, n) \<in> set (subjects out)) \<longleftrightarrow>
         listed_under b lookup uid r
         \<and> (r = Adversary \<or> (\<forall>r'. listed_under b lookup uid r' \<longrightarrow> r' = r)))"
proof -
  obtain roles where roles: "checked_roles b = Inr roles"
    using assms by (auto simp: resolve_subjects_def res_bind_Inr_iff)
  define E where "E = filter (\<lambda>(_, e). uid_of_entry lookup e = Some uid) (flat_roles roles)"
  note sorted = resolved_subjects_eq(1) [OF assms roles]
  note eq = resolved_subjects_eq(2) [OF assms roles, of uid r, folded E_def]
  have listed: "{r. listed_under b lookup uid r} = (\<lambda>(i, e). ROLE_ORDER ! i) ` set E"
    unfolding E_def by (force simp: listed_under_flat [OF roles])
  have idx: "i < 4" if "(i, e) \<in> set E" for i e
    using that flat_roles_index [OF roles] by (auto simp: E_def)
  have "(\<exists>n. (uid, r, n) \<in> set (subjects out)) \<longleftrightarrow>
        r \<in> {r. listed_under b lookup uid r} \<and> (r = Adversary \<or> {r. listed_under b lookup uid r} = {r})"
    unfolding eq listed using bound_subject_iff [of E uid r] idx by (cases "E = []") auto
  then show ?thesis using sorted by auto
qed

text \<open>
  C11. Resolving a bindings file against the account database gives every uid at most one
  role, in uid order, and containment wins: a uid is bound to a role exactly when the file
  lists it under that role, and the role is \<open>adversary\<close> or the only role it is listed
  under. A uid under two other roles is bound to none.
\<close>

theorem resolve_subjects_containment_wins:
  assumes "resolve_subjects b lookup = Inr out"
  shows "sorted_wrt (<) (map fst (subjects out))
    \<and> ((\<exists>n. (uid, r, n) \<in> set (subjects out)) \<longleftrightarrow>
         listed_under b lookup uid r
         \<and> (r = Adversary \<or> (\<forall>r'. listed_under b lookup uid r' \<longrightarrow> r' = r)))"
  by (rule resolve_subjects_roles [OF assms])

definition sample_bindings :: bindings where
  "sample_bindings =
     \<lparr>b_roles = Some (bt_of_list
        [(''admin'', [Name ''alice'', Name ''mallory'']), (''user'', [Name ''bob'']),
         (''guest'', [Name ''bob'']), (''adversary'', [Uid 7])]),
      b_section = None, b_missing = False\<rparr>"

definition sample_uids :: uid_map where
  "sample_uids = bt_of_list [(''alice'', 5), (''bob'', 6), (''mallory'', 7)]"

lemma sample_resolves:
  "resolve_subjects sample_bindings sample_uids = Inr
     \<lparr>subjects = [(5, Admin, ''alice''), (7, Adversary, ''uid:7'')],
      problems = [PUnbound 6 [''bob''] [''guest'', ''user''],
                  PContained 7 [''mallory'', ''uid:7''] [''admin'', ''adversary'']],
      adversary_names = []\<rparr>"
  by code_simp

theorem resolve_subjects_containment_wins_witness:
  "(\<exists>n. (7, Adversary, n) \<in> set [(5, Admin, ''alice''), (7 :: u32, Adversary, ''uid:7'')])
   \<and> listed_under sample_bindings sample_uids 7 Admin
   \<and> listed_under sample_bindings sample_uids 7 Adversary"
proof -
  have "listed_under sample_bindings sample_uids 7 Admin" by code_simp
  then show ?thesis
    using resolve_subjects_containment_wins [OF sample_resolves, of 7 Adversary] by auto
qed

end
