(* ===== verification/Policy.thy ===== *)
theory Policy
  imports Glob Bindings
begin

text \<open>
  The capability-grant policy, \<^verbatim>\<open>crates/maknae-config/src/authz.rs\<close>: the parsed schema, the
  three-way path evaluation with its per-subject floor, the write-subtree evaluation, and the
  grammar of \<^verbatim>\<open>authz.yaml\<close>. The YAML scanner and the float printer are the arguments \<open>load\<close>
  and \<open>ft\<close>.
\<close>

section \<open>The schema\<close>

datatype pattern = PRead path_glob | PWrite path_glob

datatype action_pattern = Exact string | Family string

record raw_destinations =
  rd_allow :: "string list"

record raw_action_grants =
  ag_allow :: "action_pattern list"
  ag_deny :: "action_pattern list"

record model_ref =
  m_provider :: string
  m_model :: string

record subject_permissions =
  sp_allow :: "pattern list"
  sp_deny :: "pattern list"
  sp_allow_sources :: "string list"
  sp_deny_sources :: "string list"

record subject_actions =
  sa_allow :: "action_pattern list"
  sa_deny :: "action_pattern list"

record subject_policy =
  s_permissions :: "subject_permissions option"
  s_actions :: "subject_actions option"
  s_models :: "model_ref list option"

record authz_policy =
  allow :: "pattern list"
  deny :: "pattern list"
  action_grants :: "(string, raw_action_grants) btree"
  destinations :: "(string, raw_destinations) btree"
  policy_subjects :: "(string, subject_policy) btree"
  allow_sources :: "string list"
  deny_sources :: "string list"
  sections :: "(string, string) btree"

datatype match3 = AllowMatch string | DenyMatch string | NoMatch

datatype path_request = ReqRead rpath | ReqWrite rpath

section \<open>Path evaluation\<close>

fun glob_for :: "pattern \<Rightarrow> path_request \<Rightarrow> (path_glob \<times> rpath) option" where
  "glob_for (PRead g) (ReqRead p) = Some (g, p)"
| "glob_for (PWrite g) (ReqWrite p) = Some (g, p)"
| "glob_for _ _ = None"

definition matches_req :: "pattern \<Rightarrow> path_request \<Rightarrow> rpath option \<Rightarrow> home_unbound + bool" where
  "matches_req pat req home =
     (case glob_for pat req of None \<Rightarrow> Inr False | Some (g, p) \<Rightarrow> glob_matches g p home)"

record sourced_list =
  patterns :: "pattern list"
  sources :: "string list"

definition source_of :: "sourced_list \<Rightarrow> nat \<Rightarrow> string \<Rightarrow> string" where
  "source_of l i kind =
     (case nth_opt (sources l) i of Some s \<Rightarrow> s | None \<Rightarrow> ''<unknown '' @ kind @ '' entry>'')"

definition flatten :: "'a option list \<Rightarrow> 'a list" where
  "flatten xs = List.map_filter (\<lambda>x. x) xs"

definition unbound_home ::
  "rpath option \<Rightarrow> sourced_list option list \<Rightarrow> sourced_list \<Rightarrow> (pattern \<Rightarrow> bool) \<Rightarrow> bool" where
  "unbound_home home denies allows wants \<longleftrightarrow>
     home = None \<and> list_ex wants (concat (map patterns (flatten denies @ [allows])))"

definition lists ::
  "authz_policy \<Rightarrow> subject_permissions option \<Rightarrow> sourced_list option list \<times> sourced_list" where
  "lists pol subject =
     (let site_deny = \<lparr>patterns = deny pol, sources = deny_sources pol\<rparr>
      in (case subject of
            None \<Rightarrow>
              ([Some site_deny, None], \<lparr>patterns = allow pol, sources = allow_sources pol\<rparr>)
          | Some s \<Rightarrow>
              ([Some site_deny, Some \<lparr>patterns = sp_deny s, sources = sp_deny_sources s\<rparr>],
               \<lparr>patterns = sp_allow s, sources = sp_allow_sources s\<rparr>)))"

text \<open>The nested loops: every list in order, every entry in order, stopping at the first hit.\<close>

fun scan_entries ::
  "(pattern \<Rightarrow> home_unbound + bool) \<Rightarrow> nat \<Rightarrow> pattern list \<Rightarrow> home_unbound + nat option" where
  "scan_entries hit i [] = Inr None"
| "scan_entries hit i (p # ps) =
     res_bind (hit p) (\<lambda>b. if b then Inr (Some i) else scan_entries hit (Suc i) ps)"

fun scan_lists ::
  "(pattern \<Rightarrow> home_unbound + bool) \<Rightarrow> string \<Rightarrow> sourced_list list \<Rightarrow> home_unbound + string option" where
  "scan_lists hit kind [] = Inr None"
| "scan_lists hit kind (l # ls) =
     res_bind (scan_entries hit 0 (patterns l)) (\<lambda>r.
       case r of Some i \<Rightarrow> Inr (Some (source_of l i kind)) | None \<Rightarrow> scan_lists hit kind ls)"

definition two_phase ::
  "(pattern \<Rightarrow> home_unbound + bool) \<Rightarrow> (pattern \<Rightarrow> home_unbound + bool)
    \<Rightarrow> sourced_list list \<Rightarrow> sourced_list \<Rightarrow> home_unbound + match3" where
  "two_phase deny_hit allow_hit denies allows =
     res_bind (scan_lists deny_hit ''deny'' denies) (\<lambda>d.
       case d of
         Some src \<Rightarrow> Inr (DenyMatch src)
       | None \<Rightarrow>
           res_bind (scan_lists allow_hit ''allow'' [allows]) (\<lambda>a.
             case a of Some src \<Rightarrow> Inr (AllowMatch src) | None \<Rightarrow> Inr NoMatch))"

definition evaluate3_floored ::
  "authz_policy \<Rightarrow> subject_permissions option \<Rightarrow> path_request \<Rightarrow> rpath option
    \<Rightarrow> home_unbound + match3" where
  "evaluate3_floored pol subject req home0 =
     (let home = valid_home home0;
          (denies, allows) = lists pol subject;
          hit = (\<lambda>p. matches_req p req home)
      in if unbound_home home denies allows
              (\<lambda>p. case glob_for p req of Some (g, _) \<Rightarrow> is_home g | None \<Rightarrow> False)
         then Inl HomeUnbound
         else two_phase hit hit (flatten denies) allows)"

definition evaluate3 :: "authz_policy \<Rightarrow> path_request \<Rightarrow> rpath option \<Rightarrow> home_unbound + match3" where
  "evaluate3 pol req home = evaluate3_floored pol None req home"

fun write_glob :: "pattern \<Rightarrow> path_glob option" where
  "write_glob (PWrite g) = Some g"
| "write_glob (PRead _) = None"

definition subtree_hit ::
  "(path_glob \<Rightarrow> string \<Rightarrow> rpath option \<Rightarrow> home_unbound + bool) \<Rightarrow> string \<Rightarrow> rpath option
    \<Rightarrow> pattern \<Rightarrow> home_unbound + bool" where
  "subtree_hit test root home p = (case write_glob p of None \<Rightarrow> Inr False | Some g \<Rightarrow> test g root home)"

definition subtree_root_ok :: "string \<Rightarrow> bool" where
  "subtree_root_ok root \<longleftrightarrow>
     starts_with root ''/'' \<and> char_of (0::nat) \<notin> set root
     \<and> (root = ''/'' \<or> list_all (\<lambda>c. c \<notin> {[], ''.'', ''..''}) (split_on CHR ''/'' (drop 1 root)))"

definition evaluate_write_subtree_floored ::
  "authz_policy \<Rightarrow> subject_permissions option \<Rightarrow> rpath \<Rightarrow> rpath option \<Rightarrow> home_unbound + match3" where
  "evaluate_write_subtree_floored pol subject root home0 =
     (case to_str root of
        None \<Rightarrow> Inr NoMatch
      | Some t \<Rightarrow>
          if \<not> subtree_root_ok t then Inr NoMatch
          else
            (let home = valid_home home0;
                 (denies, allows) = lists pol subject
             in if unbound_home home denies allows
                     (\<lambda>p. case write_glob p of Some g \<Rightarrow> is_home g | None \<Rightarrow> False)
                then Inl HomeUnbound
                else two_phase (subtree_hit may_intersect_subtree t home)
                       (subtree_hit covers_subtree t home) (flatten denies) allows))"

definition evaluate_write_subtree :: "authz_policy \<Rightarrow> rpath \<Rightarrow> rpath option \<Rightarrow> home_unbound + match3" where
  "evaluate_write_subtree pol root home = evaluate_write_subtree_floored pol None root home"

section \<open>The grammar of \<^verbatim>\<open>authz.yaml\<close>\<close>

definition destination_entry_is_acceptable :: "string \<Rightarrow> bool" where
  "destination_entry_is_acceptable entry =
     (case strip_prefix entry ''provider:'' of
        None \<Rightarrow> False
      | Some name \<Rightarrow> provider_name_is_acceptable name)"

definition segment_ok :: "string \<Rightarrow> bool" where
  "segment_ok seg \<longleftrightarrow>
     seg \<noteq> [] \<and> list_all (\<lambda>b. is_ascii_lowercase b \<or> is_ascii_digit b \<or> b = CHR ''_'') seg"

definition action_pattern_parse :: "string \<Rightarrow> authz_error + action_pattern" where
  "action_pattern_parse s =
     (case strip_suffix s ''.*'' of
        Some family \<Rightarrow> if segment_ok family then Inr (Family family) else Inl (AzBadPattern s)
      | None \<Rightarrow>
          if CHR ''.'' \<in> set s \<and> list_all segment_ok (split_on CHR ''.'' s) then Inr (Exact s)
          else Inl (AzBadPattern s))"

fun action_pattern_source :: "action_pattern \<Rightarrow> string" where
  "action_pattern_source (Exact t) = t"
| "action_pattern_source (Family f) = f @ ''.*''"

definition model_ref_parse :: "string \<Rightarrow> authz_error + model_ref" where
  "model_ref_parse s =
     (case split_once CHR ''/'' s of
        Some (provider, model) \<Rightarrow>
          if provider_name_is_acceptable provider \<and> model_is_acceptable model
          then Inr \<lparr>m_provider = provider, m_model = model\<rparr>
          else Inl (AzYaml (''subjects: model '' @ bq s @ '' is not '' @ bq ''<provider>/<model>''))
      | None \<Rightarrow> Inl (AzYaml (''subjects: model '' @ bq s @ '' is not '' @ bq ''<provider>/<model>'')))"

definition as_resource :: "model_ref \<Rightarrow> string" where
  "as_resource m = m_provider m @ ''/'' @ m_model m"

definition check_known_keys ::
  "string \<Rightarrow> (string \<times> config_value) list \<Rightarrow> string list \<Rightarrow> authz_error + unit" where
  "check_known_keys level m allowed = map_err AzConfig (reject_unknown_keys level m allowed)"

definition parse_pattern :: "string \<Rightarrow> authz_error + pattern" where
  "parse_pattern spec =
     res_bind (ok_or (AzBadPattern spec) (find_sub spec ''('')) (\<lambda>open.
     if \<not> ends_with spec '')'' then Inl (AzBadPattern spec)
     else
       (let capability = take open spec;
            inner = drop (open + 1) (take (length spec - 1) spec)
        in if capability = ''Read'' then res_bind (path_glob_parse inner) (\<lambda>g. Inr (PRead g))
           else if capability = ''Write'' then res_bind (path_glob_parse inner) (\<lambda>g. Inr (PWrite g))
           else Inl (AzBadPattern spec)))"

text \<open>The four list readers share one shape: a sequence whose every entry is a string.\<close>

definition string_item :: "string \<Rightarrow> config_value \<Rightarrow> authz_error + string" where
  "string_item msg item = (case item of VStr s \<Rightarrow> Inr s | _ \<Rightarrow> Inl (AzYaml msg))"

definition str_seq :: "config_value \<Rightarrow> authz_error + string list" where
  "str_seq v =
     (case v of
        VSeq items \<Rightarrow> collect_res (string_item ''permissions list entries must be strings'') items
      | _ \<Rightarrow> Inl (AzYaml ''permissions list must be a sequence''))"

definition destination_list :: "config_value \<Rightarrow> authz_error + string list" where
  "destination_list v =
     (case v of
        VSeq items \<Rightarrow>
          collect_res (string_item
            ''destinations allow entries must be strings (quote every entry; #172)'') items
      | _ \<Rightarrow> Inl (AzYaml (''destinations allow list must be a sequence (write '' @ bq ''allow: []''
                @ '' for empty)'')))"

definition roles_term :: "config_value \<Rightarrow> authz_error + action_pattern" where
  "roles_term item =
     (case item of
        VStr s \<Rightarrow> action_pattern_parse s
      | _ \<Rightarrow> Inl (AzYaml ''roles action entries must be strings (quote every term; #162)''))"

definition roles_term_list :: "config_value \<Rightarrow> authz_error + action_pattern list" where
  "roles_term_list v =
     (case v of
        VSeq items \<Rightarrow> collect_res roles_term items
      | _ \<Rightarrow> Inl (AzYaml (''roles action list must be a sequence (write '' @ bq ''allow: []''
                @ '' for empty)'')))"

definition subject_list :: "config_value \<Rightarrow> string \<Rightarrow> authz_error + string list" where
  "subject_list v what =
     (case v of
        VSeq items \<Rightarrow>
          collect_res (string_item
            (''subjects: '' @ what @ '' entries must be strings (quote every entry; #608)'')) items
      | _ \<Rightarrow> Inl (AzYaml (''subjects: '' @ what @ '' must be a sequence (write '' @ bq ''[]''
                @ '' for empty)'')))"

text \<open>\<open>get(m, key).map(f).transpose()?.unwrap_or_default()\<close>.\<close>

definition opt_list ::
  "(config_value \<Rightarrow> authz_error + 'a list) \<Rightarrow> config_value option \<Rightarrow> authz_error + 'a list" where
  "opt_list f v = (case v of None \<Rightarrow> Inr [] | Some x \<Rightarrow> f x)"

definition subject_section ::
  "string \<Rightarrow> (string \<times> config_value) list \<Rightarrow> string \<Rightarrow> string list
    \<Rightarrow> authz_error + (string \<times> config_value) list option" where
  "subject_section name body key allowed =
     (case map_get body key of
        None \<Rightarrow> Inr None
      | Some (VMap m) \<Rightarrow>
          res_bind (check_known_keys (''authz.subjects.'' @ name @ ''.'' @ key) m allowed)
            (\<lambda>_. Inr (Some m))
      | Some _ \<Rightarrow> Inl (AzYaml (''subjects: '' @ bq key @ '' for '' @ bq name @ '' must be a map'')))"

definition subject_name_fault :: "fault_kind \<Rightarrow> string" where
  "subject_name_fault fault =
     ''subjects: '' @
     (case fault of
        FEmpty \<Rightarrow> ''an empty account name restricts nobody; remove it''
      | FColon \<Rightarrow> ''an account name cannot contain '' @ quoted '':''
      | FComma \<Rightarrow> ''an account name cannot contain '' @ quoted '',''
      | FControl \<Rightarrow> ''an account name cannot contain a control character'')"

definition subject_permissions_of ::
  "(string \<times> config_value) list \<Rightarrow> authz_error + subject_permissions" where
  "subject_permissions_of pm =
     res_bind (opt_list (\<lambda>v. subject_list v ''permissions'') (map_get pm ''allow'')) (\<lambda>allow_src.
     res_bind (opt_list (\<lambda>v. subject_list v ''permissions'') (map_get pm ''deny'')) (\<lambda>deny_src.
     res_bind (collect_res parse_pattern allow_src) (\<lambda>al.
     res_bind (collect_res parse_pattern deny_src) (\<lambda>dn.
     Inr \<lparr>sp_allow = al, sp_deny = dn, sp_allow_sources = allow_src, sp_deny_sources = deny_src\<rparr>))))"

definition subject_actions_of ::
  "(string \<times> config_value) list \<Rightarrow> authz_error + subject_actions" where
  "subject_actions_of am =
     (let list_of = (\<lambda>key.
            res_bind (opt_list (\<lambda>v. subject_list v ''actions'') (map_get am key))
              (collect_res action_pattern_parse))
      in res_bind (list_of ''allow'') (\<lambda>al.
         res_bind (list_of ''deny'') (\<lambda>dn.
         Inr \<lparr>sa_allow = al, sa_deny = dn\<rparr>)))"

definition subject_models_of :: "(string \<times> config_value) list \<Rightarrow> authz_error + model_ref list" where
  "subject_models_of mm =
     res_bind (opt_list (\<lambda>v. subject_list v ''models'') (map_get mm ''allow''))
       (collect_res model_ref_parse)"

definition transpose_map :: "('a \<Rightarrow> 'e + 'b) \<Rightarrow> 'a option \<Rightarrow> 'e + 'b option" where
  "transpose_map f v = (case v of None \<Rightarrow> Inr None | Some x \<Rightarrow> res_bind (f x) (\<lambda>y. Inr (Some y)))"

definition parse_subject :: "string \<Rightarrow> config_value \<Rightarrow> authz_error + subject_policy" where
  "parse_subject name body0 =
     (case body0 of
        VMap body \<Rightarrow>
          res_bind (check_known_keys (''authz.subjects.'' @ name) body
            [''permissions'', ''actions'', ''models'']) (\<lambda>_.
          res_bind (res_bind (subject_section name body ''permissions'' [''allow'', ''deny''])
            (transpose_map subject_permissions_of)) (\<lambda>permissions.
          res_bind (res_bind (subject_section name body ''actions'' [''allow'', ''deny''])
            (transpose_map subject_actions_of)) (\<lambda>actions.
          res_bind (res_bind (subject_section name body ''models'' [''allow''])
            (transpose_map subject_models_of)) (\<lambda>models.
          Inr \<lparr>s_permissions = permissions, s_actions = actions, s_models = models\<rparr>))))
      | _ \<Rightarrow> Inl (AzYaml (''subjects: entry '' @ bq name @ '' must be a map'')))"

definition permission_lists :: "config_value option \<Rightarrow> authz_error + (string list \<times> string list)" where
  "permission_lists v =
     (case v of
        None \<Rightarrow> Inr ([], [])
      | Some (VMap pm) \<Rightarrow>
          res_bind (check_known_keys ''authz.permissions'' pm [''allow'', ''deny'']) (\<lambda>_.
          res_bind (opt_list str_seq (map_get pm ''allow'')) (\<lambda>al.
          res_bind (opt_list str_seq (map_get pm ''deny'')) (\<lambda>dn.
          Inr (al, dn))))
      | Some _ \<Rightarrow> Inl (AzYaml ''permissions section must be a map''))"

definition role_grants ::
  "string \<times> config_value \<Rightarrow> authz_error + (string \<times> raw_action_grants)" where
  "role_grants rb =
     (case rb of
        (role, VMap body) \<Rightarrow>
          res_bind (check_known_keys (''authz.roles.'' @ role) body [''allow'', ''deny'']) (\<lambda>_.
          res_bind (opt_list roles_term_list (map_get body ''allow'')) (\<lambda>al.
          res_bind (opt_list roles_term_list (map_get body ''deny'')) (\<lambda>dn.
          Inr (role, \<lparr>ag_allow = al, ag_deny = dn\<rparr>))))
      | _ \<Rightarrow> Inl (AzYaml ''roles entries must be a map of allow/deny''))"

definition role_destinations ::
  "string \<times> config_value \<Rightarrow> authz_error + (string \<times> raw_destinations)" where
  "role_destinations rb =
     (case rb of
        (role, VMap body) \<Rightarrow>
          res_bind (check_known_keys (''authz.destinations.'' @ role) body [''allow'']) (\<lambda>_.
          res_bind (opt_list destination_list (map_get body ''allow'')) (\<lambda>al.
          case List.find (\<lambda>e. \<not> destination_entry_is_acceptable e) al of
            Some e \<Rightarrow>
              Inl (AzYaml (''destinations: entry '' @ bq e @ '' for role '' @ bq role @ '' is not ''
                @ bq ''provider:<name>''))
          | None \<Rightarrow> Inr (role, \<lparr>rd_allow = al\<rparr>)))
      | (role, _) \<Rightarrow>
          Inl (AzYaml (''destinations: role '' @ bq role @ '' must be a map with '' @ bq ''allow'')))"

definition named_subject ::
  "string \<times> config_value \<Rightarrow> authz_error + (string \<times> subject_policy)" where
  "named_subject nb =
     (case nb of (name, body) \<Rightarrow>
        (case name_fault name of
           Some fault \<Rightarrow> Inl (AzYaml (subject_name_fault fault))
         | None \<Rightarrow> res_bind (parse_subject name body) (\<lambda>s. Inr (name, s))))"

text \<open>A section that is absent, or a map read entry by entry into an ordered map.\<close>

definition map_section ::
  "string \<Rightarrow> (string \<times> config_value \<Rightarrow> authz_error + (string \<times> 'a)) \<Rightarrow> config_value option
    \<Rightarrow> authz_error + (string, 'a) btree" where
  "map_section msg f v =
     (case v of
        None \<Rightarrow> Inr []
      | Some (VMap m) \<Rightarrow> res_bind (collect_res f m) (\<lambda>kvs. Inr (bt_of_list kvs))
      | Some _ \<Rightarrow> Inl (AzYaml msg))"

definition schema_version_of :: "(string \<times> config_value) list \<Rightarrow> int" where
  "schema_version_of m = (case map_get m ''schema_version'' of Some (VInt n) \<Rightarrow> n | _ \<Rightarrow> 0)"

definition parse_policy ::
  "(string \<Rightarrow> config_error + config_value) \<Rightarrow> (u64 \<Rightarrow> string) \<Rightarrow> string \<Rightarrow> authz_error + authz_policy" where
  "parse_policy load ft body =
     res_bind (map_err (\<lambda>e. AzYaml (config_error_display e)) (load body)) (\<lambda>root.
     case root of
       VMap m \<Rightarrow>
         if map_get m ''bindings'' \<noteq> None then Inl AzBindingsMoved
         else
           res_bind (check_known_keys ''authz'' m
             [''schema_version'', ''permissions'', ''roles'', ''destinations'', ''subjects'']) (\<lambda>_.
           if schema_version_of m \<noteq> 1 then Inl (AzUnknownSchemaVersion (schema_version_of m))
           else
             res_bind (permission_lists (map_get m ''permissions'')) (\<lambda>(allow_raw, deny_raw).
             res_bind (collect_res parse_pattern allow_raw) (\<lambda>al.
             res_bind (collect_res parse_pattern deny_raw) (\<lambda>dn.
             res_bind (map_section ''roles section must be a map of role to action grants''
               role_grants (map_get m ''roles'')) (\<lambda>grants.
             res_bind (map_section ''destinations section must be a map of role to allowlist''
               role_destinations (map_get m ''destinations'')) (\<lambda>dests.
             res_bind (map_section ''subjects section must be a map of account name to restrictions''
               named_subject (map_get m ''subjects'')) (\<lambda>subs.
             Inr \<lparr>allow = al, deny = dn, action_grants = grants, destinations = dests,
                  policy_subjects = subs, allow_sources = allow_raw, deny_sources = deny_raw,
                  sections = bt_of_list (map (\<lambda>(k, v). (k, canonical_json ft v)) m)\<rparr>)))))))
     | _ \<Rightarrow> Inl (AzYaml ''authz root must be a mapping''))"
section \<open>Deny overrides allow\<close>

lemma scan_entries_None_iff: "scan_entries hit i ps = Inr None \<longleftrightarrow> (\<forall>p\<in>set ps. hit p = Inr False)"
  by (induction hit i ps rule: scan_entries.induct) (auto simp: res_bind_Inr_iff split: if_splits)

lemma scan_entries_SomeD: "scan_entries hit i ps = Inr (Some j) \<Longrightarrow> \<exists>p\<in>set ps. hit p = Inr True"
  by (induction hit i ps rule: scan_entries.induct) (auto simp: res_bind_Inr_iff split: if_splits)

lemma scan_entries_InlD: "scan_entries hit i ps = Inl e \<Longrightarrow> \<exists>p\<in>set ps. hit p = Inl e"
proof (induction hit i ps rule: scan_entries.induct)
  case (2 hit i p ps)
  then show ?case by (cases "hit p") (auto split: if_splits)
qed simp

lemma scan_lists_None_iff:
  "scan_lists hit kind ls = Inr None \<longleftrightarrow> (\<forall>l\<in>set ls. \<forall>p\<in>set (patterns l). hit p = Inr False)"
  by (induction hit kind ls rule: scan_lists.induct)
    (auto simp: res_bind_Inr_iff scan_entries_None_iff split: option.splits)

lemma scan_lists_SomeD:
  "scan_lists hit kind ls = Inr (Some s) \<Longrightarrow> \<exists>l\<in>set ls. \<exists>p\<in>set (patterns l). hit p = Inr True"
  by (induction hit kind ls rule: scan_lists.induct)
    (auto simp: res_bind_Inr_iff dest: scan_entries_SomeD split: option.splits)

lemma scan_lists_InlD:
  "scan_lists hit kind ls = Inl e \<Longrightarrow> \<exists>l\<in>set ls. \<exists>p\<in>set (patterns l). hit p = Inl e"
proof (induction hit kind ls rule: scan_lists.induct)
  case (2 hit kind l ls)
  then show ?case
    by (cases "scan_entries hit 0 (patterns l)") (auto dest: scan_entries_InlD split: option.splits)
qed simp

text \<open>The patterns of the deny lists and of the allow list, with no home left unbound.\<close>

definition deny_patterns :: "authz_policy \<Rightarrow> subject_permissions option \<Rightarrow> pattern list" where
  "deny_patterns pol subject = deny pol @ (case subject of None \<Rightarrow> [] | Some s \<Rightarrow> sp_deny s)"

definition allow_patterns :: "authz_policy \<Rightarrow> subject_permissions option \<Rightarrow> pattern list" where
  "allow_patterns pol subject = (case subject of None \<Rightarrow> allow pol | Some s \<Rightarrow> sp_allow s)"

lemma lists_patterns:
  assumes "lists pol subject = (denies, allows)"
  shows "concat (map patterns (flatten denies)) = deny_patterns pol subject"
    and "patterns allows = allow_patterns pol subject"
  using assms
  by (auto simp: lists_def Let_def flatten_def deny_patterns_def allow_patterns_def
      List.map_filter_simps split: option.splits)

lemma two_phase_cases:
  fixes dh ah :: "pattern \<Rightarrow> home_unbound + bool"
  assumes D: "concat (map patterns denies) = D" and A: "patterns allows = A"
    and dt: "\<And>p. p \<in> set D \<Longrightarrow> \<exists>b. dh p = Inr b" and at: "\<And>p. p \<in> set A \<Longrightarrow> \<exists>b. ah p = Inr b"
  obtains s where "two_phase dh ah denies allows = Inr (DenyMatch s)" "\<exists>p\<in>set D. dh p = Inr True"
  | s where "two_phase dh ah denies allows = Inr (AllowMatch s)"
      "\<forall>p\<in>set D. dh p = Inr False" "\<exists>p\<in>set A. ah p = Inr True"
  | "two_phase dh ah denies allows = Inr NoMatch"
      "\<forall>p\<in>set D. dh p = Inr False" "\<forall>p\<in>set A. ah p = Inr False"
proof -
  obtain d where d: "scan_lists dh ''deny'' denies = Inr d"
    using scan_lists_InlD [of dh "''deny''" denies] dt D
    by (cases "scan_lists dh ''deny'' denies") fastforce+
  obtain a where a: "scan_lists ah ''allow'' [allows] = Inr a"
    using scan_lists_InlD [of ah "''allow''" "[allows]"] at A
    by (cases "scan_lists ah ''allow'' [allows]") fastforce+
  have dn: "\<forall>p\<in>set D. dh p = Inr False" if "d = None"
    using d that D by (auto simp: scan_lists_None_iff)
  have an: "\<forall>p\<in>set A. ah p = Inr False" if "a = None"
    using a that A scan_lists_None_iff [of ah "''allow''" "[allows]"] by (auto simp del: scan_lists.simps)
  have ds: "\<exists>p\<in>set D. dh p = Inr True" if "d = Some s" for s
    using scan_lists_SomeD [of dh "''deny''" denies s] d that D by fastforce
  have as: "\<exists>p\<in>set A. ah p = Inr True" if "a = Some s" for s
    using scan_lists_SomeD [of ah "''allow''" "[allows]" s] a that A by auto
  show thesis
  proof (cases d)
    case (Some s)
    then show thesis using that(1) [of s] d ds by (simp add: two_phase_def)
  next
    case d_None: None
    show thesis
    proof (cases a)
      case (Some s)
      then show thesis using that(2) [of s] d a dn as d_None by (simp add: two_phase_def)
    next
      case None
      then show thesis using that(3) d a dn an d_None by (simp add: two_phase_def)
    qed
  qed
qed

lemma valid_home_idem [simp]: "valid_home (valid_home home) = valid_home home"
  by (simp add: valid_home_def split: option.splits)

lemma base_total:
  assumes "valid_home home \<noteq> None \<or> \<not> is_home g"
  shows "\<exists>b. base g (valid_home home) = Inr b"
proof (cases "anchor g")
  case Root
  then show ?thesis by (simp add: base_def)
next
  case Home
  then obtain h where h: "valid_home home = Some h" using assms by (auto simp: is_home_def)
  then have "to_str h \<noteq> None"
    by (auto simp: valid_home_def home_ok_def split: option.splits if_splits)
  then show ?thesis using Home h valid_home_idem [of home] by (auto simp: base_def)
qed

lemma glob_matches_total: "base g home = Inr b \<Longrightarrow> \<exists>c. glob_matches g p home = Inr c"
  by (auto simp: glob_matches_def Let_def split: option.splits)

lemma matches_req_total:
  assumes "valid_home home \<noteq> None \<or> \<not> (case glob_for p req of Some (g, _) \<Rightarrow> is_home g | None \<Rightarrow> False)"
  shows "\<exists>b. matches_req p req (valid_home home) = Inr b"
proof (cases "glob_for p req")
  case None
  then show ?thesis by (intro exI [of _ False]) (simp add: matches_req_def)
next
  case (Some gp)
  obtain g path where gp: "gp = (g, path)" by fastforce
  then obtain b where "base g (valid_home home) = Inr b"
    using base_total [of home g] assms Some by auto
  then show ?thesis using Some gp glob_matches_total by (simp add: matches_req_def)
qed

lemma unbound_home_patterns:
  assumes "lists pol subject = (denies, allows)"
  shows "unbound_home home denies allows wants \<longleftrightarrow>
     home = None \<and> (\<exists>p\<in>set (deny_patterns pol subject) \<union> set (allow_patterns pol subject). wants p)"
  unfolding unbound_home_def lists_patterns [OF assms, symmetric] by (auto simp: list_ex_iff)

lemma evaluate3_cases:
  obtains "evaluate3_floored pol subject req home = Inl HomeUnbound" "valid_home home = None"
      "\<exists>p\<in>set (deny_patterns pol subject) \<union> set (allow_patterns pol subject).
         case glob_for p req of Some (g, _) \<Rightarrow> is_home g | None \<Rightarrow> False"
  | s where "evaluate3_floored pol subject req home = Inr (DenyMatch s)"
      "\<exists>p\<in>set (deny_patterns pol subject). matches_req p req (valid_home home) = Inr True"
  | s where "evaluate3_floored pol subject req home = Inr (AllowMatch s)"
      "\<forall>p\<in>set (deny_patterns pol subject). matches_req p req (valid_home home) = Inr False"
      "\<exists>p\<in>set (allow_patterns pol subject). matches_req p req (valid_home home) = Inr True"
  | "evaluate3_floored pol subject req home = Inr NoMatch"
      "\<forall>p\<in>set (deny_patterns pol subject). matches_req p req (valid_home home) = Inr False"
      "\<forall>p\<in>set (allow_patterns pol subject). matches_req p req (valid_home home) = Inr False"
proof -
  obtain denies allows where ls: "lists pol subject = (denies, allows)" by fastforce
  let ?wants = "\<lambda>p. case glob_for p req of Some (g, _) \<Rightarrow> is_home g | None \<Rightarrow> False"
  let ?hit = "\<lambda>p. matches_req p req (valid_home home)"
  have ev: "evaluate3_floored pol subject req home =
      (if unbound_home (valid_home home) denies allows ?wants then Inl HomeUnbound
       else two_phase ?hit ?hit (flatten denies) allows)"
    by (simp add: evaluate3_floored_def ls Let_def)
  show thesis
  proof (cases "unbound_home (valid_home home) denies allows ?wants")
    case True
    then show thesis using that(1) ev unbound_home_patterns [OF ls] by auto
  next
    case False
    then have tot: "\<exists>b. ?hit p = Inr b" if "p \<in> set (deny_patterns pol subject) \<or> p \<in> set (allow_patterns pol subject)" for p
      using that unbound_home_patterns [OF ls] matches_req_total [of home p req] by auto
    show thesis
      using two_phase_cases [OF lists_patterns [OF ls], of ?hit ?hit thesis] tot that(2-4) ev False
      by auto
  qed
qed

lemma scan_lists_prefix:
  "scan_lists hit kind ls = Inr (Some s) \<Longrightarrow> scan_lists hit kind (ls @ ls') = Inr (Some s)"
  by (induction hit kind ls rule: scan_lists.induct) (auto simp: res_bind_Inr_iff split: option.splits)

definition needs_home :: "path_request \<Rightarrow> pattern \<Rightarrow> bool" where
  "needs_home req p \<longleftrightarrow> (case glob_for p req of Some (g, _) \<Rightarrow> is_home g | None \<Rightarrow> False)"

definition unbound_for ::
  "authz_policy \<Rightarrow> subject_permissions option \<Rightarrow> path_request \<Rightarrow> rpath option \<Rightarrow> bool" where
  "unbound_for pol subject req home \<longleftrightarrow>
     valid_home home = None
     \<and> (\<exists>p\<in>set (deny_patterns pol subject) \<union> set (allow_patterns pol subject). needs_home req p)"

definition hits :: "path_request \<Rightarrow> rpath option \<Rightarrow> pattern \<Rightarrow> bool" where
  "hits req home p \<longleftrightarrow> matches_req p req (valid_home home) = Inr True"

lemma evaluate3_unbound_iff: "unbound_for pol subject req home \<longleftrightarrow> evaluate3_floored pol subject req home = Inl HomeUnbound"
proof
  obtain denies allows where ls: "lists pol subject = (denies, allows)" by fastforce
  show "evaluate3_floored pol subject req home = Inl HomeUnbound" if "unbound_for pol subject req home"
    using that unbound_home_patterns [OF ls]
    by (auto simp: evaluate3_floored_def ls unbound_for_def needs_home_def)
  show "unbound_for pol subject req home" if "evaluate3_floored pol subject req home = Inl HomeUnbound"
    using that by (cases rule: evaluate3_cases [of pol subject req home]) (auto simp: unbound_for_def needs_home_def)
qed

text \<open>
  C12. The outcome of a path request is determined by the deny entries of the site and of the
  subject's floor and by the applicable allow list, the subject's when the subject has one and the
  site's otherwise. The request is refused as home-unbound exactly when there is no valid home and
  an entry of the request's capability, anywhere in those lists, needs one. Otherwise it is denied
  exactly when a deny entry matches it, allowed exactly when no deny entry matches and an allow
  entry does, and unmatched exactly when no entry matches. Order of entries does not matter.
\<close>

theorem evaluate3_deny_overrides:
  "(evaluate3_floored pol subject req home = Inl HomeUnbound \<longleftrightarrow> unbound_for pol subject req home)
   \<and> ((\<exists>s. evaluate3_floored pol subject req home = Inr (DenyMatch s)) \<longleftrightarrow>
        \<not> unbound_for pol subject req home \<and> (\<exists>p\<in>set (deny_patterns pol subject). hits req home p))
   \<and> ((\<exists>s. evaluate3_floored pol subject req home = Inr (AllowMatch s)) \<longleftrightarrow>
        \<not> unbound_for pol subject req home \<and> \<not> (\<exists>p\<in>set (deny_patterns pol subject). hits req home p)
        \<and> (\<exists>p\<in>set (allow_patterns pol subject). hits req home p))
   \<and> (evaluate3_floored pol subject req home = Inr NoMatch \<longleftrightarrow>
        \<not> unbound_for pol subject req home \<and> \<not> (\<exists>p\<in>set (deny_patterns pol subject). hits req home p)
        \<and> \<not> (\<exists>p\<in>set (allow_patterns pol subject). hits req home p))"
  by (cases rule: evaluate3_cases [of pol subject req home]) (auto simp: evaluate3_unbound_iff hits_def)

text \<open>
  C13. A subject's own lists never relax a site denial: what the site denies is denied with
  the same cited entry under every subject floor, or refused because a home pattern cannot be
  bound.
\<close>

theorem floor_never_relaxes_site_deny:
  assumes "evaluate3_floored pol None req home = Inr (DenyMatch s)"
  shows "evaluate3_floored pol (Some sp) req home \<in> {Inr (DenyMatch s), Inl HomeUnbound}"
proof -
  let ?site = "\<lparr>patterns = deny pol, sources = deny_sources pol\<rparr>"
  let ?hit = "\<lambda>p. matches_req p req (valid_home home)"
  have "scan_lists ?hit ''deny'' [?site] = Inr (Some s)"
    using assms
    by (auto simp: evaluate3_floored_def lists_def Let_def two_phase_def flatten_def
        List.map_filter_simps res_bind_Inr_iff split: if_splits option.splits)
  from scan_lists_prefix [OF this, of "[\<lparr>patterns = sp_deny sp, sources = sp_deny_sources sp\<rparr>]"]
  show ?thesis
    by (simp add: evaluate3_floored_def lists_def Let_def two_phase_def flatten_def
        List.map_filter_simps del: scan_lists.simps)
qed

section \<open>Subtree evaluation is sound\<close>

fun pattern_glob :: "pattern \<Rightarrow> path_glob" where
  "pattern_glob (PRead g) = g"
| "pattern_glob (PWrite g) = g"

definition pattern_wf :: "pattern \<Rightarrow> bool" where
  "pattern_wf p \<longleftrightarrow> nonempty_comps (segments (pattern_glob p))"

lemma pattern_wf_write: "list_all pattern_wf ps \<Longrightarrow> PWrite g \<in> set ps \<Longrightarrow> nonempty_comps (segments g)"
  unfolding list_all_iff pattern_wf_def by (drule bspec) auto

lemma components_append: "components (s @ CHR ''/'' # r) = components s @ components r"
  by (simp add: components_def split_on_append)

lemma subtree_allowD:
  assumes "evaluate_write_subtree_floored pol subject (Utf8 root) home = Inr (AllowMatch s)"
  shows "valid_home home \<noteq> None \<or>
      (\<forall>p\<in>set (deny_patterns pol subject) \<union> set (allow_patterns pol subject).
         \<not> (case write_glob p of Some g \<Rightarrow> is_home g | None \<Rightarrow> False))"
    and "\<forall>p\<in>set (deny_patterns pol subject). subtree_hit may_intersect_subtree root (valid_home home) p = Inr False"
    and "\<exists>p\<in>set (allow_patterns pol subject). subtree_hit covers_subtree root (valid_home home) p = Inr True"
proof -
  obtain denies allows where ls: "lists pol subject = (denies, allows)" by fastforce
  let ?wants = "\<lambda>p. case write_glob p of Some g \<Rightarrow> is_home g | None \<Rightarrow> False"
  have bound: "\<not> unbound_home (valid_home home) denies allows ?wants"
    and tp: "two_phase (subtree_hit may_intersect_subtree root (valid_home home))
       (subtree_hit covers_subtree root (valid_home home)) (flatten denies) allows = Inr (AllowMatch s)"
    using assms by (auto simp: evaluate_write_subtree_floored_def ls Let_def split: if_splits)
  show "valid_home home \<noteq> None \<or>
      (\<forall>p\<in>set (deny_patterns pol subject) \<union> set (allow_patterns pol subject).
         \<not> (case write_glob p of Some g \<Rightarrow> is_home g | None \<Rightarrow> False))"
    using bound unfolding unbound_home_patterns [OF ls] by (simp only: de_Morgan_conj bex_simps simp_thms)
  have d: "scan_lists (subtree_hit may_intersect_subtree root (valid_home home)) ''deny'' (flatten denies) = Inr None"
    and a: "scan_lists (subtree_hit covers_subtree root (valid_home home)) ''allow'' [allows] = Inr (Some s)"
    using tp by (auto simp: two_phase_def res_bind_Inr_iff simp del: scan_lists.simps split: option.splits)
  show "\<forall>p\<in>set (deny_patterns pol subject). subtree_hit may_intersect_subtree root (valid_home home) p = Inr False"
    unfolding lists_patterns(1) [OF ls, symmetric] using d by (simp add: scan_lists_None_iff)
  show "\<exists>p\<in>set (allow_patterns pol subject). subtree_hit covers_subtree root (valid_home home) p = Inr True"
    unfolding lists_patterns(2) [OF ls, symmetric] using scan_lists_SomeD [OF a] by simp
qed

lemma matches_req_write:
  "matches_req p (ReqWrite path) home = Inr True \<longleftrightarrow> (\<exists>g. p = PWrite g \<and> glob_matches g path home = Inr True)"
  by (cases p) (auto simp: matches_req_def)

lemma subtree_hit_True:
  "subtree_hit test root home p = Inr True \<longleftrightarrow> (\<exists>g. p = PWrite g \<and> test g root home = Inr True)"
  by (cases p) (auto simp: subtree_hit_def)

lemma wants_write: "(case glob_for p (ReqWrite path) of Some (g, _) \<Rightarrow> is_home g | None \<Rightarrow> False)
    \<longleftrightarrow> (case write_glob p of Some g \<Rightarrow> is_home g | None \<Rightarrow> False)"
  by (cases p) auto

lemma subtree_allow_sound:
  assumes wf: "list_all pattern_wf (deny_patterns pol subject @ allow_patterns pol subject)"
    and ev: "evaluate_write_subtree_floored pol subject (Utf8 root) home = Inr (AllowMatch s)"
    and below: "components path = components root @ below"
  shows "\<exists>s'. evaluate3_floored pol subject (ReqWrite (Utf8 path)) home = Inr (AllowMatch s')"
proof (cases rule: evaluate3_cases [of pol subject "ReqWrite (Utf8 path)" home])
  case 1
  then show ?thesis using subtree_allowD(1) [OF ev] by (auto simp: wants_write)
next
  case (2 d)
  then obtain g where "PWrite g \<in> set (deny_patterns pol subject)"
    and m: "glob_matches g (Utf8 path) (valid_home home) = Inr True"
    by (auto simp: matches_req_write)
  moreover from this have "nonempty_comps (segments g)"
    by (intro pattern_wf_write [OF wf]) simp
  ultimately show ?thesis
    using matches_may_intersect [OF _ m below] subtree_allowD(2) [OF ev] by (auto simp: subtree_hit_def)
next
  case (3 s')
  then show ?thesis by blast
next
  case 4
  obtain g where g: "PWrite g \<in> set (allow_patterns pol subject)"
    and c: "covers_subtree g root (valid_home home) = Inr True"
    using subtree_allowD(3) [OF ev] by (auto simp: subtree_hit_True)
  then have "nonempty_comps (segments g)" by (intro pattern_wf_write [OF wf]) simp
  then show ?thesis
    using covers_subtree_matches [OF _ c below] 4 g by (auto simp: matches_req_def)
qed

section \<open>What a parsed policy satisfies\<close>

definition sources_parse :: "string list \<Rightarrow> pattern list \<Rightarrow> bool" where
  "sources_parse srcs ps \<longleftrightarrow> list_all2 (\<lambda>s p. parse_pattern s = Inr p) srcs ps"

definition permissions_inv :: "subject_permissions \<Rightarrow> bool" where
  "permissions_inv sp \<longleftrightarrow>
     sources_parse (sp_allow_sources sp) (sp_allow sp) \<and> sources_parse (sp_deny_sources sp) (sp_deny sp)"

definition policy_inv :: "authz_policy \<Rightarrow> bool" where
  "policy_inv pol \<longleftrightarrow>
     sources_parse (allow_sources pol) (allow pol) \<and> sources_parse (deny_sources pol) (deny pol)
     \<and> bt_inv (action_grants pol) \<and> bt_inv (destinations pol) \<and> bt_inv (policy_subjects pol)
     \<and> (\<forall>(role, d)\<in>set (destinations pol). list_all destination_entry_is_acceptable (rd_allow d))
     \<and> (\<forall>(name, s)\<in>set (policy_subjects pol).
          name_fault name = None \<and> (\<forall>sp\<in>set_option (s_permissions s). permissions_inv sp))"

lemma collect_parse_sources: "collect_res parse_pattern srcs = Inr ps \<Longrightarrow> sources_parse srcs ps"
  by (simp add: sources_parse_def collect_res_Inr_iff)

lemma mem_bt_of_list: "kv \<in> set (bt_of_list kvs) \<Longrightarrow> kv \<in> set kvs"
proof -
  assume "kv \<in> set (bt_of_list kvs)"
  then have "bt_get (bt_of_list kvs) (fst kv) = Some (snd kv)"
    using bt_entries_get [OF bt_inv_of_list [of kvs], of "fst kv" "snd kv"] by simp
  then show ?thesis using map_of_SomeD [of "rev kvs" "fst kv" "snd kv"] by (simp add: bt_get_of_list)
qed

lemma map_section_inv:
  assumes "map_section msg f v = Inr m"
  shows "bt_inv m" "\<And>k x. (k, x) \<in> set m \<Longrightarrow> \<exists>kv. f kv = Inr (k, x)"
proof -
  consider "v = None" "m = []" | raw kvs where "v = Some (VMap raw)" "collect_res f raw = Inr kvs" "m = bt_of_list kvs"
    using assms by (auto simp: map_section_def res_bind_Inr_iff split: option.splits config_value.splits)
  then have "bt_inv m \<and> (\<forall>k x. (k, x) \<in> set m \<longrightarrow> (\<exists>kv. f kv = Inr (k, x)))"
  proof cases
    case 1
    then show ?thesis by simp
  next
    case (2 raw kvs)
    have "\<exists>kv. f kv = Inr y" if "y \<in> set kvs" for y
      using 2(2) that unfolding collect_res_Inr_iff by (induction rule: list_all2_induct) auto
    then show ?thesis using 2(3) mem_bt_of_list [of _ kvs] bt_inv_of_list [of kvs] by blast
  qed
  then show "bt_inv m" "\<And>k x. (k, x) \<in> set m \<Longrightarrow> \<exists>kv. f kv = Inr (k, x)" by auto
qed

lemma find_None_all: "List.find (\<lambda>e. \<not> P e) xs = None \<Longrightarrow> list_all P xs"
  by (simp add: find_None_iff list_all_iff)

lemma role_destinations_inv:
  "role_destinations kv = Inr (k, d) \<Longrightarrow> list_all destination_entry_is_acceptable (rd_allow d)"
  by (auto simp: role_destinations_def split: prod.splits config_value.splits option.splits
      elim!: res_bind_InrE dest!: find_None_all)

lemma subject_permissions_of_inv: "subject_permissions_of pm = Inr sp \<Longrightarrow> permissions_inv sp"
  by (auto simp: subject_permissions_of_def res_bind_Inr_iff permissions_inv_def dest!: collect_parse_sources)

lemma named_subject_inv:
  assumes "named_subject kv = Inr (name, s)"
  shows "name_fault name = None" "sp \<in> set_option (s_permissions s) \<Longrightarrow> permissions_inv sp"
proof -
  obtain body where p: "name_fault name = None" "parse_subject name body = Inr s"
    using assms by (auto simp: named_subject_def res_bind_Inr_iff split: prod.splits option.splits)
  then show "name_fault name = None" by simp
  show "sp \<in> set_option (s_permissions s) \<Longrightarrow> permissions_inv sp"
    using p(2) subject_permissions_of_inv
    by (auto simp: parse_subject_def transpose_map_def res_bind_Inr_iff
        split: config_value.splits option.splits)
qed

lemma parse_policyD:
  assumes "parse_policy load ft body = Inr pol"
  shows "sources_parse (allow_sources pol) (allow pol)" "sources_parse (deny_sources pol) (deny pol)"
    and "\<exists>msg v. map_section msg role_grants v = Inr (action_grants pol)"
    and "\<exists>msg v. map_section msg role_destinations v = Inr (destinations pol)"
    and "\<exists>msg v. map_section msg named_subject v = Inr (policy_subjects pol)"
  using assms unfolding parse_policy_def
  apply (auto elim!: res_bind_InrE split: config_value.splits if_splits prod.splits)
      apply (erule collect_parse_sources)
     apply (erule collect_parse_sources)
    apply (intro exI, assumption)
   apply (intro exI, assumption)
  apply (intro exI, assumption)
  done

lemma parse_policy_inv_core:
  assumes "parse_policy load ft body = Inr pol"
  shows "policy_inv pol"
proof -
  note p = parse_policyD [OF assms]
  have "list_all destination_entry_is_acceptable (rd_allow d)" if "(role, d) \<in> set (destinations pol)" for role d
    using p(4) that map_section_inv(2) role_destinations_inv by metis
  moreover have "name_fault name = None \<and> (\<forall>sp\<in>set_option (s_permissions s). permissions_inv sp)"
    if "(name, s) \<in> set (policy_subjects pol)" for name s
    using p(5) that map_section_inv(2) named_subject_inv by metis
  moreover have "bt_inv (action_grants pol)" "bt_inv (destinations pol)" "bt_inv (policy_subjects pol)"
    using p(3-5) map_section_inv(1) by metis+
  ultimately show ?thesis
    unfolding policy_inv_def using p(1,2) by blast
qed

text \<open>
  C14. Whatever \<^verbatim>\<open>authz.yaml\<close> says, a policy that parses is well formed: every stored pattern
  is the parse of the source text recorded at its index, for the site and for every subject;
  every destination entry names an acceptable provider; no subject name is faulty; and the
  three maps are ordered with unique keys.
\<close>

theorem parse_policy_inv:
  assumes "parse_policy load ft body = Inr pol"
  shows "policy_inv pol"
  by (rule parse_policy_inv_core [OF assms])

lemma parse_pattern_wf: "parse_pattern s = Inr p \<Longrightarrow> pattern_wf p"
  by (auto simp: parse_pattern_def pattern_wf_def Let_def path_glob_parse_nonempty
      elim!: res_bind_InrE split: if_splits)

lemma sources_parse_wf: "sources_parse srcs ps \<Longrightarrow> list_all pattern_wf ps"
  unfolding sources_parse_def
  by (induction rule: list_all2_induct) (auto dest: parse_pattern_wf)

text \<open>The subject floors a policy offers: none, or the permissions of a listed subject.\<close>

definition floor_of :: "authz_policy \<Rightarrow> string option \<Rightarrow> subject_permissions option" where
  "floor_of pol name =
     Option.bind (Option.bind name (bt_get (policy_subjects pol))) s_permissions"

lemma floor_of_inv:
  assumes "policy_inv pol" "floor_of pol name = Some sp"
  shows "permissions_inv sp"
proof -
  obtain n s where "bt_get (policy_subjects pol) n = Some s" "s_permissions s = Some sp"
    using assms(2) by (auto simp: floor_of_def bind_eq_Some_conv)
  then show ?thesis using assms(1) map_of_SomeD by (fastforce simp: policy_inv_def)
qed

lemma floor_patterns_wf:
  assumes "policy_inv pol"
  shows "list_all pattern_wf (deny_patterns pol (floor_of pol name) @ allow_patterns pol (floor_of pol name))"
proof (cases "floor_of pol name")
  case None
  then show ?thesis using assms
    by (auto simp: deny_patterns_def allow_patterns_def policy_inv_def sources_parse_wf)
next
  case (Some sp)
  then show ?thesis using assms floor_of_inv [OF assms Some]
    by (auto simp: deny_patterns_def allow_patterns_def policy_inv_def permissions_inv_def sources_parse_wf)
qed

lemma scan_entries_cites:
  assumes "scan_entries hit i ps = Inr (Some j)"
  shows "i \<le> j \<and> j - i < length ps \<and> hit (ps ! (j - i)) = Inr True"
  using assms
proof (induction hit i ps rule: scan_entries.induct)
  case (2 hit i p ps)
  obtain b where b: "hit p = Inr b" using 2(2) by (auto elim!: res_bind_InrE)
  show ?case
  proof (cases b)
    case True
    then show ?thesis using 2(2) b by simp
  next
    case False
    then have "Suc i \<le> j \<and> j - Suc i < length ps \<and> hit (ps ! (j - Suc i)) = Inr True"
      using 2 b by simp
    then show ?thesis by (auto simp: nth_Cons split: nat.splits) (metis Suc_diff_Suc Suc_le_lessD Suc_inject)
  qed
qed simp

lemma scan_lists_cites:
  assumes "scan_lists hit kind ls = Inr (Some s)"
    and "\<And>l. l \<in> set ls \<Longrightarrow> sources_parse (sources l) (patterns l)"
  shows "\<exists>l\<in>set ls. \<exists>p\<in>set (patterns l). s \<in> set (sources l) \<and> parse_pattern s = Inr p \<and> hit p = Inr True"
  using assms
proof (induction hit kind ls rule: scan_lists.induct)
  case (1 hit kind)
  then show ?case by simp
next
  case (2 hit kind l ls)
  then obtain r where r: "scan_entries hit 0 (patterns l) = Inr r" by auto
  show ?case
  proof (cases r)
    case None
    then show ?thesis using 2 r by auto
  next
    case (Some i)
    have i: "i < length (patterns l)" "hit (patterns l ! i) = Inr True"
      using scan_entries_cites [of hit 0 "patterns l" i] r Some by auto
    have src: "length (sources l) = length (patterns l)" "parse_pattern (sources l ! i) = Inr (patterns l ! i)"
      using 2(3) [of l] i(1) by (auto simp: sources_parse_def list_all2_conv_all_nth)
    then have "s = sources l ! i"
      using 2(2) r Some i(1) by (simp add: source_of_def nth_opt_def)
    then show ?thesis using i src by (intro bexI [of _ l] bexI [of _ "patterns l ! i"]) auto
  qed
qed

lemma lists_sources_parse:
  assumes "policy_inv pol" "lists pol (floor_of pol name) = (denies, allows)"
  shows "\<And>l. l \<in> set (flatten denies) \<Longrightarrow> sources_parse (sources l) (patterns l)"
    and "sources_parse (sources allows) (patterns allows)"
  using assms floor_of_inv [OF assms(1), of name]
  by (auto simp: lists_def Let_def flatten_def List.map_filter_simps policy_inv_def permissions_inv_def
      split: option.splits)

text \<open>The entries as the file writes them: the site's lists and the lists under a subject's name.\<close>

fun seq_strings :: "config_value option \<Rightarrow> string list" where
  "seq_strings (Some (VSeq items)) = List.map_filter (\<lambda>v. case v of VStr s \<Rightarrow> Some s | _ \<Rightarrow> None) items"
| "seq_strings _ = []"

definition map_entries :: "config_value option \<Rightarrow> (string \<times> config_value) list" where
  "map_entries v = (case v of Some (VMap m) \<Rightarrow> m | _ \<Rightarrow> [])"

definition permission_entries :: "config_value \<Rightarrow> string \<Rightarrow> string list" where
  "permission_entries v key =
     seq_strings (map_get (map_entries (map_get (map_entries (Some v)) ''permissions'')) key)"

definition subject_written :: "config_value \<Rightarrow> string \<Rightarrow> string \<Rightarrow> string list" where
  "subject_written root name key =
     concat (map (\<lambda>(n, body). if n = name then permission_entries body key else [])
       (map_entries (map_get (map_entries (Some root)) ''subjects'')))"

definition written_deny :: "config_value \<Rightarrow> string option \<Rightarrow> string list" where
  "written_deny root name =
     permission_entries root ''deny'' @ (case name of None \<Rightarrow> [] | Some n \<Rightarrow> subject_written root n ''deny'')"

definition written_allow :: "config_value \<Rightarrow> string option \<Rightarrow> string list" where
  "written_allow root owner =
     (case owner of None \<Rightarrow> permission_entries root ''allow'' | Some n \<Rightarrow> subject_written root n ''allow'')"

lemma collect_strings: "collect_res (string_item msg) items = Inr xs \<Longrightarrow> seq_strings (Some (VSeq items)) = xs"
  by (induction items arbitrary: xs)
    (auto simp: string_item_def List.map_filter_simps elim!: res_bind_InrE split: config_value.splits)

lemma opt_list_written:
  "opt_list str_seq v = Inr xs \<Longrightarrow> seq_strings v = xs"
  "opt_list (\<lambda>v. subject_list v what) v = Inr xs \<Longrightarrow> seq_strings v = xs"
  by (cases v; auto simp: opt_list_def str_seq_def subject_list_def dest: collect_strings split: config_value.splits)+

lemma map_section_mem:
  assumes "map_section msg f v = Inr m" "(k, x) \<in> set m"
  shows "\<exists>kv\<in>set (map_entries v). f kv = Inr (k, x)"
proof -
  obtain raw kvs where v: "v = Some (VMap raw)" "collect_res f raw = Inr kvs" "m = bt_of_list kvs"
    using assms by (auto simp: map_section_def res_bind_Inr_iff split: option.splits config_value.splits)
  have "\<exists>kv\<in>set raw. f kv = Inr y" if "y \<in> set kvs" for y
    using v(2) that unfolding collect_res_Inr_iff by (induction rule: list_all2_induct) auto
  then show ?thesis using v assms(2) mem_bt_of_list [of "(k, x)" kvs] by (auto simp: map_entries_def)
qed

lemma map_get_Nil: "map_get [] k = None"
  by (simp add: map_get_def)

lemma permission_lists_written:
  "permission_lists (map_get m ''permissions'') = Inr (al, dn)
    \<Longrightarrow> permission_entries (VMap m) ''allow'' = al \<and> permission_entries (VMap m) ''deny'' = dn"
  by (auto simp: permission_lists_def permission_entries_def map_entries_def map_get_Nil elim!: res_bind_InrE
      dest: opt_list_written split: option.splits config_value.splits)

lemma named_subject_written:
  assumes "named_subject (n, body) = Inr (name, s)" "s_permissions s = Some sp"
  shows "n = name \<and> permission_entries body ''allow'' = sp_allow_sources sp
    \<and> permission_entries body ''deny'' = sp_deny_sources sp"
proof -
  have n: "n = name" and p: "parse_subject name body = Inr s"
    using assms(1) by (auto simp: named_subject_def elim!: res_bind_InrE split: option.splits)
  obtain m pm where "body = VMap m" "map_get m ''permissions'' = Some (VMap pm)" "subject_permissions_of pm = Inr sp"
    using p assms(2)
    by (auto simp: parse_subject_def subject_section_def transpose_map_def elim!: res_bind_InrE
        split: config_value.splits option.splits)
  then show ?thesis
    using n by (auto simp: subject_permissions_of_def permission_entries_def map_entries_def elim!: res_bind_InrE
        dest: opt_list_written)
qed

lemma parse_policy_written:
  assumes "parse_policy load ft body = Inr pol"
  obtains root where "load body = Inr root" "permission_entries root ''allow'' = allow_sources pol"
    "permission_entries root ''deny'' = deny_sources pol"
    "\<And>n s sp. (n, s) \<in> set (policy_subjects pol) \<Longrightarrow> s_permissions s = Some sp
      \<Longrightarrow> set (sp_allow_sources sp) \<subseteq> set (subject_written root n ''allow'')
        \<and> set (sp_deny_sources sp) \<subseteq> set (subject_written root n ''deny'')"
proof -
  obtain m msg where m: "load body = Inr (VMap m)"
    and l: "permission_lists (map_get m ''permissions'') = Inr (allow_sources pol, deny_sources pol)"
    and sub: "map_section msg named_subject (map_get m ''subjects'') = Inr (policy_subjects pol)"
    using assms unfolding parse_policy_def map_err_def
    by (auto elim!: res_bind_InrE split: config_value.splits if_splits prod.splits sum.splits)
  have "set (sp_allow_sources sp) \<subseteq> set (subject_written (VMap m) n ''allow'')
      \<and> set (sp_deny_sources sp) \<subseteq> set (subject_written (VMap m) n ''deny'')"
    if mem: "(n, s) \<in> set (policy_subjects pol)" and perm: "s_permissions s = Some sp" for n s sp
  proof -
    obtain k v where "(k, v) \<in> set (map_entries (map_get m ''subjects''))" "named_subject (k, v) = Inr (n, s)"
      using map_section_mem [OF sub mem] by auto
    with named_subject_written [OF _ perm] show ?thesis
      by (force simp: subject_written_def map_entries_def [of "Some (VMap m)"])
  qed
  with m permission_lists_written [OF l] show thesis by (intro that [of "VMap m"]) auto
qed

text \<open>Whose allow list applies: the named subject's when the policy gives that subject one.\<close>

definition allow_owner :: "authz_policy \<Rightarrow> string option \<Rightarrow> string option" where
  "allow_owner pol name = (if floor_of pol name = None then None else name)"

lemma lists_written:
  assumes "parse_policy load ft body = Inr pol" "lists pol (floor_of pol name) = (denies, allows)"
  obtains root where "load body = Inr root"
    "\<And>l. l \<in> set (flatten denies) \<Longrightarrow> set (sources l) \<subseteq> set (written_deny root name)"
    "set (sources allows) \<subseteq> set (written_allow root (allow_owner pol name))"
proof -
  obtain root where r: "load body = Inr root" "permission_entries root ''allow'' = allow_sources pol"
    "permission_entries root ''deny'' = deny_sources pol"
    and sub: "\<And>n s sp. (n, s) \<in> set (policy_subjects pol) \<Longrightarrow> s_permissions s = Some sp
      \<Longrightarrow> set (sp_allow_sources sp) \<subseteq> set (subject_written root n ''allow'')
        \<and> set (sp_deny_sources sp) \<subseteq> set (subject_written root n ''deny'')"
    using assms(1) by (rule parse_policy_written) (rule that)
  show thesis
  proof (cases "floor_of pol name")
    case None
    with assms(2) r show thesis
      by (intro that [of root])
        (auto simp: lists_def flatten_def List.map_filter_simps written_deny_def written_allow_def allow_owner_def)
  next
    case (Some sp)
    then obtain n s where n: "name = Some n" "bt_get (policy_subjects pol) n = Some s" "s_permissions s = Some sp"
      by (auto simp: floor_of_def bind_eq_Some_conv)
    from n(2) have "(n, s) \<in> set (policy_subjects pol)" by (rule map_of_SomeD)
    from sub [OF this n(3)] assms(2) r Some n(1) show thesis
      by (intro that [of root])
        (auto simp: lists_def flatten_def List.map_filter_simps written_deny_def written_allow_def allow_owner_def subset_iff)
  qed
qed

text \<open>
  C15. The rule a path decision cites is real: under a parsed policy, the source named by an allow
  or a deny is an entry the file writes, character for character, in a list that applies to the
  subject (the site's deny list or the subject's own, the allow list that is in force); it parses
  to a pattern of that list, and the pattern matches the request. The placeholder
  \<open><unknown entry>\<close> is never reported in place of an entry.
\<close>

theorem cited_source_matches:
  assumes "parse_policy load ft body = Inr pol"
    and "evaluate3_floored pol (floor_of pol name) req home = Inr m"
    and "m = AllowMatch s \<or> m = DenyMatch s"
  shows "\<exists>root p. load body = Inr root
     \<and> s \<in> set (case m of AllowMatch _ \<Rightarrow> written_allow root (allow_owner pol name) | _ \<Rightarrow> written_deny root name)
     \<and> parse_pattern s = Inr p \<and> matches_req p req (valid_home home) = Inr True
     \<and> p \<in> set (case m of AllowMatch _ \<Rightarrow> allow_patterns pol (floor_of pol name)
               | _ \<Rightarrow> deny_patterns pol (floor_of pol name))"
proof -
  obtain denies allows where ls: "lists pol (floor_of pol name) = (denies, allows)" by fastforce
  let ?hit = "\<lambda>p. matches_req p req (valid_home home)"
  note inv = lists_sources_parse [OF parse_policy_inv_core [OF assms(1)] ls]
  obtain root where root: "load body = Inr root"
    "\<And>l. l \<in> set (flatten denies) \<Longrightarrow> set (sources l) \<subseteq> set (written_deny root name)"
    "set (sources allows) \<subseteq> set (written_allow root (allow_owner pol name))"
    using assms(1) ls by (rule lists_written) (rule that)
  have tp: "two_phase ?hit ?hit (flatten denies) allows = Inr m"
    using assms(2) by (auto simp: evaluate3_floored_def ls Let_def split: if_splits)
  show ?thesis
  proof (cases m)
    case (AllowMatch t)
    then have "scan_lists ?hit ''allow'' [allows] = Inr (Some s)"
      using tp assms(3)
      by (auto simp: two_phase_def simp del: scan_lists.simps elim!: res_bind_InrE split: option.splits)
    from scan_lists_cites [OF this] show ?thesis
      using inv(2) lists_patterns(2) [OF ls] AllowMatch root(1,3) by auto
  next
    case (DenyMatch t)
    then have "scan_lists ?hit ''deny'' (flatten denies) = Inr (Some s)"
      using tp assms(3)
      by (auto simp: two_phase_def simp del: scan_lists.simps elim!: res_bind_InrE split: option.splits)
    from scan_lists_cites [OF this] show ?thesis
      using inv(1) lists_patterns(1) [OF ls, symmetric] DenyMatch root(1,2) by fastforce
  next
    case NoMatch
    then show ?thesis using assms(3) by simp
  qed
qed

text \<open>
  C16. Recursive deletion is authorized soundly: when the subtree evaluation of a parsed
  policy allows a root, a write to the root and to every path below it is allowed one by one
  under the same policy, subject and home.
\<close>

theorem subtree_allow_covers_descendants:
  assumes "parse_policy load ft body = Inr pol"
    and "evaluate_write_subtree_floored pol (floor_of pol name) (Utf8 root) home = Inr (AllowMatch s)"
    and "path = root \<or> path = root @ CHR ''/'' # rest"
  shows "\<exists>s'. evaluate3_floored pol (floor_of pol name) (ReqWrite (Utf8 path)) home = Inr (AllowMatch s')"
proof -
  have "components path = components root @ (if path = root then [] else components rest)"
    using assms(3) by (auto simp: components_append)
  then show ?thesis
    by (rule subtree_allow_sound [OF floor_patterns_wf [OF parse_policy_inv_core [OF assms(1)]] assms(2)])
qed

section \<open>Printing the policy's tokens back\<close>

definition action_pattern_wf :: "action_pattern \<Rightarrow> bool" where
  "action_pattern_wf p =
     (case p of
        Family f \<Rightarrow> segment_ok f
      | Exact t \<Rightarrow> CHR ''.'' \<in> set t \<and> list_all segment_ok (split_on CHR ''.'' t))"

lemma segment_ok_no_star: "segment_ok seg \<Longrightarrow> CHR ''*'' \<notin> set seg"
  by (auto simp: segment_ok_def list_all_iff is_ascii_lowercase_def is_ascii_digit_def)

lemma split_on_star:
  assumes "list_all segment_ok (split_on CHR ''.'' t)"
  shows "t \<noteq> r @ ''.*''"
proof
  assume "t = r @ ''.*''"
  then have "split_on CHR ''.'' t = split_on CHR ''.'' r @ [''*'']"
    using split_on_append [of "CHR ''.''" r "''*''"] by simp
  then have "segment_ok ''*''" using assms by simp
  then show False using segment_ok_no_star by fastforce
qed

text \<open>
  C17. Action patterns print back: the source of a parsed term is the text it came from, and
  parsing a printed pattern returns the pattern exactly when its segments are well formed. A
  model reference likewise prints back to the text it was parsed from.
\<close>

theorem policy_tokens_roundtrip:
  "(action_pattern_parse (action_pattern_source p) = Inr p \<longleftrightarrow> action_pattern_wf p)
   \<and> (\<forall>s q. action_pattern_parse s = Inr q \<longrightarrow> action_pattern_source q = s)
   \<and> (\<forall>s m. model_ref_parse s = Inr m \<longrightarrow> as_resource m = s)"
proof (intro conjI allI impI)
  show "action_pattern_parse (action_pattern_source p) = Inr p \<longleftrightarrow> action_pattern_wf p"
  proof (cases p)
    case (Exact t)
    then show ?thesis
      using split_on_star [of t]
      by (auto simp: action_pattern_parse_def action_pattern_wf_def split: option.splits if_splits)
  next
    case (Family f)
    have eq: "strip_suffix (f @ ''.*'') ''.*'' = Some f" by simp
    show ?thesis
      unfolding Family action_pattern_source.simps action_pattern_parse_def eq action_pattern_wf_def by simp
  qed
next
  fix s q
  assume "action_pattern_parse s = Inr q"
  then show "action_pattern_source q = s"
    by (auto simp: action_pattern_parse_def split: option.splits if_splits)
next
  fix s m
  assume "model_ref_parse s = Inr m"
  then show "as_resource m = s"
    by (auto simp: model_ref_parse_def as_resource_def split_once_Some_iff
        split: option.splits if_splits prod.splits)
qed

theorem policy_tokens_roundtrip_witness:
  "action_pattern_parse (action_pattern_source (Exact ''fs.write'')) = Inr (Exact ''fs.write'')
   \<and> as_resource \<lparr>m_provider = ''acme'', m_model = ''m1''\<rparr> = ''acme/m1''"
proof -
  have "action_pattern_wf (Exact ''fs.write'')" by code_simp
  moreover have "model_ref_parse ''acme/m1'' = Inr \<lparr>m_provider = ''acme'', m_model = ''m1''\<rparr>"
    by code_simp
  ultimately show ?thesis using policy_tokens_roundtrip [of "Exact ''fs.write''"] by blast
qed

section \<open>A sample policy\<close>

definition sample_authz :: config_value where
  "sample_authz =
     VMap [(''schema_version'', VInt 1),
           (''permissions'',
            VMap [(''allow'', VSeq [VStr ''Read(~/**)'', VStr ''Write(/srv/data/**)'']),
                  (''deny'', VSeq [VStr ''Read(~/.ssh/**)''])]),
           (''subjects'',
            VMap [(''bob'', VMap [(''permissions'', VMap [(''allow'', VSeq [VStr ''Read(/srv/**)''])])])])]"

definition sample_policy :: authz_policy where
  "sample_policy = projr (parse_policy (\<lambda>_. Inr sample_authz) (\<lambda>_. ''0'') ''x'')"

definition sample_home :: "rpath option" where
  "sample_home = Some (Utf8 ''/home/op'')"

lemma sample_policy_parses: "parse_policy (\<lambda>_. Inr sample_authz) (\<lambda>_. ''0'') ''x'' = Inr sample_policy"
  by code_simp

lemma sample_floor_none: "floor_of sample_policy None = None"
  by (simp add: floor_of_def)

lemma sample_allows:
  "evaluate3_floored sample_policy None (ReqRead (Utf8 ''/home/op/a'')) sample_home
     = Inr (AllowMatch ''Read(~/**)'')"
  by code_simp

lemma sample_denies:
  "evaluate3_floored sample_policy None (ReqRead (Utf8 ''/home/op/.ssh/id'')) sample_home
     = Inr (DenyMatch ''Read(~/.ssh/**)'')"
  by code_simp

lemma sample_subtree:
  "evaluate_write_subtree_floored sample_policy None (Utf8 ''/srv/data/a'') sample_home
     = Inr (AllowMatch ''Write(/srv/data/**)'')"
  by code_simp

theorem floor_never_relaxes_site_deny_witness:
  "evaluate3_floored sample_policy (floor_of sample_policy (Some ''bob''))
     (ReqRead (Utf8 ''/home/op/.ssh/id'')) sample_home = Inr (DenyMatch ''Read(~/.ssh/**)'')"
proof -
  have "floor_of sample_policy (Some ''bob'') \<noteq> None" by code_simp
  then obtain sp where sp: "floor_of sample_policy (Some ''bob'') = Some sp" by auto
  have "evaluate3_floored sample_policy (floor_of sample_policy (Some ''bob''))
     (ReqRead (Utf8 ''/home/op/.ssh/id'')) sample_home \<noteq> Inl HomeUnbound" by code_simp
  then show ?thesis using floor_never_relaxes_site_deny [OF sample_denies, of sp] sp by simp
qed

theorem parse_policy_inv_witness: "policy_inv sample_policy"
  by (rule parse_policy_inv [OF sample_policy_parses])

theorem cited_source_matches_witness:
  "\<exists>p. parse_pattern ''Read(~/**)'' = Inr p
     \<and> matches_req p (ReqRead (Utf8 ''/home/op/a'')) (valid_home sample_home) = Inr True"
  using cited_source_matches [OF sample_policy_parses, of None "ReqRead (Utf8 ''/home/op/a'')"
      sample_home "AllowMatch ''Read(~/**)''" "''Read(~/**)''"] sample_allows
  by (auto simp: sample_floor_none)

theorem subtree_allow_covers_descendants_witness:
  "\<exists>s'. evaluate3_floored sample_policy None (ReqWrite (Utf8 ''/srv/data/a/b/c'')) sample_home
     = Inr (AllowMatch s')"
  using subtree_allow_covers_descendants [OF sample_policy_parses, of None "''/srv/data/a''"
      sample_home "''Write(/srv/data/**)''" "''/srv/data/a/b/c''" "''b/c''"] sample_subtree
  by (simp add: sample_floor_none)

end
