(* ===== verification/Decide.thy ===== *)
theory Decide
  imports Seam Policy
begin

text \<open>
  The decision core of the role-based backend, \<^verbatim>\<open>crates/maknae-authz-basic/src/decide.rs\<close>, and
  the validators that build its tables from a parsed policy (\<^verbatim>\<open>lib.rs\<close>). A loaded policy carries
  its role lookup as a function of the subject's uid and the principal's uid; the graph-backed
  lookup is its provider.
\<close>

section \<open>Vocabulary\<close>

definition SUBJECT_UID :: string where "SUBJECT_UID = ''uid''"
definition RESOURCE_PATH :: string where "RESOURCE_PATH = ''path''"
definition RESOURCE_DESTINATION :: string where "RESOURCE_DESTINATION = ''destination''"
definition RESOURCE_MODEL :: string where "RESOURCE_MODEL = ''model''"

definition GRANTABLE_ACTIONS :: "string list" where
  "GRANTABLE_ACTIONS =
     [''admin.status'', ''admin.config.show'', ''admin.subject.list'', ''admin.baseline.show'',
      ''admin.baseline.accept'', ''admin.contain'', ''admin.release'', ''session.prompt'']"

definition ACTION_VOCABULARY :: "string list" where
  "ACTION_VOCABULARY =
     [''admin.status'', ''admin.config.show'', ''admin.subject.list'', ''admin.baseline.show'',
      ''admin.baseline.accept'', ''admin.contain'', ''admin.release'', ''session.prompt'',
      ''fs.read'', ''fs.write'', ''fs.delete'', ''fs.mkdir'']"

datatype action_class = Liveness | CAdmin | CSession | CFs | CTerminal | CMcp | CKernel

definition in_class :: "string \<Rightarrow> string \<Rightarrow> bool" where
  "in_class a c \<longleftrightarrow>
     a = c \<or> (length a > length c \<and> a ! length c = CHR ''.'' \<and> starts_with a c)"

definition class_of :: "string \<Rightarrow> action_class option" where
  "class_of act =
     (if in_class act ''liveness'' then Some Liveness
      else if in_class act ''admin'' then Some CAdmin
      else if in_class act ''session'' then Some CSession
      else if in_class act ''fs'' then Some CFs
      else if in_class act ''terminal'' then Some CTerminal
      else if in_class act ''mcp'' then Some CMcp
      else if in_class act ''kernel'' then Some CKernel
      else None)"

section \<open>Loaded policies\<close>

datatype effect = EAllow | EDeny

datatype cited =
    CPath effect string
  | CGrant string string effect
  | CDestination string string
  | CSubjectPath string effect string

record subject_action_set =
  as_allow :: "(string, string) btree"
  as_deny :: "(string, string) btree"

record subject_entry =
  se_name :: string
  se_permissions :: "subject_permissions option"
  se_actions :: "subject_action_set option"
  se_models :: "model_ref list option"

type_synonym subject_grants = "(u32, subject_entry) btree"

type_synonym grant = "string \<times> string"

type_synonym action_grant_table = "(string, grant list \<times> grant list) btree"

type_synonym destination_grants = "(string, string list) btree"

datatype resolution = RRole role | NoRole

record loaded_policy =
  lp_policy :: authz_policy
  lp_role_for :: "u32 \<Rightarrow> u32 \<Rightarrow> resolution"
  lp_action_grants :: action_grant_table
  lp_destinations :: destination_grants
  lp_subjects :: subject_grants

record cited_decision =
  cd_verdict :: verdict
  cd_role :: "string option"
  cd_cited :: "cited option"

definition destination_allows :: "destination_grants \<Rightarrow> string \<Rightarrow> string \<Rightarrow> bool" where
  "destination_allows g role destination =
     (case bt_get g role of None \<Rightarrow> False | Some l \<Rightarrow> list_ex (\<lambda>e. e = destination) l)"

definition find_grant :: "grant list \<Rightarrow> string \<Rightarrow> string option" where
  "find_grant gs act = map_option snd (List.find (\<lambda>(t, _). t = act) gs)"

definition evaluate3_action :: "action_grant_table \<Rightarrow> string \<Rightarrow> string \<Rightarrow> match3" where
  "evaluate3_action g role act =
     (case bt_get g role of
        None \<Rightarrow> NoMatch
      | Some (allows, denies) \<Rightarrow>
          (case find_grant denies act of
             Some source \<Rightarrow> DenyMatch source
           | None \<Rightarrow>
               (case find_grant allows act of
                  Some source \<Rightarrow> AllowMatch source
                | None \<Rightarrow> NoMatch)))"

section \<open>Verdicts\<close>

definition audit_obligation :: obligation where
  "audit_obligation = \<lparr>ob_id = ''audit'', ob_params = attrs_new\<rparr>"

definition permit_with_audit :: verdict where
  "permit_with_audit = Permit [audit_obligation]"

definition first_bad_segment :: "string list \<Rightarrow> string option" where
  "first_bad_segment segs =
     find_map (\<lambda>seg.
       if seg = [] then Some (''empty segment ('' @ quoted ''//'' @ '' or trailing '' @ quoted ''/'' @ '')'')
       else if seg = ''.'' then Some (quoted ''.'' @ '' component'')
       else if seg = ''..'' then Some (quoted ''..'' @ '' component'')
       else None) segs"

definition canonical_violation :: "string \<Rightarrow> string option" where
  "canonical_violation path =
     (if char_of (0::nat) \<in> set path then Some ''NUL byte''
      else if \<not> starts_with path ''/'' then Some ''not absolute''
      else if path = ''/'' then None
      else first_bad_segment (split_on CHR ''/'' (drop 1 path)))"

definition no_rule_note :: "string \<Rightarrow> string \<Rightarrow> string" where
  "no_rule_note role act = ''role '' @ role @ '': no rule for '' @ act"

definition not_implemented_note :: "string \<Rightarrow> string" where
  "not_implemented_note act = ''term enumerated, not implemented: '' @ act"

definition decide_model :: "subject_entry option \<Rightarrow> attributes \<Rightarrow> verdict option" where
  "decide_model entry res =
     (case entry of
        None \<Rightarrow> None
      | Some s \<Rightarrow>
          (case se_models s of
             None \<Rightarrow> None
           | Some listed \<Rightarrow>
               (case attrs_get res RESOURCE_MODEL of
                  Some (AStr model) \<Rightarrow>
                    if \<not> list_ex (\<lambda>r. as_resource r = model) listed
                    then Some (Deny (''subject '' @ se_name s @ '': model '' @ model
                           @ '' is not in subjects.'' @ se_name s @ ''.models allow''))
                    else None
                | _ \<Rightarrow> Some Indeterminate)))"

definition decide_prompt ::
  "loaded_policy \<Rightarrow> request \<Rightarrow> string \<Rightarrow> subject_entry option \<Rightarrow> verdict \<times> cited option" where
  "decide_prompt lp req role entry =
     (case evaluate3_action (lp_action_grants lp) role ''session.prompt'' of
        DenyMatch source \<Rightarrow>
          (Deny (''denied by role grant '' @ source), Some (CGrant role source EDeny))
      | NoMatch \<Rightarrow> (NotApplicable (Some (no_rule_note role ''session.prompt'')), None)
      | AllowMatch _ \<Rightarrow>
          (case attrs_get (resource req) RESOURCE_DESTINATION of
             Some (AStr destination) \<Rightarrow>
               if \<not> destination_allows (lp_destinations lp) role destination
               then (Deny (''destination not allowlisted for role '' @ role @ '': '' @ destination), None)
               else
                 (case decide_model entry (resource req) of
                    Some v \<Rightarrow> (v, None)
                  | None \<Rightarrow> (permit_with_audit, Some (CDestination role destination)))
           | Some _ \<Rightarrow> (Indeterminate, None)
           | None \<Rightarrow> (Deny ''no destination on session.prompt'', None)))"

definition action_limit :: "subject_entry option \<Rightarrow> string \<Rightarrow> verdict option" where
  "action_limit entry0 act =
     (case entry0 of
        None \<Rightarrow> None
      | Some entry \<Rightarrow>
          (case se_actions entry of
             None \<Rightarrow> None
           | Some acts \<Rightarrow>
               if class_of act \<in> {Some Liveness, Some CKernel, None}
                  \<or> (class_of act = Some CAdmin \<and> act = ''admin.whoami'')
               then None
               else
                 (case bt_get (as_deny acts) act of
                    Some source \<Rightarrow>
                      Some (Deny (''subject '' @ se_name entry @ '': '' @ act @ '' denied by subjects.''
                        @ se_name entry @ ''.actions entry '' @ source))
                  | None \<Rightarrow>
                      if bt_get (as_allow acts) act \<noteq> None then None
                      else Some (Deny (''subject '' @ se_name entry @ '': '' @ act
                             @ '' is not in subjects.'' @ se_name entry @ ''.actions allow'')))))"

definition kernel_decided :: "request \<Rightarrow> verdict" where
  "kernel_decided req =
     (let kernel = (attrs_get (subject req) SUBJECT_INITIATOR = Some (AStr INITIATOR_KERNEL))
      in if action req = ''kernel.contain'' \<and> kernel then permit_with_audit
         else if \<not> kernel
         then NotApplicable (Some (''kernel action requested by a subject that is not the kernel: ''
                @ action req))
         else NotApplicable (Some (not_implemented_note (action req))))"

section \<open>Filesystem attempts\<close>

datatype fs_scope = ScopeRead | ScopeWrite | ScopeWriteSubtree

definition scope_for :: "string \<Rightarrow> fs_operation \<Rightarrow> fs_scope option" where
  "scope_for act operation =
     (if act = ''fs.read'' \<and> operation = ReadOp then Some ScopeRead
      else if act = ''fs.write'' \<and> operation \<in> {WriteExisting, WriteCreate}
              \<or> act = ''fs.delete'' \<and> operation = DeleteEntry
              \<or> act = ''fs.mkdir'' \<and> operation = Mkdir then Some ScopeWrite
      else if act = ''fs.delete'' \<and> operation = DeleteTree then Some ScopeWriteSubtree
      else None)"

definition attempt_scope :: "request \<Rightarrow> verdict + fs_scope" where
  "attempt_scope req =
     (if attrs_str (ctx req) CONTEXT_DAC_LANE \<noteq> Some ''local''
      then Inl (Deny ''filesystem attempt requires a local subject'')
      else
        res_bind (ok_or (Deny ''filesystem attempt preparation absent or invalid'')
          (Option.bind (attrs_str (ctx req) CONTEXT_FS_OPERATION) fs_operation_parse)) (\<lambda>operation.
        res_bind (ok_or (Deny ''filesystem attempt preparation does not match action'')
          (scope_for (action req) operation)) (\<lambda>scope.
        if attrs_get (resource req) RESOURCE_OS_ACCESSIBLE \<noteq> None
        then Inl (Deny ''filesystem attempt cannot carry an OS preapproval'')
        else Inr scope)))"

definition evaluate_scope ::
  "authz_policy \<Rightarrow> fs_scope \<Rightarrow> subject_permissions option \<Rightarrow> string \<Rightarrow> rpath option
    \<Rightarrow> home_unbound + match3" where
  "evaluate_scope pol scope perms path home =
     (case scope of
        ScopeRead \<Rightarrow> evaluate3_floored pol perms (ReqRead (Utf8 path)) home
      | ScopeWrite \<Rightarrow> evaluate3_floored pol perms (ReqWrite (Utf8 path)) home
      | ScopeWriteSubtree \<Rightarrow> evaluate_write_subtree_floored pol perms (Utf8 path) home)"

definition decide_fs ::
  "loaded_policy \<Rightarrow> request \<Rightarrow> string \<Rightarrow> fs_scope \<Rightarrow> subject_entry option \<Rightarrow> verdict \<times> cited option" where
  "decide_fs lp req role scope entry =
     (case attrs_get (resource req) RESOURCE_PATH of
        Some (AStr path) \<Rightarrow>
          (case canonical_violation path of
             Some offense \<Rightarrow> (Deny (''non-canonical resource path ('' @ offense @ '')''), None)
           | None \<Rightarrow>
               (case (case attrs_get (subject req) SUBJECT_HOME of
                        None \<Rightarrow> Some None
                      | Some (AStr h) \<Rightarrow> Some (Some (Utf8 h))
                      | Some _ \<Rightarrow> None) of
                  None \<Rightarrow> (Indeterminate, None)
                | Some home \<Rightarrow>
                    (let flr = Option.bind entry (\<lambda>e. map_option (Pair (se_name e)) (se_permissions e))
                     in (case evaluate_scope (lp_policy lp) scope (map_option snd flr) path home of
                           Inl _ \<Rightarrow> (Indeterminate, None)
                         | Inr (DenyMatch source) \<Rightarrow>
                             (case flr of
                                Some (name, _) \<Rightarrow>
                                  if source \<notin> set (deny_sources (lp_policy lp))
                                  then (Deny (''denied by subjects.'' @ name @ ''.permissions entry '' @ source),
                                        Some (CSubjectPath name EDeny source))
                                  else (Deny (''denied by policy entry '' @ source), Some (CPath EDeny source))
                              | None \<Rightarrow> (Deny (''denied by policy entry '' @ source), Some (CPath EDeny source)))
                         | Inr (AllowMatch source) \<Rightarrow>
                             (case flr of
                                Some (name, _) \<Rightarrow> (permit_with_audit, Some (CSubjectPath name EAllow source))
                              | None \<Rightarrow> (permit_with_audit, Some (CPath EAllow source)))
                         | Inr NoMatch \<Rightarrow>
                             (NotApplicable (Some (''role '' @ role @ '': no capability entry for ''
                                @ action req)), None)))))
      | _ \<Rightarrow> (Indeterminate, None))"

section \<open>The decision\<close>

definition FS_TERMS :: "string list" where
  "FS_TERMS = [''fs.read'', ''fs.write'', ''fs.delete'', ''fs.mkdir'']"

definition decide_admin :: "loaded_policy \<Rightarrow> string \<Rightarrow> verdict \<times> cited option" where
  "decide_admin lp act =
     (if class_of act = Some Liveness then (permit_with_audit, None)
      else if class_of act = Some CAdmin \<and> act = ''admin.whoami'' then (permit_with_audit, None)
      else if class_of act = Some CAdmin \<and> act \<in> set GRANTABLE_ACTIONS
      then (case evaluate3_action (lp_action_grants lp) ''admin'' act of
              AllowMatch source \<Rightarrow> (permit_with_audit, Some (CGrant ''admin'' source EAllow))
            | DenyMatch source \<Rightarrow>
                (Deny (''denied by role grant '' @ source), Some (CGrant ''admin'' source EDeny))
            | NoMatch \<Rightarrow> (NotApplicable (Some (no_rule_note ''admin'' act)), None))
      else (NotApplicable (Some (not_implemented_note act)), None))"

definition decide_role ::
  "loaded_policy \<Rightarrow> request \<Rightarrow> u32 \<Rightarrow> role \<Rightarrow> verdict \<times> cited option" where
  "decide_role lp req uid role =
     (let entry = bt_get (lp_subjects lp) uid
      in if role = Adversary then (Deny ''subject contained: role=adversary'', None)
         else
           (case action_limit entry (action req) of
              Some v \<Rightarrow> (v, None)
            | None \<Rightarrow>
                if role \<in> {Admin, User} \<and> action req \<in> set FS_TERMS
                then (case attempt_scope req of
                        Inr scope \<Rightarrow> decide_fs lp req (role_key role) scope entry
                      | Inl v \<Rightarrow> (v, None))
                else if role \<in> {Admin, User} \<and> action req = ''session.prompt''
                then decide_prompt lp req (role_key role) entry
                else if role \<in> {Guest, User}
                then (if class_of (action req) = Some Liveness then (permit_with_audit, None)
                      else (NotApplicable (Some (no_rule_note (role_key role) (action req))), None))
                else decide_admin lp (action req)))"

definition undecided :: "verdict \<Rightarrow> cited_decision" where
  "undecided v = \<lparr>cd_verdict = v, cd_role = None, cd_cited = None\<rparr>"

definition subject_uid :: "request \<Rightarrow> u32 option" where
  "subject_uid req =
     (case attrs_get (subject req) SUBJECT_UID of
        Some (AInt i) \<Rightarrow> i64_to_u32 i
      | _ \<Rightarrow> None)"

definition decide_loaded_cited :: "loaded_policy \<Rightarrow> principal \<Rightarrow> request \<Rightarrow> cited_decision" where
  "decide_loaded_cited lp prin req =
     (case subject_uid req of
        None \<Rightarrow> undecided Indeterminate
      | Some uid \<Rightarrow>
          if class_of (action req) = Some CKernel then undecided (kernel_decided req)
          else
            (case lp_role_for lp uid (p_uid prin) of
               NoRole \<Rightarrow> undecided (NotApplicable (Some ''subject resolves to no role''))
             | RRole role \<Rightarrow>
                 (let (v, c) = decide_role lp req uid role
                  in \<lparr>cd_verdict = v, cd_role = Some (role_key role), cd_cited = c\<rparr>)))"

definition decide_loaded_with_role ::
  "loaded_policy \<Rightarrow> principal \<Rightarrow> request \<Rightarrow> verdict \<times> string option" where
  "decide_loaded_with_role lp prin req =
     (let d = decide_loaded_cited lp prin req in (cd_verdict d, cd_role d))"

definition decide_loaded :: "loaded_policy \<Rightarrow> principal \<Rightarrow> request \<Rightarrow> verdict" where
  "decide_loaded lp prin req = fst (decide_loaded_with_role lp prin req)"

section \<open>Building the tables\<close>

datatype compile_error = CeIdentity string | CeGraph string | CePolicy string

datatype authz_basic_error =
    AbLoad string
  | AbBindings string
  | AbUnknownRole string
  | AbRoleNotSupportedYet string
  | AbUnknownActionTerm string
  | AbTermNotGrantableForRole string string
  | AbUnknownAction string
  | AbUngrantableAction string
  | AbSubjectLookup string
  | AbDuplicateSubjectUid u32 string string
  | AbCompile compile_error

fun pattern_name :: "action_pattern \<Rightarrow> string" where
  "pattern_name (Exact name) = name"
| "pattern_name (Family name) = name"

fun pattern_covers :: "action_pattern \<Rightarrow> action_class \<Rightarrow> string \<Rightarrow> bool" where
  "pattern_covers (Exact e) cls t = (t = e)"
| "pattern_covers (Family _) cls t = (class_of t = Some cls)"

fun is_exact :: "action_pattern \<Rightarrow> bool" where
  "is_exact (Exact _) = True"
| "is_exact (Family _) = False"

definition expand :: "action_pattern \<Rightarrow> authz_basic_error + grant list" where
  "expand p =
     (let source = action_pattern_source p
      in (case class_of (pattern_name p) of
            None \<Rightarrow> Inl (AbUnknownAction source)
          | Some cls \<Rightarrow>
              if cls \<in> {CKernel, Liveness} then Inl (AbUngrantableAction source)
              else
                (let terms = map (\<lambda>t. (t, source)) (filter (pattern_covers p cls) ACTION_VOCABULARY)
                 in if is_exact p \<and> terms = [] then Inl (AbUnknownAction source) else Inr terms)))"

definition role_holds :: "role \<Rightarrow> string \<Rightarrow> bool" where
  "role_holds role t \<longleftrightarrow> role \<noteq> User \<or> t = ''session.prompt''"

definition role_terms :: "string \<Rightarrow> role \<Rightarrow> action_pattern \<Rightarrow> authz_basic_error + string list" where
  "role_terms key role p =
     (let unknown = AbUnknownActionTerm (action_pattern_source p)
      in res_bind (map_err (\<lambda>_. unknown) (expand p)) (\<lambda>grants.
           let terms = filter (\<lambda>t. t \<in> set GRANTABLE_ACTIONS) (map fst grants)
           in (case p of
                 Exact t \<Rightarrow>
                   (case terms of
                      [] \<Rightarrow> Inl unknown
                    | term # _ \<Rightarrow>
                        if \<not> role_holds role term then Inl (AbTermNotGrantableForRole key t)
                        else Inr terms)
               | Family _ \<Rightarrow>
                   (let held = filter (role_holds role) terms
                    in if held = [] then Inl unknown else Inr held))))"

definition grants_role :: "string \<Rightarrow> authz_basic_error + role" where
  "grants_role key =
     (case role_from_key key of
        None \<Rightarrow> Inl (AbUnknownRole key)
      | Some r \<Rightarrow> if r \<in> {Admin, User} then Inr r else Inl (AbRoleNotSupportedYet key))"

definition check_grants :: "string \<Rightarrow> role \<Rightarrow> action_pattern list \<Rightarrow> authz_basic_error + grant list" where
  "check_grants key role entries =
     res_bind (collect_res (\<lambda>p. res_bind (role_terms key role p)
         (\<lambda>ts. Inr (map (\<lambda>t. (t, action_pattern_source p)) ts))) entries)
       (\<lambda>gs. Inr (concat gs))"

definition validate_role ::
  "string \<times> raw_action_grants \<Rightarrow> authz_basic_error + (string \<times> (grant list \<times> grant list))" where
  "validate_role kg =
     (case kg of (key, grants) \<Rightarrow>
        res_bind (grants_role key) (\<lambda>role.
        res_bind (check_grants key role (ag_allow grants)) (\<lambda>al.
        res_bind (check_grants key role (ag_deny grants)) (\<lambda>dn.
        Inr (key, (al, dn))))))"

definition validate_grants ::
  "(string, raw_action_grants) btree \<Rightarrow> authz_basic_error + action_grant_table" where
  "validate_grants raw = res_bind (collect_res validate_role raw) (\<lambda>kvs. Inr (bt_of_list kvs))"

definition validate_destinations ::
  "(string, raw_destinations) btree \<Rightarrow> authz_basic_error + destination_grants" where
  "validate_destinations raw =
     res_bind (collect_res (\<lambda>(key, d).
         res_bind (grants_role key) (\<lambda>_. Inr (key, rd_allow d))) raw)
       (\<lambda>kvs. Inr (bt_of_list kvs))"

text \<open>\<open>terms.entry(t).or_insert(source)\<close>: the first source written for a term stays.\<close>

definition or_insert :: "'k::linorder \<Rightarrow> 'v \<Rightarrow> ('k, 'v) btree \<Rightarrow> ('k, 'v) btree" where
  "or_insert k v m = (if bt_get m k = None then bt_insert k v m else m)"

definition expand_all :: "action_pattern list \<Rightarrow> authz_basic_error + (string, string) btree" where
  "expand_all ps =
     res_bind (collect_res expand ps)
       (\<lambda>gs. Inr (fold (\<lambda>(t, source) m. or_insert t source m) (concat gs) []))"

type_synonym lookups = "(string, u32 option) btree"

definition subject_action_lists ::
  "subject_actions option \<Rightarrow> authz_basic_error + subject_action_set option" where
  "subject_action_lists acts =
     (case acts of
        None \<Rightarrow> Inr None
      | Some al_dn \<Rightarrow>
          res_bind (expand_all (sa_allow al_dn)) (\<lambda>al.
          res_bind (expand_all (sa_deny al_dn)) (\<lambda>dn.
          Inr (Some \<lparr>as_allow = al, as_deny = dn\<rparr>))))"

fun validate_subjects_loop ::
  "lookups \<Rightarrow> (string \<times> subject_policy) list \<Rightarrow> subject_grants \<Rightarrow> authz_basic_error + subject_grants" where
  "validate_subjects_loop ls [] out = Inr out"
| "validate_subjects_loop ls ((name, entry) # rest) out =
     res_bind (subject_action_lists (s_actions entry)) (\<lambda>acts.
       case bt_get ls name of
         Some (Some uid) \<Rightarrow>
           (case bt_get out uid of
              Some first \<Rightarrow> Inl (AbDuplicateSubjectUid uid (se_name first) name)
            | None \<Rightarrow>
                validate_subjects_loop ls rest (bt_insert uid
                  \<lparr>se_name = name, se_permissions = s_permissions entry, se_actions = acts,
                   se_models = s_models entry\<rparr> out))
       | _ \<Rightarrow> validate_subjects_loop ls rest out)"

definition validate_subjects :: "authz_policy \<Rightarrow> lookups \<Rightarrow> authz_basic_error + subject_grants" where
  "validate_subjects pol ls = validate_subjects_loop ls (policy_subjects pol) []"

section \<open>Account lookups\<close>

datatype lookup = Found u32 | Absent | Failed int

definition found :: "lookups \<Rightarrow> uid_map" where
  "found ls = bt_of_list (List.map_filter (\<lambda>(n, u). map_option (Pair n) u) ls)"

definition bound_names :: "bindings \<Rightarrow> string list" where
  "bound_names b =
     (case b_roles b of
        None \<Rightarrow> []
      | Some m \<Rightarrow>
          List.map_filter (\<lambda>e. case e of Name n \<Rightarrow> Some n | Uid _ \<Rightarrow> None) (concat (map snd m)))"

fun resolve_names ::
  "string list \<Rightarrow> (string \<Rightarrow> lookup) \<Rightarrow> string list \<Rightarrow> string list \<Rightarrow> lookups \<Rightarrow> authz_basic_error + lookups" where
  "resolve_names bound look asked [] m = Inr m"
| "resolve_names bound look asked (name # names) m =
     (if name \<in> set asked then resolve_names bound look asked names m
      else
        (case look name of
           Found uid \<Rightarrow> resolve_names bound look (name # asked) names (bt_insert name (Some uid) m)
         | Absent \<Rightarrow> resolve_names bound look (name # asked) names (bt_insert name None m)
         | Failed errno \<Rightarrow>
             (let msg = ''looking up '' @ quoted name @ '' failed (errno '' @ show_int errno
                    @ ''); nothing was changed''
              in Inl (if name \<in> set bound then AbBindings msg else AbSubjectLookup msg))))"

definition resolve_uid_map_with ::
  "authz_policy \<Rightarrow> bindings \<Rightarrow> (string \<Rightarrow> lookup) \<Rightarrow> authz_basic_error + lookups" where
  "resolve_uid_map_with pol b look =
     resolve_names (bound_names b) look [] (bound_names b @ map fst (policy_subjects pol)) []"
section \<open>Action classes\<close>

lemma in_class_iff: "in_class a c \<longleftrightarrow> a = c \<or> (\<exists>rest. a = c @ CHR ''.'' # rest)"
proof
  assume "in_class a c"
  then show "a = c \<or> (\<exists>rest. a = c @ CHR ''.'' # rest)"
  proof (cases "a = c")
    case False
    then obtain r where a: "a = c @ r" and r: "length r > 0" "r ! 0 = CHR ''.''"
      using \<open>in_class a c\<close> by (auto simp: in_class_def starts_with_iff nth_append)
    then show ?thesis by (cases r) auto
  qed simp
next
  assume "a = c \<or> (\<exists>rest. a = c @ CHR ''.'' # rest)"
  then show "in_class a c" by (auto simp: in_class_def nth_append)
qed

lemma class_of_terms:
  "a \<in> set FS_TERMS \<Longrightarrow> class_of a = Some CFs"
  "class_of ''session.prompt'' = Some CSession" "class_of ''admin.whoami'' = Some CAdmin"
proof -
  have "list_all (\<lambda>a. class_of a = Some CFs) FS_TERMS" by code_simp
  then show "a \<in> set FS_TERMS \<Longrightarrow> class_of a = Some CFs" by (simp add: list_all_iff)
  show "class_of ''session.prompt'' = Some CSession" by code_simp
  show "class_of ''admin.whoami'' = Some CAdmin" by code_simp
qed

lemma prompt_not_fs: "''session.prompt'' \<notin> set FS_TERMS" "''admin.whoami'' \<notin> set FS_TERMS"
  by (simp_all add: FS_TERMS_def)

section \<open>When a request is permitted\<close>

definition request_home :: "request \<Rightarrow> rpath option option" where
  "request_home req =
     (case attrs_get (subject req) SUBJECT_HOME of
        None \<Rightarrow> Some None
      | Some (AStr h) \<Rightarrow> Some (Some (Utf8 h))
      | Some _ \<Rightarrow> None)"

text \<open>The specification of a filesystem grant, of a prompt grant, and of a grant by role.\<close>

definition fs_granted :: "loaded_policy \<Rightarrow> request \<Rightarrow> subject_entry option \<Rightarrow> bool" where
  "fs_granted lp req entry \<longleftrightarrow>
     (\<exists>scope path home s. attempt_scope req = Inr scope
        \<and> attrs_get (resource req) RESOURCE_PATH = Some (AStr path)
        \<and> canonical_violation path = None \<and> request_home req = Some home
        \<and> evaluate_scope (lp_policy lp) scope (Option.bind entry se_permissions) path home
            = Inr (AllowMatch s))"

definition model_granted :: "request \<Rightarrow> subject_entry option \<Rightarrow> bool" where
  "model_granted req entry \<longleftrightarrow>
     (case Option.bind entry se_models of
        None \<Rightarrow> True
      | Some listed \<Rightarrow>
          (\<exists>r\<in>set listed. attrs_get (resource req) RESOURCE_MODEL = Some (AStr (as_resource r))))"

definition prompt_granted :: "loaded_policy \<Rightarrow> request \<Rightarrow> string \<Rightarrow> subject_entry option \<Rightarrow> bool" where
  "prompt_granted lp req role entry \<longleftrightarrow>
     (\<exists>s d. evaluate3_action (lp_action_grants lp) role ''session.prompt'' = AllowMatch s
        \<and> attrs_get (resource req) RESOURCE_DESTINATION = Some (AStr d)
        \<and> destination_allows (lp_destinations lp) role d \<and> model_granted req entry)"

definition admin_granted :: "loaded_policy \<Rightarrow> string \<Rightarrow> bool" where
  "admin_granted lp act \<longleftrightarrow>
     act = ''admin.whoami''
     \<or> (class_of act = Some CAdmin \<and> act \<in> set GRANTABLE_ACTIONS
        \<and> (\<exists>s. evaluate3_action (lp_action_grants lp) ''admin'' act = AllowMatch s))"

definition role_granted :: "loaded_policy \<Rightarrow> request \<Rightarrow> u32 \<Rightarrow> role \<Rightarrow> bool" where
  "role_granted lp req uid role \<longleftrightarrow>
     role \<noteq> Adversary
     \<and> (let entry = bt_get (lp_subjects lp) uid in
        action_limit entry (action req) = None
        \<and> (class_of (action req) = Some Liveness
           \<or> role = Admin \<and> admin_granted lp (action req)
           \<or> role \<in> {Admin, User} \<and> action req \<in> set FS_TERMS \<and> fs_granted lp req entry
           \<or> role \<in> {Admin, User} \<and> action req = ''session.prompt''
               \<and> prompt_granted lp req (role_key role) entry))"

lemma permit_with_audit_simps [simp]:
  "permit_with_audit = Permit obs \<longleftrightarrow> obs = [audit_obligation]"
  "permit_with_audit \<noteq> Deny r" "permit_with_audit \<noteq> NotApplicable n" "permit_with_audit \<noteq> Indeterminate"
  by (auto simp: permit_with_audit_def)

lemma decide_fs_permit:
  assumes "attempt_scope req = Inr scope"
  shows "fst (decide_fs lp req role scope entry) = Permit obs \<longleftrightarrow>
     obs = [audit_obligation] \<and> fs_granted lp req entry"
proof -
  have "map_option snd (Option.bind entry (\<lambda>e. map_option (Pair (se_name e)) (se_permissions e)))
        = Option.bind entry se_permissions"
    by (cases entry) (auto simp: option.map_comp comp_def option.map_ident)
  then show ?thesis
    using assms
    by (auto simp: decide_fs_def fs_granted_def request_home_def Let_def
        split: option.splits attr_value.splits sum.splits match3.splits if_splits prod.splits)
qed

lemma decide_model_None: "decide_model entry (resource req) = None \<longleftrightarrow> model_granted req entry"
  by (auto simp: decide_model_def model_granted_def list_ex_iff
      split: option.splits attr_value.splits if_splits)

lemma decide_model_not_permit: "decide_model entry res \<noteq> Some (Permit obs)"
  by (auto simp: decide_model_def split: option.splits attr_value.splits if_splits)

lemma decide_prompt_permit:
  "fst (decide_prompt lp req role entry) = Permit obs \<longleftrightarrow>
     obs = [audit_obligation] \<and> prompt_granted lp req role entry"
  using decide_model_not_permit [of entry "resource req" obs]
  by (auto simp: decide_prompt_def prompt_granted_def decide_model_None [symmetric]
      split: option.splits attr_value.splits match3.splits)

lemma decide_admin_permit:
  "fst (decide_admin lp act) = Permit obs \<longleftrightarrow>
     obs = [audit_obligation] \<and> (class_of act = Some Liveness \<or> admin_granted lp act)"
  using class_of_terms(3)
  by (auto simp: decide_admin_def admin_granted_def split: match3.splits)

lemma action_limit_not_permit: "action_limit entry act \<noteq> Some (Permit obs)"
  by (auto simp: action_limit_def split: option.splits if_splits)

lemma attempt_scope_not_permit: "attempt_scope req \<noteq> Inl (Permit obs)"
  by (auto simp: attempt_scope_def ok_or_def res_bind_def split: option.splits sum.splits if_splits)

lemma admin_granted_class: "admin_granted lp act \<Longrightarrow> class_of act = Some CAdmin"
  using class_of_terms(3) by (auto simp: admin_granted_def)

lemma decide_role_permit:
  "fst (decide_role lp req uid role) = Permit obs \<longleftrightarrow>
     obs = [audit_obligation] \<and> role_granted lp req uid role"
proof -
  let ?entry = "bt_get (lp_subjects lp) uid" and ?act = "action req"
  consider "role = Adversary"
    | v where "role \<noteq> Adversary" "action_limit ?entry ?act = Some v"
    | "role \<in> {Admin, User}" "?act \<in> set FS_TERMS" "action_limit ?entry ?act = None"
    | "role \<in> {Admin, User}" "?act = ''session.prompt''" "action_limit ?entry ?act = None"
    | "role \<in> {Guest, User}" "role = Guest \<or> (?act \<notin> set FS_TERMS \<and> ?act \<noteq> ''session.prompt'')"
        "action_limit ?entry ?act = None"
    | "role = Admin" "?act \<notin> set FS_TERMS" "?act \<noteq> ''session.prompt''" "action_limit ?entry ?act = None"
    by (cases role; cases "action_limit ?entry ?act"; cases "?act \<in> set FS_TERMS";
        cases "?act = ''session.prompt''") auto
  then show ?thesis
  proof cases
    case 1
    then show ?thesis by (simp add: decide_role_def role_granted_def Let_def)
  next
    case 2
    then show ?thesis using action_limit_not_permit by (auto simp: decide_role_def role_granted_def Let_def)
  next
    case 3
    then have c: "class_of ?act = Some CFs" and np: "?act \<noteq> ''session.prompt''"
      using class_of_terms(1) prompt_not_fs by auto
    have "fst (decide_role lp req uid role) = Permit obs \<longleftrightarrow> obs = [audit_obligation] \<and> fs_granted lp req ?entry"
    proof (cases "attempt_scope req")
      case (Inl v)
      then show ?thesis using 3 attempt_scope_not_permit
        by (auto simp: decide_role_def Let_def fs_granted_def)
    next
      case (Inr scope)
      then show ?thesis using 3 decide_fs_permit [OF Inr] by (auto simp: decide_role_def Let_def)
    qed
    then show ?thesis using 3 c np admin_granted_class by (auto simp: role_granted_def Let_def)
  next
    case 4
    then have c: "class_of ?act = Some CSession" and nf: "?act \<notin> set FS_TERMS"
      using class_of_terms(2) prompt_not_fs by auto
    have "fst (decide_role lp req uid role) = Permit obs \<longleftrightarrow>
        obs = [audit_obligation] \<and> prompt_granted lp req (role_key role) ?entry"
      using 4 nf decide_prompt_permit by (auto simp: decide_role_def Let_def)
    then show ?thesis using 4 c nf admin_granted_class by (auto simp: role_granted_def Let_def)
  next
    case 5
    then show ?thesis by (auto simp: decide_role_def role_granted_def Let_def)
  next
    case 6
    then show ?thesis using decide_admin_permit by (auto simp: decide_role_def role_granted_def Let_def)
  qed
qed

definition kernel_granted :: "request \<Rightarrow> bool" where
  "kernel_granted req \<longleftrightarrow>
     action req = ''kernel.contain''
     \<and> attrs_get (subject req) SUBJECT_INITIATOR = Some (AStr INITIATOR_KERNEL)"

lemma decide_loaded_permits:
  "cd_verdict (decide_loaded_cited lp prin req) = Permit obs \<longleftrightarrow>
     obs = [audit_obligation]
     \<and> (\<exists>uid. subject_uid req = Some uid
          \<and> (if class_of (action req) = Some CKernel then kernel_granted req
             else \<exists>role. lp_role_for lp uid (p_uid prin) = RRole role \<and> role_granted lp req uid role))"
proof (cases "subject_uid req")
  case None
  then show ?thesis by (simp add: decide_loaded_cited_def undecided_def)
next
  case (Some uid)
  show ?thesis
  proof (cases "class_of (action req) = Some CKernel")
    case True
    then show ?thesis
      using Some by (auto simp: decide_loaded_cited_def undecided_def kernel_decided_def kernel_granted_def Let_def)
  next
    case False
    then show ?thesis
      using Some decide_role_permit
      by (auto simp: decide_loaded_cited_def undecided_def Let_def case_prod_beta split: resolution.splits)
  qed
qed

text \<open>
  C18. The role-based backend permits a request exactly when its subject carries a uid in
  range and either the kernel itself asks to contain, or the uid resolves to a role other than
  adversary, the subject's own action list does not limit it, and the role reaches the term:
  liveness for every role; \<open>admin.whoami\<close> and the granted management terms for admin; a
  canonical, local, prepared filesystem attempt that the policy allows for admin and user; a
  granted prompt to an allowlisted destination and listed model for admin and user. A permit
  always carries exactly the audit obligation.
\<close>

theorem decide_permit_iff:
  "cd_verdict (decide_loaded_cited lp prin req) = Permit obs \<longleftrightarrow>
     obs = [audit_obligation]
     \<and> (\<exists>uid. subject_uid req = Some uid
          \<and> (if class_of (action req) = Some CKernel then kernel_granted req
             else \<exists>role. lp_role_for lp uid (p_uid prin) = RRole role \<and> role_granted lp req uid role))"
  by (rule decide_loaded_permits)

text \<open>
  C19. Containment is total: a subject that resolves to adversary is denied every term outside
  the kernel's own, with no citation, whatever the grants, floors, paths and attributes say;
  and on the kernel's terms it is permitted only when the kernel itself is the initiator.
\<close>

theorem adversary_contained:
  assumes "subject_uid req = Some uid" "lp_role_for lp uid (p_uid prin) = RRole Adversary"
  shows "(class_of (action req) \<noteq> Some CKernel \<longrightarrow>
            decide_loaded_cited lp prin req
              = \<lparr>cd_verdict = Deny ''subject contained: role=adversary'', cd_role = Some ''adversary'',
                 cd_cited = None\<rparr>)
         \<and> (is_permit (cd_verdict (decide_loaded_cited lp prin req)) \<longrightarrow> kernel_granted req)"
  using assms
  by (auto simp: decide_loaded_cited_def decide_role_def undecided_def kernel_decided_def
      kernel_granted_def is_permit_def Let_def split: if_splits)

lemma decide_fs_role_key:
  "erase_note (fst (decide_fs lp req r scope entry)) = erase_note (fst (decide_fs lp req r' scope entry))
   \<and> snd (decide_fs lp req r scope entry) = snd (decide_fs lp req r' scope entry)"
  by (auto simp: decide_fs_def Let_def split: option.splits attr_value.splits sum.splits match3.splits)

text \<open>
  C20. Administration is not filesystem privilege: on the filesystem terms, admin and user get
  the same verdict and the same citation from the same policy; only the wording of an
  absence note names the role.
\<close>

theorem fs_same_for_admin_and_user:
  assumes "action req \<in> set FS_TERMS"
  shows "erase_note (fst (decide_role lp req uid Admin)) = erase_note (fst (decide_role lp req uid User))
     \<and> snd (decide_role lp req uid Admin) = snd (decide_role lp req uid User)"
  using assms decide_fs_role_key
  by (auto simp: decide_role_def Let_def split: option.splits sum.splits)

section \<open>Subject lists restrict\<close>

definition unlimited_entry :: "subject_entry \<Rightarrow> subject_entry" where
  "unlimited_entry e = e\<lparr>se_actions := None, se_models := None\<rparr>"

definition unlimited :: "loaded_policy \<Rightarrow> loaded_policy" where
  "unlimited lp = lp\<lparr>lp_subjects := map (map_prod id unlimited_entry) (lp_subjects lp)\<rparr>"

lemma unlimited_get: "bt_get (lp_subjects (unlimited lp)) uid = map_option unlimited_entry (bt_get (lp_subjects lp) uid)"
  by (simp add: unlimited_def map_of_map map_prod_def)

lemma role_granted_unlimited: "role_granted lp req uid role \<Longrightarrow> role_granted (unlimited lp) req uid role"
proof -
  have perms: "Option.bind (map_option unlimited_entry e) se_permissions = Option.bind e se_permissions" for e
    by (cases e) (simp_all add: unlimited_entry_def)
  have limit: "action_limit (map_option unlimited_entry e) a = None" for e a
    by (cases e) (simp_all add: action_limit_def unlimited_entry_def)
  have model: "model_granted req (map_option unlimited_entry e)" for e
    by (cases e) (simp_all add: model_granted_def unlimited_entry_def)
  have same: "lp_policy (unlimited lp) = lp_policy lp" "lp_action_grants (unlimited lp) = lp_action_grants lp"
    "lp_destinations (unlimited lp) = lp_destinations lp"
    by (simp_all add: unlimited_def)
  assume "role_granted lp req uid role"
  then show ?thesis
    unfolding role_granted_def Let_def unlimited_get
    by (auto simp: fs_granted_def prompt_granted_def admin_granted_def perms limit model same)
qed

text \<open>
  C21. A subject's action and model lists only restrict: whatever is permitted with them is
  permitted without them.
\<close>

theorem subject_lists_only_restrict:
  assumes "is_permit (cd_verdict (decide_loaded_cited lp prin req))"
  shows "is_permit (cd_verdict (decide_loaded_cited (unlimited lp) prin req))"
proof -
  obtain obs uid where p: "subject_uid req = Some uid" and role: "cd_verdict (decide_loaded_cited lp prin req) = Permit obs"
    using assms by (auto simp: is_permit_def decide_loaded_cited_def undecided_def split: verdict.splits option.splits)
  show ?thesis
  proof (cases "class_of (action req) = Some CKernel")
    case True
    then show ?thesis using assms p by (simp add: decide_loaded_cited_def)
  next
    case False
    then obtain r where r: "lp_role_for lp uid (p_uid prin) = RRole r" "fst (decide_role lp req uid r) = Permit obs"
      using p role by (auto simp: decide_loaded_cited_def undecided_def Let_def case_prod_beta split: resolution.splits)
    then have "fst (decide_role (unlimited lp) req uid r) = Permit obs"
      unfolding decide_role_permit using role_granted_unlimited by blast
    moreover have "lp_role_for (unlimited lp) = lp_role_for lp" by (simp add: unlimited_def)
    ultimately show ?thesis
      using p False r by (simp add: decide_loaded_cited_def Let_def case_prod_beta is_permit_def)
  qed
qed

section \<open>Canonical paths\<close>

lemma first_bad_segment_None:
  "first_bad_segment segs = None \<longleftrightarrow> (\<forall>s\<in>set segs. s \<notin> {[], ''.'', ''..''})"
  by (auto simp: first_bad_segment_def find_map_None_iff split: if_splits)

text \<open>
  C22. The canonical-form gate accepts exactly the absolute paths with one spelling: a NUL-free
  path that is the root, or a slash followed by non-empty, non-dot segments joined by single
  slashes. An accepted path is determined by the components the matchers see, so no two
  accepted spellings name the same components.
\<close>

theorem canonical_paths_have_one_spelling:
  "(canonical_violation path = None \<longleftrightarrow>
      char_of (0::nat) \<notin> set path
      \<and> (\<exists>segs. path = CHR ''/'' # join_with ''/'' segs \<and> segs = components path
            \<and> {''.'', ''..''} \<inter> set segs = {}))
   \<and> (canonical_violation path = None \<and> canonical_violation path' = None
        \<and> components path = components path' \<longrightarrow> path = path')"
proof -
  have one: "canonical_violation p = None \<longleftrightarrow>
      char_of (0::nat) \<notin> set p \<and> p = CHR ''/'' # join_with ''/'' (components p)
      \<and> {''.'', ''..''} \<inter> set (components p) = {}" for p
  proof (cases p)
    case Nil
    then show ?thesis by (simp add: canonical_violation_def)
  next
    case (Cons c r)
    show ?thesis
    proof (cases "c = CHR ''/''")
      case False
      then show ?thesis using Cons by (auto simp: canonical_violation_def)
    next
      case slash: True
      have comps: "components p = filter (\<lambda>s. s \<noteq> []) (split_on CHR ''/'' r)"
        using Cons slash by (simp add: components_def)
      show ?thesis
      proof (cases "r = []")
        case True
        then show ?thesis using Cons slash by (simp add: canonical_violation_def components_def)
      next
        case False
        have "r = join_with ''/'' (components p) \<longleftrightarrow> [] \<notin> set (split_on CHR ''/'' r)"
        proof
          assume r: "r = join_with ''/'' (components p)"
          then have "components p \<noteq> []" using False by auto
          moreover have "CHR ''/'' \<notin> set x" if "x \<in> set (components p)" for x
            using that comps split_on_free [of x "CHR ''/''" r] by auto
          ultimately have "split_on CHR ''/'' r = components p"
            using split_on_join [of "components p" "CHR ''/''"] r by metis
          moreover have "[] \<notin> set (components p)" unfolding comps by simp
          ultimately show "[] \<notin> set (split_on CHR ''/'' r)" by simp
        next
          assume "[] \<notin> set (split_on CHR ''/'' r)"
          then have "components p = split_on CHR ''/'' r" using comps by (simp add: filter_id_conv) metis
          then show "r = join_with ''/'' (components p)" by (simp add: join_split_on)
        qed
        then show ?thesis
          using Cons slash False comps
          by (auto simp: canonical_violation_def first_bad_segment_None)
      qed
    qed
  qed
  then show ?thesis by metis
qed

theorem canonical_paths_have_one_spelling_witness:
  "canonical_violation ''/srv/data'' = None \<and> canonical_violation ''/srv//data'' \<noteq> None
   \<and> components ''/srv//data'' = components ''/srv/data''"
proof -
  have c: "components ''/srv//data'' = components ''/srv/data''" by code_simp
  moreover have "canonical_violation ''/srv/data'' = None" by code_simp
  ultimately show ?thesis
    using canonical_paths_have_one_spelling [of "''/srv//data''" "''/srv/data''"] by auto
qed

section \<open>What the validators guarantee\<close>

lemma collect_res_mem:
  assumes "collect_res f xs = Inr ys" "y \<in> set ys"
  shows "\<exists>x\<in>set xs. f x = Inr y"
  using assms unfolding collect_res_Inr_iff by (induction rule: list_all2_induct) auto

lemma role_terms_held:
  assumes "role_terms key role p = Inr ts" "t \<in> set ts"
  shows "t \<in> set GRANTABLE_ACTIONS \<and> role_holds role t"
proof (cases p)
  case (Family f)
  then show ?thesis
    using assms by (auto simp: role_terms_def Let_def elim!: res_bind_InrE split: if_splits)
next
  case (Exact e)
  then obtain grants where g: "expand p = Inr grants"
    and ts: "ts = filter (\<lambda>t. t \<in> set GRANTABLE_ACTIONS) (map fst grants)" "ts \<noteq> []" "role_holds role (hd ts)"
    using assms(1)
    by (auto simp: role_terms_def Let_def map_err_def elim!: res_bind_InrE split: list.splits if_splits sum.splits)
  have "fst gr = e" if "gr \<in> set grants" for gr
    using g that Exact by (auto simp: expand_def Let_def split: option.splits if_splits)
  then have "x = e" if "x \<in> set ts" for x using that ts(1) by auto
  then have "t = hd ts" using ts(2) assms(2) hd_in_set [of ts] by metis
  then show ?thesis using ts assms(2) by auto
qed

lemma check_grants_held:
  assumes "check_grants key role entries = Inr gs" "(t, s) \<in> set gs"
  shows "t \<in> set GRANTABLE_ACTIONS \<and> role_holds role t"
proof -
  obtain gss where gss: "collect_res (\<lambda>p. res_bind (role_terms key role p)
         (\<lambda>ts. Inr (map (\<lambda>t. (t, action_pattern_source p)) ts))) entries = Inr gss" "gs = concat gss"
    using assms(1) by (auto simp: check_grants_def elim!: res_bind_InrE)
  then obtain g where "g \<in> set gss" "(t, s) \<in> set g" using assms(2) by auto
  with collect_res_mem [OF gss(1)] show ?thesis
    by (force elim!: res_bind_InrE dest: role_terms_held)
qed

lemma grants_role_Inr: "grants_role key = Inr r \<longleftrightarrow> key = role_key r \<and> r \<in> {Admin, User}"
proof -
  have "grants_role key = Inr r \<longleftrightarrow> role_from_key key = Some r \<and> r \<in> {Admin, User}"
    by (auto simp: grants_role_def split: option.splits if_splits)
  then show ?thesis by (simp only: role_from_key_Some_iff)
qed

lemma validate_roleD:
  assumes "validate_role kg = Inr (key, al, dn)"
  shows "\<exists>r\<in>{Admin, User}. key = role_key r \<and>
     (\<forall>(t, s)\<in>set al \<union> set dn. t \<in> set GRANTABLE_ACTIONS \<and> role_holds r t)"
proof -
  obtain grants :: raw_action_grants and r where "grants_role key = Inr r" "check_grants key r (ag_allow grants) = Inr al"
      "check_grants key r (ag_deny grants) = Inr dn"
    using assms by (cases kg) (auto simp: validate_role_def res_bind_Inr_iff)
  then show ?thesis using check_grants_held [of key r] unfolding grants_role_Inr by blast
qed

lemma validate_grants_entry:
  assumes "validate_grants raw = Inr g" "bt_get g key = Some (al, dn)"
  shows "\<exists>r\<in>{Admin, User}. key = role_key r \<and>
     (\<forall>(t, s)\<in>set al \<union> set dn. t \<in> set GRANTABLE_ACTIONS \<and> role_holds r t)"
proof -
  obtain kvs where kvs: "collect_res validate_role raw = Inr kvs" "g = bt_of_list kvs"
    using assms(1) by (auto simp: validate_grants_def res_bind_Inr_iff)
  have "(key, (al, dn)) \<in> set kvs"
    using assms(2) kvs(2) map_of_SomeD [of "rev kvs" key "(al, dn)"] by (simp add: bt_get_of_list)
  with collect_res_mem [OF kvs(1)] show ?thesis using validate_roleD by blast
qed

text \<open>
  C23. The grant tables a policy compiles to never widen the vocabulary: an entry that decides
  a term belongs to admin or user, the term is grantable, and for user it is
  \<open>session.prompt\<close> alone. In particular \<open>admin.whoami\<close> and the kernel's terms are never
  granted or denied by \<open>roles:\<close>.
\<close>

theorem validated_grants_stay_in_vocabulary:
  assumes "validate_grants raw = Inr g" "evaluate3_action g key act \<noteq> NoMatch"
  shows "act \<in> set GRANTABLE_ACTIONS \<and> key \<in> {''admin'', ''user''}
     \<and> (key = ''user'' \<longrightarrow> act = ''session.prompt'') \<and> class_of act \<noteq> Some CKernel"
proof -
  obtain al dn where e: "bt_get g key = Some (al, dn)"
    using assms(2) by (auto simp: evaluate3_action_def split: option.splits)
  have "\<exists>s. (act, s) \<in> set al \<union> set dn"
    using assms(2) e
    by (auto simp: evaluate3_action_def find_grant_def find_Some_iff split: option.splits)
      (metis nth_mem prod.collapse fst_conv)+
  then obtain s where s: "(act, s) \<in> set al \<union> set dn" by blast
  obtain r where key: "r \<in> {Admin, User}" "key = role_key r"
    and "\<forall>(t, s)\<in>set al \<union> set dn. t \<in> set GRANTABLE_ACTIONS \<and> role_holds r t"
    using validate_grants_entry [OF assms(1) e] by blast
  with s have r: "act \<in> set GRANTABLE_ACTIONS" "role_holds r act" by blast+
  have "list_all (\<lambda>t. class_of t \<noteq> Some CKernel) GRANTABLE_ACTIONS" by code_simp
  then have "class_of act \<noteq> Some CKernel" using r(1) by (simp add: list_all_iff)
  then show ?thesis using key r by (auto simp: role_holds_def)
qed

theorem validated_grants_stay_in_vocabulary_witness:
  "evaluate3_action (bt_of_list [(''user'', ([(''session.prompt'', ''session.*'')], []))]) ''user''
     ''session.prompt'' = AllowMatch ''session.*''
   \<and> ''session.prompt'' \<in> set GRANTABLE_ACTIONS"
proof -
  have v: "validate_grants [(''user'', \<lparr>ag_allow = [Family ''session''], ag_deny = []\<rparr>)]
      = Inr (bt_of_list [(''user'', ([(''session.prompt'', ''session.*'')], []))])" by code_simp
  have e: "evaluate3_action (bt_of_list [(''user'', ([(''session.prompt'', ''session.*'')], []))]) ''user''
      ''session.prompt'' = AllowMatch ''session.*''" by code_simp
  then show ?thesis using validated_grants_stay_in_vocabulary [OF v, of "''user''" "''session.prompt''"] by simp
qed

lemma resolve_names_spec:
  assumes "resolve_names bound look asked names m = Inr out" "bt_inv m"
    and "\<And>n. n \<in> set asked \<longleftrightarrow> bt_get m n \<noteq> None"
  shows "bt_inv out"
    and "bt_get out n =
      (if n \<in> set asked then bt_get m n
       else if n \<in> set names then (case look n of Found u \<Rightarrow> Some (Some u) | Absent \<Rightarrow> Some None | Failed _ \<Rightarrow> None)
       else None)"
  using assms
proof (induction bound look asked names m rule: resolve_names.induct)
  case (1 bound look asked m)
  { case 1 then show ?case by simp }
  { case 2 then show ?case using "2"(3) [of n] by auto }
next
  case (2 bound look asked name names m)
  note IH = 2
  { case 1 then show ?case
      using IH(1,3,5) by (auto simp: bt_get_insert Let_def split: if_splits lookup.splits) }
  { case 2 then show ?case
      using IH(2,4,6) by (auto simp: bt_get_insert Let_def split: if_splits lookup.splits) }
qed

lemma resolve_names_no_failure:
  "resolve_names bound look asked names m = Inr out \<Longrightarrow> n \<in> set names \<Longrightarrow> n \<notin> set asked
     \<Longrightarrow> look n \<noteq> Failed e"
  by (induction bound look asked names m rule: resolve_names.induct)
    (auto simp: Let_def split: if_splits lookup.splits, metis lookup.distinct(3), metis lookup.distinct(5))

text \<open>
  C24. Account resolution is complete or refused: when it succeeds, every name the bindings or
  the \<open>subjects:\<close> section mention has exactly the answer the account database gave, found or
  absent, no other name is present, and no lookup failed. One failed lookup refuses the load.
\<close>

theorem account_lookups_complete:
  assumes "resolve_uid_map_with pol b look = Inr ls"
  shows "bt_inv ls
    \<and> (n \<in> set (bound_names b) \<union> fst ` set (policy_subjects pol) \<longrightarrow>
          bt_get ls n = Some (case look n of Found u \<Rightarrow> Some u | _ \<Rightarrow> None) \<and> look n \<noteq> Failed e)
    \<and> (n \<notin> set (bound_names b) \<union> fst ` set (policy_subjects pol) \<longrightarrow> bt_get ls n = None)"
proof -
  note r = assms [unfolded resolve_uid_map_with_def]
  have inv: "bt_inv ls" by (rule resolve_names_spec(1) [OF r]) simp_all
  have get: "bt_get ls n =
      (if n \<in> set (bound_names b @ map fst (policy_subjects pol))
       then (case look n of Found u \<Rightarrow> Some (Some u) | Absent \<Rightarrow> Some None | Failed _ \<Rightarrow> None) else None)"
    using resolve_names_spec(2) [OF r, of n] by simp
  have "look n \<noteq> Failed e'" if "n \<in> set (bound_names b @ map fst (policy_subjects pol))" for e'
    using resolve_names_no_failure [OF r that] by simp
  then show ?thesis using inv get by (auto split: lookup.splits)
qed

definition sample_lookup :: "string \<Rightarrow> lookup" where
  "sample_lookup n = (if n = ''bob'' then Found 6 else Absent)"

theorem account_lookups_complete_witness:
  "bt_get [(''alice'', None), (''bob'', Some 6), (''mallory'', None)] ''bob'' = Some (Some (6 :: u32))
   \<and> sample_lookup ''bob'' \<noteq> Failed 5"
proof -
  have "resolve_uid_map_with sample_policy sample_bindings sample_lookup
      = Inr [(''alice'', None), (''bob'', Some 6), (''mallory'', None)]" by code_simp
  moreover have "''bob'' \<in> fst ` set (policy_subjects sample_policy)" by code_simp
  ultimately show ?thesis
    using account_lookups_complete [of sample_policy sample_bindings sample_lookup _ "''bob''" 5]
    by (auto simp: sample_lookup_def)
qed

definition subject_entry_of :: "string \<Rightarrow> subject_policy \<Rightarrow> authz_basic_error + subject_entry" where
  "subject_entry_of name s =
     res_bind (subject_action_lists (s_actions s)) (\<lambda>acts.
       Inr \<lparr>se_name = name, se_permissions = s_permissions s, se_actions = acts, se_models = s_models s\<rparr>)"

lemma validate_subjects_loop_ConsE:
  assumes "validate_subjects_loop ls ((n, s) # rest) out = Inr g"
  obtains "\<nexists>u. bt_get ls n = Some (Some u)" "validate_subjects_loop ls rest out = Inr g"
  | u e where "bt_get ls n = Some (Some u)" "subject_entry_of n s = Inr e" "bt_get out u = None"
      "validate_subjects_loop ls rest (bt_insert u e out) = Inr g"
proof -
  obtain acts where acts: "subject_action_lists (s_actions s) = Inr acts"
    using assms by (cases "subject_action_lists (s_actions s)") auto
  consider "bt_get ls n = None" | "bt_get ls n = Some None" | u where "bt_get ls n = Some (Some u)"
    by (cases "bt_get ls n") auto
  then show thesis
  proof cases
    case 1
    then show thesis using that(1) assms acts by simp
  next
    case 2
    then show thesis using that(1) assms acts by simp
  next
    case (3 u)
    then have "bt_get out u = None" using assms acts by (cases "bt_get out u") auto
    then show thesis using that(2) [of u] 3 assms acts by (simp add: subject_entry_of_def)
  qed
qed

declare validate_subjects_loop.simps(2) [simp del]

lemma validate_subjects_loop_inv:
  "validate_subjects_loop ls xs out = Inr g \<Longrightarrow> bt_inv out \<Longrightarrow> bt_inv g"
proof (induction xs arbitrary: out)
  case (Cons x xs)
  obtain n s where x: "x = (n, s)" by fastforce
  from Cons.prems(1) [unfolded x] show ?case
    by (rule validate_subjects_loop_ConsE) (erule Cons.IH, simp add: Cons.prems(2))+
qed simp

lemma validate_subjects_loop_keeps:
  "validate_subjects_loop ls xs out = Inr g \<Longrightarrow> bt_get out uid = Some e \<Longrightarrow>
     bt_get g uid = Some e \<and> (\<forall>n\<in>fst ` set xs. bt_get ls n \<noteq> Some (Some uid))"
proof (induction xs arbitrary: out)
  case (Cons x xs)
  obtain n s where x: "x = (n, s)" by fastforce
  from Cons.prems(1) [unfolded x] show ?case
  proof (rule validate_subjects_loop_ConsE)
    assume "\<nexists>u. bt_get ls n = Some (Some u)" "validate_subjects_loop ls xs out = Inr g"
    then show ?thesis using Cons.IH [of out] Cons.prems(2) x by auto
  next
    fix u e'
    assume u: "bt_get ls n = Some (Some u)" "bt_get out u = None"
      and g: "validate_subjects_loop ls xs (bt_insert u e' out) = Inr g"
    then have "bt_get (bt_insert u e' out) uid = Some e" using Cons.prems(2) by (auto simp: bt_get_insert)
    from Cons.IH [OF g this] show ?thesis using u Cons.prems(2) x by auto
  qed
qed simp

lemma validate_subjects_loop_get:
  "validate_subjects_loop ls xs out = Inr g \<Longrightarrow> bt_get out uid = None \<Longrightarrow>
     bt_get g uid = Some e \<longleftrightarrow>
     (\<exists>(n, s)\<in>set xs. bt_get ls n = Some (Some uid) \<and> subject_entry_of n s = Inr e)"
proof (induction xs arbitrary: out)
  case (Cons x xs)
  obtain n s where x: "x = (n, s)" by fastforce
  from Cons.prems(1) [unfolded x] show ?case
  proof (rule validate_subjects_loop_ConsE)
    assume "\<nexists>u. bt_get ls n = Some (Some u)" "validate_subjects_loop ls xs out = Inr g"
    then show ?thesis using Cons.IH [of out] Cons.prems(2) x by auto
  next
    fix u e'
    assume u: "bt_get ls n = Some (Some u)" "subject_entry_of n s = Inr e'"
      and g: "validate_subjects_loop ls xs (bt_insert u e' out) = Inr g"
    show ?thesis
    proof (cases "u = uid")
      case True
      then have "bt_get g uid = Some e'" "\<forall>n\<in>fst ` set xs. bt_get ls n \<noteq> Some (Some uid)"
        using validate_subjects_loop_keeps [OF g, of uid e'] by auto
      then show ?thesis using True u x by force
    next
      case False
      then have "bt_get (bt_insert u e' out) uid = None" using Cons.prems(2) by (simp add: bt_get_insert)
      from Cons.IH [OF g this] show ?thesis using u False x by auto
    qed
  qed
qed simp

text \<open>
  C25. Subject restrictions land on the right account: a compiled table has an entry for a uid
  exactly when a \<open>subjects:\<close> name resolves to that uid, and the entry carries that name's own
  lists, expanded. Two names for one account refuse the load, so the name is unique.
\<close>

theorem subject_table_exact:
  assumes "validate_subjects pol ls = Inr g"
  shows "bt_inv g
    \<and> (bt_get g uid = Some e \<longleftrightarrow>
         (\<exists>s. (se_name e, s) \<in> set (policy_subjects pol) \<and> bt_get ls (se_name e) = Some (Some uid)
              \<and> subject_entry_of (se_name e) s = Inr e))"
proof -
  note v = assms [unfolded validate_subjects_def]
  have "se_name e = n" if "subject_entry_of n s = Inr e" for n s
    using that by (auto simp: subject_entry_of_def elim!: res_bind_InrE)
  then show ?thesis
    using validate_subjects_loop_inv [OF v] validate_subjects_loop_get [OF v, of uid e] by auto
qed

theorem subject_table_exact_witness:
  "bt_get [(6, \<lparr>se_name = ''bob'', se_permissions = floor_of sample_policy (Some ''bob''), se_actions = None,
     se_models = None\<rparr>)] (6 :: u32) \<noteq> None
   \<and> (\<exists>s. (''bob'', s) \<in> set (policy_subjects sample_policy))"
proof -
  have v: "validate_subjects sample_policy [(''bob'', Some 6)]
      = Inr [(6, \<lparr>se_name = ''bob'', se_permissions = floor_of sample_policy (Some ''bob''),
                se_actions = None, se_models = None\<rparr>)]" by code_simp
  show ?thesis
    using subject_table_exact [OF v, of 6 "\<lparr>se_name = ''bob'', se_permissions = floor_of sample_policy (Some ''bob''),
                se_actions = None, se_models = None\<rparr>"] by auto
qed

section \<open>A sample loaded policy\<close>

definition sample_roles :: "u32 \<Rightarrow> u32 \<Rightarrow> resolution" where
  "sample_roles uid _ =
     (if uid = 5 then RRole Admin else if uid = 6 then RRole User
      else if uid = 7 then RRole Adversary else NoRole)"

definition sample_loaded :: loaded_policy where
  "sample_loaded =
     \<lparr>lp_policy = sample_policy, lp_role_for = sample_roles,
      lp_action_grants = [(''user'', ([(''session.prompt'', ''session.*'')], []))],
      lp_destinations = [(''user'', [''provider:acme''])], lp_subjects = []\<rparr>"

definition sample_principal :: principal where
  "sample_principal = \<lparr>p_name = ''alice'', p_uid = 5\<rparr>"

definition sample_read :: "int \<Rightarrow> request" where
  "sample_read uid =
     \<lparr>subject = [(SUBJECT_HOME, AStr ''/home/op''), (SUBJECT_UID, AInt uid)],
      resource = [(RESOURCE_PATH, AStr ''/home/op/a'')], action = ''fs.read'',
      ctx = [(CONTEXT_DAC_LANE, AStr ''local''), (CONTEXT_FS_OPERATION, AStr ''read'')]\<rparr>"

lemma sample_read_permitted:
  "cd_verdict (decide_loaded_cited sample_loaded sample_principal (sample_read 6)) = Permit [audit_obligation]"
  by code_simp

theorem adversary_contained_witness:
  "cd_verdict (decide_loaded_cited sample_loaded sample_principal (sample_read 7))
     = Deny ''subject contained: role=adversary''"
proof -
  have "subject_uid (sample_read 7) = Some 7" "lp_role_for sample_loaded 7 (p_uid sample_principal) = RRole Adversary"
    "class_of (action (sample_read 7)) \<noteq> Some CKernel" by code_simp+
  then show ?thesis using adversary_contained [of "sample_read 7" 7 sample_loaded sample_principal] by simp
qed

theorem fs_same_for_admin_and_user_witness:
  "snd (decide_role sample_loaded (sample_read 5) 5 Admin) = snd (decide_role sample_loaded (sample_read 5) 5 User)"
proof -
  have "action (sample_read 5) \<in> set FS_TERMS" by code_simp
  then show ?thesis using fs_same_for_admin_and_user by blast
qed

text \<open>The same site with an action list and an empty model list for uid 6.\<close>

definition sample_limited :: loaded_policy where
  "sample_limited = sample_loaded\<lparr>lp_subjects :=
     [(6, \<lparr>se_name = ''bob'', se_permissions = None,
           se_actions = Some \<lparr>as_allow = [(''fs.read'', ''fs.read'')], as_deny = []\<rparr>, se_models = Some []\<rparr>)]\<rparr>"

lemma sample_limited_permitted:
  "cd_verdict (decide_loaded_cited sample_limited sample_principal (sample_read 6)) = Permit [audit_obligation]"
  by code_simp

theorem subject_lists_only_restrict_witness:
  "is_permit (cd_verdict (decide_loaded_cited (unlimited sample_limited) sample_principal (sample_read 6)))
     \<and> action_limit (bt_get (lp_subjects sample_limited) 6) ''session.prompt'' \<noteq> None"
proof
  show "is_permit (cd_verdict (decide_loaded_cited (unlimited sample_limited) sample_principal (sample_read 6)))"
    by (rule subject_lists_only_restrict) (simp add: sample_limited_permitted is_permit_def)
  show "action_limit (bt_get (lp_subjects sample_limited) 6) ''session.prompt'' \<noteq> None" by code_simp
qed

end
