(* ===== verification/Handler.thy ===== *)
theory Handler
  imports Wire Classification Decide
begin

text \<open>
  The kernel's verb decisions (\<open>crates/maknae-kernel/src/handler.rs\<close>): what a verb dispatches to,
  the action it is decided under, the request built for the policy decision point, the discharge
  of obligations, the lexical gate on paths, and the drain states; and the admission of a provider
  choice (\<open>provider_choice.rs\<close>, with the path checks of \<open>maknae-config\<close> and \<open>maknae-vault\<close>).
\<close>

section \<open>Dispatch\<close>

datatype dispatch =
    NoBehaviour | Pong | WhoamiRequested | MutationRequested | ConfigShowRequested | StatusRequested
  | SubjectListRequested | PromptRequested | BaselineShowRequested | BaselineAcceptRequested
  | ContainRequested | ReleaseRequested

definition dispatch_verb :: "verb \<Rightarrow> dispatch" where
  "dispatch_verb v =
     (case v of
        Ping \<Rightarrow> Pong
      | Whoami \<Rightarrow> WhoamiRequested
      | Read _ _ _ \<Rightarrow> MutationRequested
      | FsWrite _ _ _ _ \<Rightarrow> MutationRequested
      | FsDelete _ _ \<Rightarrow> MutationRequested
      | FsMkdir _ _ _ \<Rightarrow> MutationRequested
      | AdminConfigShow \<Rightarrow> ConfigShowRequested
      | AdminStatus \<Rightarrow> StatusRequested
      | AdminSubjectList \<Rightarrow> SubjectListRequested
      | AdminBaselineShow \<Rightarrow> BaselineShowRequested
      | AdminBaselineAccept _ \<Rightarrow> BaselineAcceptRequested
      | AdminContain _ _ \<Rightarrow> ContainRequested
      | AdminRelease _ \<Rightarrow> ReleaseRequested
      | SessionPrompt _ _ _ _ \<Rightarrow> PromptRequested
      | _ \<Rightarrow> NoBehaviour)"

definition is_filesystem_verb :: "verb \<Rightarrow> bool" where
  "is_filesystem_verb v \<longleftrightarrow> dispatch_verb v = MutationRequested"

definition KERNEL_ACTIONS :: "string list" where
  "KERNEL_ACTIONS = [''kernel.contain'', ''kernel.session.terminate'']"

definition verb_to_action :: "verb \<Rightarrow> string" where
  "verb_to_action v =
     (case v of
        Ping \<Rightarrow> ''liveness.ping''
      | Whoami \<Rightarrow> ''admin.whoami''
      | AdminStatus \<Rightarrow> ''admin.status''
      | AdminConfigShow \<Rightarrow> ''admin.config.show''
      | AdminAuditTail \<Rightarrow> ''admin.audit.tail''
      | AdminPolicyReload \<Rightarrow> ''admin.policy.reload''
      | AdminSubjectList \<Rightarrow> ''admin.subject.list''
      | AdminBaselineShow \<Rightarrow> ''admin.baseline.show''
      | AdminBaselineAccept _ \<Rightarrow> ''admin.baseline.accept''
      | AdminSubjectBind \<Rightarrow> ''admin.subject.bind''
      | AdminSubjectUnbind \<Rightarrow> ''admin.subject.unbind''
      | AdminContain _ _ \<Rightarrow> ''admin.contain''
      | AdminRelease _ \<Rightarrow> ''admin.release''
      | AdminCredentialRotate \<Rightarrow> ''admin.credential.rotate''
      | AdminProviderList \<Rightarrow> ''admin.provider.list''
      | AdminProviderSet \<Rightarrow> ''admin.provider.set''
      | AdminProviderDisable \<Rightarrow> ''admin.provider.disable''
      | AdminSessionList \<Rightarrow> ''admin.session.list''
      | AdminSessionTerminate \<Rightarrow> ''admin.session.terminate''
      | SessionNew \<Rightarrow> ''session.new''
      | SessionResume \<Rightarrow> ''session.resume''
      | SessionClose \<Rightarrow> ''session.close''
      | SessionDelete \<Rightarrow> ''session.delete''
      | SessionList \<Rightarrow> ''session.list''
      | SessionFork \<Rightarrow> ''session.fork''
      | SessionPrompt _ _ _ _ \<Rightarrow> ''session.prompt''
      | SessionCancel \<Rightarrow> ''session.cancel''
      | SessionSetconfigoption \<Rightarrow> ''session.set_config_option''
      | SessionSetmode \<Rightarrow> ''session.set_mode''
      | SessionLoad \<Rightarrow> ''session.load''
      | SessionUpdate \<Rightarrow> ''session.update''
      | SessionRequestpermission \<Rightarrow> ''session.request_permission''
      | SessionElicitCreate \<Rightarrow> ''session.elicit.create''
      | SessionElicitComplete \<Rightarrow> ''session.elicit.complete''
      | SessionCompact \<Rightarrow> ''session.compact''
      | Read _ _ _ \<Rightarrow> ''fs.read''
      | FsWrite _ _ _ _ \<Rightarrow> ''fs.write''
      | FsDelete _ _ \<Rightarrow> ''fs.delete''
      | FsMove \<Rightarrow> ''fs.move''
      | FsList \<Rightarrow> ''fs.list''
      | FsStat \<Rightarrow> ''fs.stat''
      | FsMkdir _ _ _ \<Rightarrow> ''fs.mkdir''
      | FsLink \<Rightarrow> ''fs.link''
      | FsChmod \<Rightarrow> ''fs.chmod''
      | FsChown \<Rightarrow> ''fs.chown''
      | TerminalCreate \<Rightarrow> ''terminal.create''
      | TerminalOutput \<Rightarrow> ''terminal.output''
      | TerminalWaitforexit \<Rightarrow> ''terminal.wait_for_exit''
      | TerminalKill \<Rightarrow> ''terminal.kill''
      | TerminalRelease \<Rightarrow> ''terminal.release''
      | TerminalInput \<Rightarrow> ''terminal.input''
      | McpConnect \<Rightarrow> ''mcp.connect''
      | McpDisconnect \<Rightarrow> ''mcp.disconnect''
      | McpMessage \<Rightarrow> ''mcp.message''
      | McpToolCall \<Rightarrow> ''mcp.tool.call''
      | McpResourceRead \<Rightarrow> ''mcp.resource.read''
      | McpPromptGet \<Rightarrow> ''mcp.prompt.get''
      | McpSamplingCreate \<Rightarrow> ''mcp.sampling.create'')"

section \<open>Serving and draining\<close>

text \<open>The error a stopped supervisor carries is not looked at by the code below and is left out.\<close>

datatype serve_outcome = GracefulShutdown | SupervisorExited | ApplyByRestart | AcceptAbandoned | ChannelMismatch

definition APPLY_BY_RESTART_EXIT_CODE :: u8 where "APPLY_BY_RESTART_EXIT_CODE = 6"

fun serve_outcome_to_exit_code :: "serve_outcome \<Rightarrow> u8" where
  "serve_outcome_to_exit_code GracefulShutdown = 0"
| "serve_outcome_to_exit_code SupervisorExited = 1"
| "serve_outcome_to_exit_code AcceptAbandoned = 1"
| "serve_outcome_to_exit_code ChannelMismatch = 1"
| "serve_outcome_to_exit_code ApplyByRestart = APPLY_BY_RESTART_EXIT_CODE"

datatype drain = Serving | Begun | Applied | Failed

definition after_drain :: "serve_outcome \<Rightarrow> drain \<Rightarrow> serve_outcome" where
  "after_drain out d =
     (case (out, d) of
        (GracefulShutdown, Applied) \<Rightarrow> ApplyByRestart
      | (GracefulShutdown, Begun) \<Rightarrow> AcceptAbandoned
      | (GracefulShutdown, Failed) \<Rightarrow> AcceptAbandoned
      | _ \<Rightarrow> out)"

definition drain_admits :: "drain \<Rightarrow> bool" where
  "drain_admits d \<longleftrightarrow> d = Serving"

definition may_stop :: "drain \<Rightarrow> bool" where
  "may_stop d \<longleftrightarrow> d \<in> {Applied, Failed}"

definition may_respond :: "bool \<Rightarrow> bool" where
  "may_respond audit_ok = audit_ok"

section \<open>Provider choice\<close>

record authorized_provider =
  ap_name :: string
  ap_endpoint :: string
  ap_models :: "string list"
  ap_reasoning_effort :: "string option"
  ap_output_tokens_field :: "string option"

record admitted_choice =
  ac_provider :: authorized_provider
  ac_model :: string
  ac_key_vault_path :: string
  ac_key_field :: string
  ac_sealed_key :: bytes

datatype choice_refusal =
    NoChoice | NoProviders | UnknownProvider | ModelNotListed | UnsafeUsername | MalformedSubpath | MalformedField

definition provider_get :: "authorized_provider list \<Rightarrow> string \<Rightarrow> authorized_provider option" where
  "provider_get ps name = List.find (\<lambda>p. ap_name p = name) ps"

definition key_field_is_acceptable :: "string \<Rightarrow> bool" where
  "key_field_is_acceptable s \<longleftrightarrow> s \<noteq> [] \<and> length s \<le> 64 \<and> list_all is_ascii_graphic s"

definition empty_segment :: "nat \<Rightarrow> nat \<Rightarrow> string" where
  "empty_segment i final =
     (if i = 0 then ''must not start with '' @ quoted ''/''
      else if i = final then ''must not end with '' @ quoted ''/''
      else ''has an empty interior path segment'')"

definition subpath_segment :: "nat \<Rightarrow> nat \<times> string \<Rightarrow> string option" where
  "subpath_segment final = (\<lambda>(i, seg).
     if seg = [] then Some (empty_segment i final)
     else if \<not> list_all safe_token_byte seg then Some ''has a character outside [A-Za-z0-9._-]''
     else if seg = ''.'' \<or> seg = ''..'' then Some (''has a '' @ quoted ''.'' @ '' or '' @ quoted ''..'' @ '' segment'')
     else if seg = ''data'' then Some (''has a '' @ quoted ''data'' @ '' segment'')
     else None)"

definition key_subpath_is_acceptable :: "string \<Rightarrow> string + unit" where
  "key_subpath_is_acceptable s =
     (if s = [] then Inl ''is empty''
      else if length s > 256 then Inl ''exceeds 256 bytes''
      else let segs = split_on (CHR ''/'') s in
        case find_map (subpath_segment (length segs - 1)) (enumerate 0 segs) of
          Some e \<Rightarrow> Inl e
        | None \<Rightarrow> Inr ())"

definition KV_DATA_REFUSED :: string where
  "KV_DATA_REFUSED = ''contains a '' @ quoted ''data'' @ '' segment '' @ [CHR 0xE2, CHR 0x80, CHR 0x94]
     @ '' the mount and the KV v2 '' @ quoted ''data/''
     @ '' segment are no longer written in configuration (#308); write the path as your Vault CLI shows it''"

definition kv_segment :: "nat \<Rightarrow> nat \<times> string \<Rightarrow> string option" where
  "kv_segment final = (\<lambda>(i, seg).
     if seg = [] then Some (empty_segment i final)
     else if seg = ''.'' \<or> seg = ''..'' then Some (''has a '' @ quoted ''.'' @ '' or '' @ quoted ''..'' @ '' segment'')
     else if seg = ''data'' then Some KV_DATA_REFUSED
     else None)"

definition kv_fragment_is_acceptable :: "string \<Rightarrow> string + unit" where
  "kv_fragment_is_acceptable s =
     (if s = [] then Inl ''is empty''
      else if list_ex (\<lambda>w. find_sub s w \<noteq> None) whitespace_encodings then Inl ''contains whitespace''
      else let segs = split_on (CHR ''/'') s in
        case find_map (kv_segment (length segs - 1)) (enumerate 0 segs) of
          Some e \<Rightarrow> Inl e
        | None \<Rightarrow> Inr ())"

definition vault_path_is_safe :: "string \<Rightarrow> bool" where
  "vault_path_is_safe s \<longleftrightarrow> s \<noteq> [] \<and> list_all (\<lambda>b. is_ascii_alphanumeric b \<or> b \<in> set ''._/-'') s"

definition user_key_path :: "string \<Rightarrow> string \<Rightarrow> string \<Rightarrow> string + string" where
  "user_key_path user_prefix username subpath =
     (if length user_prefix > 256 then Inl ''the user prefix exceeds 256 bytes''
      else res_bind (map_err (\<lambda>why. ''the user prefix '' @ why) (kv_fragment_is_acceptable user_prefix)) (\<lambda>_.
        if \<not> vault_path_is_safe user_prefix then Inl ''the user prefix has a character outside [A-Za-z0-9._/-]''
        else if CHR ''/'' \<in> set username then Inl ''the username is not one path segment''
        else if username = ''data'' then
          Inl (''the username '' @ quoted ''data'' @ '' is not a usable Vault path segment'')
        else res_bind (map_err (\<lambda>why. ''the username '' @ why) (kv_fragment_is_acceptable username)) (\<lambda>_.
          if \<not> list_all safe_token_byte username then Inl ''the username has a character outside [A-Za-z0-9._-]''
          else res_bind (map_err (\<lambda>why. ''the key subpath '' @ why) (key_subpath_is_acceptable subpath)) (\<lambda>_.
            Inr (user_prefix @ ''/'' @ username @ ''/'' @ subpath)))))"

definition is_ascii_uppercase :: "char \<Rightarrow> bool" where
  "is_ascii_uppercase c \<longleftrightarrow> 65 \<le> (of_char c :: nat) \<and> (of_char c :: nat) \<le> 90"

definition userpass_username_is_acceptable :: "string \<Rightarrow> string + unit" where
  "userpass_username_is_acceptable name =
     (let word = \<lambda>b. is_ascii_alphanumeric b \<or> b = CHR ''_'' in
      if name = [] then Inl ''is empty''
      else if length name > 32 then Inl ''exceeds 32 bytes''
      else if list_ex is_ascii_uppercase name then
        Inl ''has an upper-case letter; userpass stores usernames lower-cased''
      else if \<not> list_all (\<lambda>b. is_ascii_lowercase b \<or> is_ascii_digit b \<or> b \<in> set ''._-'') name then
        Inl ''has a character outside [a-z0-9._-]''
      else if \<not> word (hd name) \<or> \<not> word (last name) then Inl ''must start and end with [a-z0-9_]''
      else Inr ())"

definition admit_choice ::
  "authorized_provider list \<Rightarrow> provider_choice option \<Rightarrow> string option \<Rightarrow> string \<Rightarrow> choice_refusal + admitted_choice"
where
  "admit_choice ps choice username user_prefix =
     res_bind (ok_or NoChoice choice) (\<lambda>c.
     if ps = [] then Inl NoProviders
     else res_bind (ok_or UnknownProvider (provider_get ps (pc_provider c))) (\<lambda>provider.
     if pc_model c \<notin> set (ap_models provider) then Inl ModelNotListed
     else res_bind (ok_or UnsafeUsername
            (case username of
               Some u \<Rightarrow> if userpass_username_is_acceptable u = Inr () \<and> kv_fragment_is_acceptable u = Inr ()
                         then Some u else None
             | None \<Rightarrow> None)) (\<lambda>user.
     if key_subpath_is_acceptable (pc_key_subpath c) \<noteq> Inr () then Inl MalformedSubpath
     else if \<not> key_field_is_acceptable (pc_key_field c) then Inl MalformedField
     else res_bind (map_err (\<lambda>_. MalformedSubpath) (user_key_path user_prefix user (pc_key_subpath c))) (\<lambda>path.
       Inr \<lparr>ac_provider = provider, ac_model = pc_model c, ac_key_vault_path = path,
            ac_key_field = pc_key_field c, ac_sealed_key = pc_sealed_key c\<rparr>))))"

section \<open>The requests the decision point sees\<close>

text \<open>A home that is not UTF-8 is not stamped.\<close>

definition build_authz_request ::
  "verb \<Rightarrow> u32 \<Rightarrow> rpath option \<Rightarrow> lane \<Rightarrow> admitted_choice option \<Rightarrow> request" where
  "build_authz_request v peer_uid home lane admitted =
     (let subject0 = attrs_insert ''uid'' (AInt (uint peer_uid)) attrs_new;
          subject1 = (case home of Some (Utf8 h) \<Rightarrow> attrs_insert SUBJECT_HOME (AStr h) subject0 | _ \<Rightarrow> subject0);
          resource0 = (case v of Read path _ _ \<Rightarrow> attrs_insert ''path'' (AStr path) attrs_new | _ \<Rightarrow> attrs_new);
          resource1 =
            (case (v, admitted) of
               (SessionPrompt _ _ _ _, Some a) \<Rightarrow>
                 attrs_insert ''model'' (AStr (ap_name (ac_provider a) @ ''/'' @ ac_model a))
                   (attrs_insert ''destination'' (AStr (''provider:'' @ ap_name (ac_provider a))) resource0)
             | _ \<Rightarrow> resource0)
      in \<lparr>subject = subject1, resource = resource1, action = verb_to_action v,
          ctx = attrs_insert CONTEXT_DAC_LANE (AStr (lane_as_str lane)) attrs_new\<rparr>)"

definition build_kernel_request :: "string \<Rightarrow> u32 \<Rightarrow> request" where
  "build_kernel_request act kernel_uid =
     \<lparr>subject = attrs_insert SUBJECT_INITIATOR (AStr INITIATOR_KERNEL)
        (attrs_insert ''uid'' (AInt (uint kernel_uid)) attrs_new),
      resource = attrs_new, action = act,
      ctx = attrs_insert CONTEXT_DAC_LANE (AStr (lane_as_str Local)) attrs_new\<rparr>"

section \<open>Obligations and paths\<close>

datatype unhonorable = UnhonorableObligation string

fun discharge_plan :: "obligation list \<Rightarrow> unhonorable + unit" where
  "discharge_plan [] = Inr ()"
| "discharge_plan (ob # obs) =
     (if ob_id ob \<noteq> ''audit'' \<or> ob_params ob \<noteq> [] then Inl (UnhonorableObligation (ob_id ob))
      else discharge_plan obs)"

fun pregate_segments :: "string list \<Rightarrow> string + unit" where
  "pregate_segments [] = Inr ()"
| "pregate_segments (seg # segs) =
     (if seg = [] then Inl ''empty segment''
      else if seg = ''.'' \<or> seg = ''..'' then Inl ''dot segment''
      else pregate_segments segs)"

definition lexical_pregate :: "string \<Rightarrow> string + unit" where
  "lexical_pregate path =
     (if \<not> starts_with path ''/'' then Inl ''not absolute''
      else if path = ''/'' then Inr ()
      else if ends_with path ''/'' then Inl ''trailing slash''
      else pregate_segments (split_on (CHR ''/'') (tl path)))"

end
