(* ===== verification/Graph.thy ===== *)
theory Graph
  imports Slices BTree
begin

text \<open>
  The security graph of \<^verbatim>\<open>maknae-graph\<close>: its records (\<^verbatim>\<open>record.rs\<close>), schemas and compiled sets
  (\<^verbatim>\<open>schema.rs\<close>), the kernel's schema (\<^verbatim>\<open>kernel.rs\<close>), the checked construction and the indexed
  queries (\<^verbatim>\<open>graph.rs\<close>). A graph is what \<open>build\<close> returns; the lemmas show what every such graph
  satisfies and that the index answers agree with a scan of the records.
\<close>

section \<open>Records\<close>

type_synonym node_id = u64
type_synonym edge_id = u64
type_synonym node_kind = u16
type_synonym edge_kind = u16

datatype graph_space = SharedSpace | UserSpace u64 | KernelSpace

datatype provenance_kind = PCompiled | PSeed | PRootFile | POperator | PKernel

fun provenance_code :: "provenance_kind \<Rightarrow> u16" where
  "provenance_code PCompiled = 1"
| "provenance_code PSeed = 2"
| "provenance_code PRootFile = 3"
| "provenance_code POperator = 4"
| "provenance_code PKernel = 5"

definition provenance_from_code :: "u16 \<Rightarrow> provenance_kind option" where
  "provenance_from_code code =
     (if code = 1 then Some PCompiled
      else if code = 2 then Some PSeed
      else if code = 3 then Some PRootFile
      else if code = 4 then Some POperator
      else if code = 5 then Some PKernel
      else None)"

record provenance =
  pv_kind :: provenance_kind
  pv_transition :: u64

datatype graph_attr = GStr string | GU64 u64

type_synonym graph_attrs = "(string, graph_attr) btree"

record node_record =
  n_id :: node_id
  n_space :: graph_space
  n_kind :: node_kind
  n_key :: string
  n_label :: string
  n_provenance :: provenance
  n_revision :: u64
  n_attrs :: graph_attrs

record edge_record =
  e_id :: edge_id
  e_space :: graph_space
  e_from :: node_id
  e_to :: node_id
  e_kind :: edge_kind
  e_label :: string
  e_provenance :: provenance
  e_revision :: u64
  e_attrs :: graph_attrs

lemma provenance_code_inv [simp]: "provenance_from_code (provenance_code k) = Some k"
  by (cases k) (simp_all add: provenance_from_code_def)

section \<open>Schemas and compiled sets\<close>

record schema =
  sc_version :: u16
  sc_node_kinds :: "(node_kind \<times> string) list"
  sc_edge_kinds :: "(edge_kind \<times> string) list"
  sc_triples :: "(node_kind \<times> edge_kind \<times> node_kind) list"
  sc_compiled_kinds :: "node_kind list"
  sc_forbidden_targets :: "(edge_kind \<times> node_kind \<times> string) list"

definition node_kind_name :: "schema \<Rightarrow> node_kind \<Rightarrow> string option" where
  "node_kind_name sc kind = map_of (sc_node_kinds sc) kind"

definition edge_kind_name :: "schema \<Rightarrow> edge_kind \<Rightarrow> string option" where
  "edge_kind_name sc kind = map_of (sc_edge_kinds sc) kind"

definition schema_allows :: "schema \<Rightarrow> node_kind \<Rightarrow> edge_kind \<Rightarrow> node_kind \<Rightarrow> bool" where
  "schema_allows sc from edge to \<longleftrightarrow> (from, edge, to) \<in> set (sc_triples sc)"

definition is_compiled :: "schema \<Rightarrow> node_kind \<Rightarrow> bool" where
  "is_compiled sc kind \<longleftrightarrow> kind \<in> set (sc_compiled_kinds sc)"

definition forbids_target :: "schema \<Rightarrow> edge_kind \<Rightarrow> node_kind \<Rightarrow> string \<Rightarrow> bool" where
  "forbids_target sc edge to key \<longleftrightarrow>
     list_ex (\<lambda>(e, n, k). e = edge \<and> n = to \<and> k = key) (sc_forbidden_targets sc)"

record compiled_node =
  cn_kind :: node_kind
  cn_key :: string
  cn_label :: string
  cn_attrs :: graph_attrs

type_synonym compiled_set = "compiled_node list"

definition compiled_get :: "compiled_set \<Rightarrow> node_kind \<Rightarrow> string \<Rightarrow> compiled_node option" where
  "compiled_get cs kind key = find (\<lambda>c. cn_kind c = kind \<and> cn_key c = key) cs"

section \<open>The kernel's schema\<close>

definition SCHEMA_VERSION :: u16 where "SCHEMA_VERSION = 1"

definition CONFIG_SOURCE :: node_kind where "CONFIG_SOURCE = 1"
definition SECTION :: node_kind where "SECTION = 2"
definition SUBJECT :: node_kind where "SUBJECT = 3"
definition ROLE :: node_kind where "ROLE = 4"
definition RULE :: node_kind where "RULE = 5"
definition TERM_KIND :: node_kind where "TERM_KIND = 6"
definition CLASS :: node_kind where "CLASS = 7"
definition CLASSIFICATION_SYSTEM :: node_kind where "CLASSIFICATION_SYSTEM = 8"
definition LEVEL :: node_kind where "LEVEL = 9"
definition CONTAINMENT :: node_kind where "CONTAINMENT = 10"
definition PENDING_CHANGE :: node_kind where "PENDING_CHANGE = 11"
definition SYNC_BASE :: node_kind where "SYNC_BASE = 12"
definition INSTANCE :: node_kind where "INSTANCE = 13"

definition BINDS :: edge_kind where "BINDS = 1"
definition CONTAINED :: edge_kind where "CONTAINED = 2"
definition PERMITS :: edge_kind where "PERMITS = 3"
definition DENIES :: edge_kind where "DENIES = 4"
definition MATCHES :: edge_kind where "MATCHES = 5"
definition MEMBER_OF :: edge_kind where "MEMBER_OF = 6"
definition DOMINATES :: edge_kind where "DOMINATES = 7"
definition DECLARES :: edge_kind where "DECLARES = 8"
definition DECLARED_BY :: edge_kind where "DECLARED_BY = 9"
definition PART_OF :: edge_kind where "PART_OF = 10"
definition PENDING_FOR :: edge_kind where "PENDING_FOR = 11"
definition LEVEL_OF :: edge_kind where "LEVEL_OF = 12"

lemmas kind_defs = CONFIG_SOURCE_def SECTION_def SUBJECT_def ROLE_def RULE_def TERM_KIND_def CLASS_def
  CLASSIFICATION_SYSTEM_def LEVEL_def CONTAINMENT_def PENDING_CHANGE_def SYNC_BASE_def INSTANCE_def
  BINDS_def CONTAINED_def PERMITS_def DENIES_def MATCHES_def MEMBER_OF_def DOMINATES_def
  DECLARES_def DECLARED_BY_def PART_OF_def PENDING_FOR_def LEVEL_OF_def

definition ADVERSARY :: string where "ADVERSARY = ''adversary''"

definition ROLES :: "string list" where
  "ROLES = [''admin'', ''user'', ''guest'', ADVERSARY]"

definition persisted_compiled_set :: "string \<Rightarrow> compiled_set" where
  "persisted_compiled_set label =
     map (\<lambda>r. \<lparr>cn_kind = ROLE, cn_key = r, cn_label = label, cn_attrs = []\<rparr>) ROLES"

definition SCHEMA :: schema where
  "SCHEMA =
     \<lparr>sc_version = SCHEMA_VERSION,
      sc_node_kinds =
        [(CONFIG_SOURCE, ''ConfigSource''), (SECTION, ''Section''), (SUBJECT, ''Subject''),
         (ROLE, ''Role''), (RULE, ''Rule''), (TERM_KIND, ''Term''), (CLASS, ''Class''),
         (CLASSIFICATION_SYSTEM, ''ClassificationSystem''), (LEVEL, ''Level''),
         (CONTAINMENT, ''Containment''), (PENDING_CHANGE, ''PendingChange''),
         (SYNC_BASE, ''SyncBase''), (INSTANCE, ''Instance'')],
      sc_edge_kinds =
        [(BINDS, ''binds''), (CONTAINED, ''contained''), (PERMITS, ''permits''), (DENIES, ''denies''),
         (MATCHES, ''matches''), (MEMBER_OF, ''member_of''), (DOMINATES, ''dominates''),
         (DECLARES, ''declares''), (DECLARED_BY, ''declared_by''), (PART_OF, ''part_of''),
         (PENDING_FOR, ''pending_for''), (LEVEL_OF, ''level_of'')],
      sc_triples =
        [(SUBJECT, BINDS, ROLE), (SUBJECT, CONTAINED, CONTAINMENT), (ROLE, PERMITS, RULE),
         (ROLE, DENIES, RULE), (RULE, MATCHES, TERM_KIND), (TERM_KIND, MEMBER_OF, CLASS),
         (LEVEL, DOMINATES, LEVEL), (LEVEL, LEVEL_OF, CLASSIFICATION_SYSTEM),
         (INSTANCE, DECLARES, CLASSIFICATION_SYSTEM), (SECTION, PART_OF, CONFIG_SOURCE),
         (PENDING_CHANGE, PENDING_FOR, SECTION), (SUBJECT, DECLARED_BY, SECTION),
         (RULE, DECLARED_BY, SECTION), (CLASSIFICATION_SYSTEM, DECLARED_BY, SECTION),
         (LEVEL, DECLARED_BY, SECTION), (INSTANCE, DECLARED_BY, SECTION),
         (CONTAINMENT, DECLARED_BY, SECTION), (SYNC_BASE, PART_OF, CONFIG_SOURCE)],
      sc_compiled_kinds = [ROLE, TERM_KIND, CLASS],
      sc_forbidden_targets = [(BINDS, ROLE, ADVERSARY)]\<rparr>"

section \<open>Construction\<close>

datatype graph_error =
    UnknownNodeKind node_kind
  | UnknownEdgeKind edge_kind
  | DuplicateNodeId node_id
  | DuplicateEdgeId edge_id
  | DuplicateKey node_kind string
  | EmptyKey node_id
  | EmptyLabel
  | SpaceMismatch
  | DanglingEdge edge_id
  | ForbiddenTriple node_kind edge_kind node_kind
  | ForbiddenTarget edge_id
  | CompiledProvenance node_id
  | CompiledEdgeProvenance edge_id
  | CompiledMismatch node_kind string
  | CompiledMissing node_kind string
  | GraphExpansionLimit

record graph_builder =
  b_space :: graph_space
  b_revision :: u64
  b_nodes :: "node_record list"
  b_edges :: "edge_record list"

definition builder_new :: "graph_space \<Rightarrow> u64 \<Rightarrow> graph_builder" where
  "builder_new space revision = \<lparr>b_space = space, b_revision = revision, b_nodes = [], b_edges = []\<rparr>"

definition builder_node :: "node_record \<Rightarrow> graph_builder \<Rightarrow> graph_builder" where
  "builder_node n b = b\<lparr>b_nodes := b_nodes b @ [n]\<rparr>"

definition builder_edge :: "edge_record \<Rightarrow> graph_builder \<Rightarrow> graph_builder" where
  "builder_edge e b = b\<lparr>b_edges := b_edges b @ [e]\<rparr>"

record graph =
  g_space :: graph_space
  g_revision :: u64
  g_schema_version :: u16
  g_nodes :: "node_record list"
  g_edges :: "edge_record list"
  g_out_offsets :: "u32 list"
  g_in_offsets :: "u32 list"
  g_in_edges :: "u32 list"
  g_keys :: "(node_kind \<times> string \<times> u32) list"

definition check_node ::
  "graph_space \<Rightarrow> schema \<Rightarrow> compiled_set \<Rightarrow> node_record \<Rightarrow> graph_error + unit" where
  "check_node space sc compiled n =
     (if node_kind_name sc (n_kind n) = None then Inl (UnknownNodeKind (n_kind n))
      else if n_space n \<noteq> space then Inl SpaceMismatch
      else if n_key n = [] then Inl (EmptyKey (n_id n))
      else if n_label n = [] then Inl EmptyLabel
      else
        let compiled_provenance = (pv_kind (n_provenance n) = PCompiled)
        in if is_compiled sc (n_kind n)
           then if \<not> compiled_provenance then Inl (CompiledProvenance (n_id n))
                else (case compiled_get compiled (n_kind n) (n_key n) of
                        Some c \<Rightarrow>
                          if cn_attrs c = n_attrs n \<and> cn_label c = n_label n \<and> n_revision n = 0
                             \<and> pv_transition (n_provenance n) = 0
                          then Inr ()
                          else Inl (CompiledMismatch (n_kind n) (n_key n))
                      | None \<Rightarrow> Inl (CompiledMismatch (n_kind n) (n_key n)))
           else if compiled_provenance then Inl (CompiledProvenance (n_id n))
           else Inr ())"

text \<open>\<open>index_u32\<close> panics past \<open>u32::MAX\<close>; the callers below carry that guard.\<close>

definition index_u32 :: "nat \<Rightarrow> u32" where
  "index_u32 i = of_nat i"

definition key_entries :: "node_record list \<Rightarrow> (node_kind \<times> string \<times> u32) list" where
  "key_entries nodes = sort (map (\<lambda>(i, n). (n_kind n, n_key n, index_u32 i)) (enumerate 0 nodes))"

definition key_of :: "node_kind \<times> string \<times> u32 \<Rightarrow> node_kind \<times> string" where
  "key_of k = (fst k, fst (snd k))"

definition check_compiled ::
  "schema \<Rightarrow> (node_kind \<times> string \<times> u32) list \<Rightarrow> compiled_node \<Rightarrow> graph_error + unit" where
  "check_compiled sc keys c =
     (if \<not> is_compiled sc (cn_kind c) then Inl (CompiledMismatch (cn_kind c) (cn_key c))
      else if binary_search key_of (cn_kind c, cn_key c) keys = None
      then Inl (CompiledMissing (cn_kind c) (cn_key c))
      else Inr ())"

definition node_position :: "node_record list \<Rightarrow> node_id \<Rightarrow> nat option" where
  "node_position nodes nid = binary_search n_id nid nodes"

definition check_edge ::
  "graph_space \<Rightarrow> schema \<Rightarrow> node_record list \<Rightarrow> edge_record \<Rightarrow> graph_error + unit" where
  "check_edge space sc nodes e =
     (if edge_kind_name sc (e_kind e) = None then Inl (UnknownEdgeKind (e_kind e))
      else if e_space e \<noteq> space then Inl SpaceMismatch
      else if e_label e = [] then Inl EmptyLabel
      else if pv_kind (e_provenance e) = PCompiled then Inl (CompiledEdgeProvenance (e_id e))
      else
        (case (node_position nodes (e_from e), node_position nodes (e_to e)) of
           (Some f, Some t) \<Rightarrow>
             if \<not> schema_allows sc (n_kind (nodes ! f)) (e_kind e) (n_kind (nodes ! t))
             then Inl (ForbiddenTriple (n_kind (nodes ! f)) (e_kind e) (n_kind (nodes ! t)))
             else if forbids_target sc (e_kind e) (n_kind (nodes ! t)) (n_key (nodes ! t))
             then Inl (ForbiddenTarget (e_id e))
             else Inr ()
         | _ \<Rightarrow> Inl (DanglingEdge (e_id e))))"

definition count_owner :: "nat \<Rightarrow> u32 list \<Rightarrow> u32 list" where
  "count_owner owner out = out[Suc owner := out ! Suc owner + 1]"

definition prefix_step :: "nat \<Rightarrow> u32 list \<Rightarrow> u32 list" where
  "prefix_step i out = out[Suc i := out ! Suc i + out ! i]"

definition offsets :: "nat \<Rightarrow> nat option list \<Rightarrow> u32 list" where
  "offsets nodes owners =
     fold prefix_step [0..<nodes]
       (fold count_owner (List.map_filter (\<lambda>own. own) owners) (replicate (Suc nodes) 0))"

definition out_key :: "node_record list \<Rightarrow> edge_record \<Rightarrow> nat option \<times> edge_kind \<times> node_id \<times> edge_id" where
  "out_key nodes e = (node_position nodes (e_from e), e_kind e, e_to e, e_id e)"

definition in_key :: "node_record list \<Rightarrow> edge_record \<Rightarrow> nat option \<times> edge_kind \<times> node_id \<times> edge_id" where
  "in_key nodes e = (node_position nodes (e_to e), e_kind e, e_from e, e_id e)"

definition assemble ::
  "graph_space \<Rightarrow> u64 \<Rightarrow> schema \<Rightarrow> node_record list \<Rightarrow> edge_record list \<Rightarrow> graph" where
  "assemble space revision sc nodes edges0 =
     (let edges = sort_key (out_key nodes) edges0;
          in_edges = sort_key (\<lambda>i. in_key nodes (edges ! unat i)) (map index_u32 [0..<length edges])
      in \<lparr>g_space = space, g_revision = revision, g_schema_version = sc_version sc,
          g_nodes = nodes, g_edges = edges,
          g_out_offsets = offsets (length nodes) (map (\<lambda>e. node_position nodes (e_from e)) edges),
          g_in_offsets = offsets (length nodes)
            (map (\<lambda>i. node_position nodes (e_to (edges ! unat i))) in_edges),
          g_in_edges = in_edges, g_keys = key_entries nodes\<rparr>)"

text \<open>The checks of \<open>build_encoded\<close>, in order, up to the assembled graph.\<close>

definition build_graph ::
  "graph_builder \<Rightarrow> schema \<Rightarrow> compiled_set \<Rightarrow> (graph_error + graph) outcome" where
  "build_graph b sc compiled =
     (let nodes = sort_key n_id (b_nodes b)
      in case first_pair (\<lambda>x y. n_id x = n_id y) nodes of
           Some (x, _) \<Rightarrow> Returns (Inl (DuplicateNodeId (n_id x)))
         | None \<Rightarrow>
             (case check_all (check_node (b_space b) sc compiled) nodes of
                Inl e \<Rightarrow> Returns (Inl e)
              | Inr _ \<Rightarrow>
                  if length nodes > 2 ^ 32 then Panics
                  else
                    let keys = key_entries nodes
                    in case first_pair (\<lambda>x y. key_of x = key_of y) keys of
                         Some (x, _) \<Rightarrow> Returns (Inl (DuplicateKey (fst x) (fst (snd x))))
                       | None \<Rightarrow>
                           (case check_all (check_compiled sc keys) compiled of
                              Inl e \<Rightarrow> Returns (Inl e)
                            | Inr _ \<Rightarrow>
                                let edges = sort_key e_id (b_edges b)
                                in case first_pair (\<lambda>x y. e_id x = e_id y) edges of
                                     Some (x, _) \<Rightarrow> Returns (Inl (DuplicateEdgeId (e_id x)))
                                   | None \<Rightarrow>
                                       (case check_all (check_edge (b_space b) sc nodes) edges of
                                          Inl e \<Rightarrow> Returns (Inl e)
                                        | Inr _ \<Rightarrow>
                                            if length edges > 2 ^ 32 then Panics
                                            else Returns (Inr (assemble (b_space b) (b_revision b) sc
                                                   nodes edges))))))"

section \<open>Queries\<close>

definition graph_position :: "graph \<Rightarrow> node_id \<Rightarrow> nat option" where
  "graph_position g nid = node_position (g_nodes g) nid"

definition graph_node :: "graph \<Rightarrow> node_id \<Rightarrow> node_record option" where
  "graph_node g nid = map_option (\<lambda>i. g_nodes g ! i) (graph_position g nid)"

definition graph_lookup :: "graph \<Rightarrow> node_kind \<Rightarrow> string \<Rightarrow> node_record option" where
  "graph_lookup g kind key =
     map_option (\<lambda>i. g_nodes g ! unat (snd (snd (g_keys g ! i)))) (binary_search key_of (kind, key) (g_keys g))"

definition out_edges :: "graph \<Rightarrow> node_id \<Rightarrow> edge_kind \<Rightarrow> edge_record list" where
  "out_edges g nid kind =
     (let row = (case graph_position g nid of
                   Some i \<Rightarrow> slice (unat (g_out_offsets g ! i)) (unat (g_out_offsets g ! Suc i)) (g_edges g)
                 | None \<Rightarrow> [])
      in slice (partition_point (\<lambda>e. e_kind e < kind) row) (partition_point (\<lambda>e. e_kind e \<le> kind) row) row)"

definition in_edges :: "graph \<Rightarrow> node_id \<Rightarrow> edge_kind \<Rightarrow> edge_record list" where
  "in_edges g nid kind =
     (let edge = (\<lambda>j. g_edges g ! unat j);
          row = (case graph_position g nid of
                   Some i \<Rightarrow> slice (unat (g_in_offsets g ! i)) (unat (g_in_offsets g ! Suc i)) (g_in_edges g)
                 | None \<Rightarrow> [])
      in map edge (slice (partition_point (\<lambda>j. e_kind (edge j) < kind) row)
                     (partition_point (\<lambda>j. e_kind (edge j) \<le> kind) row) row))"

section \<open>Offsets\<close>

definition owned :: "nat option list \<Rightarrow> nat \<Rightarrow> nat" where
  "owned owners k = length (filter (\<lambda>own. own = Some k) owners)"

definition owned_below :: "nat option list \<Rightarrow> nat \<Rightarrow> nat" where
  "owned_below owners i = length (filter (\<lambda>own. \<exists>k<i. own = Some k) owners)"

lemma owned_Cons: "owned (own # owners) k = (if own = Some k then Suc (owned owners k) else owned owners k)"
  by (simp add: owned_def)

lemma owned_below_0 [simp]: "owned_below owners 0 = 0"
  by (simp add: owned_below_def)

lemma owned_below_Suc: "owned_below owners (Suc i) = owned_below owners i + owned owners i"
  by (induction owners) (auto simp: owned_below_def owned_def less_Suc_eq)

lemma owned_below_le: "owned_below owners i \<le> length owners"
  by (simp add: owned_below_def)

lemma count_fold:
  fixes out :: "u32 list"
  assumes "length out = Suc nodes" "\<forall>k. Some k \<in> set owners \<longrightarrow> k < nodes"
  shows "length (fold count_owner (List.map_filter (\<lambda>own. own) owners) out) = Suc nodes
    \<and> (\<forall>j\<le>nodes. fold count_owner (List.map_filter (\<lambda>own. own) owners) out ! j
          = out ! j + (case j of 0 \<Rightarrow> 0 | Suc k \<Rightarrow> of_nat (owned owners k)))"
  using assms
proof (induction owners arbitrary: out)
  case Nil
  then show ?case by (simp add: List.map_filter_simps owned_def split: nat.split)
next
  case (Cons own owners)
  show ?case
  proof (cases own)
    case None
    then have o: "owned (own # owners) = owned owners" by (simp add: fun_eq_iff owned_Cons)
    show ?thesis unfolding o using Cons None by (simp add: List.map_filter_simps)
  next
    case (Some k)
    then have k: "Suc k < length out" using Cons.prems by auto
    let ?out = "count_owner k out"
    have IH: "length (fold count_owner (List.map_filter (\<lambda>own. own) owners) ?out) = Suc nodes
       \<and> (\<forall>j\<le>nodes. fold count_owner (List.map_filter (\<lambda>own. own) owners) ?out ! j
          = ?out ! j + (case j of 0 \<Rightarrow> 0 | Suc k \<Rightarrow> of_nat (owned owners k)))"
      by (rule Cons.IH) (use Cons.prems in \<open>auto simp: count_owner_def\<close>)
    with Some k show ?thesis
      by (auto simp: List.map_filter_simps owned_Cons count_owner_def [of k] nth_list_update split: nat.split)
  qed
qed

lemma prefix_fold:
  fixes out :: "u32 list"
  assumes "length out = Suc nodes" "m \<le> nodes" "out ! 0 = 0"
    and "\<forall>k<nodes. out ! Suc k = of_nat (owned owners k)"
  shows "length (fold prefix_step [0..<m] out) = Suc nodes
    \<and> (\<forall>j\<le>m. fold prefix_step [0..<m] out ! j = of_nat (owned_below owners j))
    \<and> (\<forall>j\<le>nodes. m < j \<longrightarrow> fold prefix_step [0..<m] out ! j = out ! j)"
  using assms(2)
proof (induction m)
  case 0
  with assms show ?case by simp
next
  case (Suc m)
  let ?f = "fold prefix_step [0..<m] out"
  have IH: "length ?f = Suc nodes" "\<And>j. j \<le> m \<Longrightarrow> ?f ! j = of_nat (owned_below owners j)"
    "\<And>j. j \<le> nodes \<Longrightarrow> m < j \<Longrightarrow> ?f ! j = out ! j"
    using Suc.IH Suc.prems by auto
  have "?f ! Suc m + ?f ! m = of_nat (owned_below owners (Suc m))"
    using IH(2) [of m] IH(3) [of "Suc m"] Suc.prems assms(4) by (simp add: owned_below_Suc)
  moreover have "fold prefix_step [0..<Suc m] out = ?f[Suc m := ?f ! Suc m + ?f ! m]"
    by (simp add: prefix_step_def [of m])
  ultimately show ?case using IH Suc.prems by (simp add: nth_list_update le_Suc_eq)
qed

lemma offsets_nth:
  assumes "\<forall>k. Some k \<in> set owners \<longrightarrow> k < nodes" "i \<le> nodes"
  shows "offsets nodes owners ! i = of_nat (owned_below owners i)"
proof -
  let ?c = "fold count_owner (List.map_filter (\<lambda>own. own) owners) (replicate (Suc nodes) (0 :: u32))"
  have c: "length ?c = Suc nodes \<and> (\<forall>j\<le>nodes. ?c ! j = replicate (Suc nodes) 0 ! j
      + (case j of 0 \<Rightarrow> 0 | Suc k \<Rightarrow> of_nat (owned owners k)))"
    by (rule count_fold) (use assms in auto)
  have "?c ! 0 = 0" "\<forall>k<nodes. ?c ! Suc k = of_nat (owned owners k)"
    using c by (auto simp: nth_Cons' split: nat.splits)
  from prefix_fold [OF _ order_refl this] c assms(2) show ?thesis
    by (simp add: offsets_def)
qed

lemma length_offsets [simp]: "length (offsets nodes owners) = Suc nodes"
proof -
  have l1: "length (fold count_owner xs out) = length out"
    for xs and out :: "u32 list" by (induction xs arbitrary: out) (auto simp: count_owner_def)
  have l2: "length (fold prefix_step xs out) = length out"
    for xs and out :: "u32 list" by (induction xs arbitrary: out) (auto simp: prefix_step_def)
  show ?thesis by (simp add: offsets_def Let_def l1 l2)
qed

text \<open>In a slice sorted by owner, the row between two offsets is the run of one owner.\<close>

lemma offsets_row:
  assumes "sorted (map own xs)" "\<forall>x\<in>set xs. \<exists>k<nodes. own x = Some k" "length xs < 2 ^ 32" "i < nodes"
  shows "slice (unat (offsets nodes (map own xs) ! i)) (unat (offsets nodes (map own xs) ! Suc i)) xs
    = filter (\<lambda>x. own x = Some i) xs"
proof (rule slice_sorted_run [OF assms(1)])
  have all: "\<forall>k. Some k \<in> set (map own xs) \<longrightarrow> k < nodes" using assms(2) by fastforce
  have below: "owned_below (map own xs) j = length (filter (\<lambda>x. own x < Some j) xs)" for j
  proof -
    have "owned_below (map own xs) j = length (filter (\<lambda>x. \<exists>k<j. own x = Some k) xs)"
      by (simp add: owned_below_def filter_map comp_def)
    moreover have "filter (\<lambda>x. \<exists>k<j. own x = Some k) xs = filter (\<lambda>x. own x < Some j) xs"
      by (rule filter_cong [OF refl]) (use assms(2) in \<open>fastforce\<close>)
    ultimately show ?thesis by simp
  qed
  have u: "unat (of_nat (owned_below (map own xs) j) :: u32) = owned_below (map own xs) j" for j
    using owned_below_le [of "map own xs" j] assms(3) by (simp add: unat_of_nat)
  show "unat (offsets nodes (map own xs) ! i) = length (filter (\<lambda>x. own x < Some i) xs)"
    using offsets_nth [OF all, of i] assms(4) u below by simp
  have "filter (\<lambda>x. own x < Some (Suc i)) xs = filter (\<lambda>x. own x \<le> Some i) xs"
    by (rule filter_cong [OF refl]) (use assms(2) in fastforce)
  then show "unat (offsets nodes (map own xs) ! Suc i) = length (filter (\<lambda>x. own x \<le> Some i) xs)"
    using offsets_nth [OF all, of "Suc i"] assms(4) u [of "Suc i"] below [of "Suc i"] by simp
qed

section \<open>What a successful build establishes\<close>

lemma sorted_sort_key_map: "sorted (map f (sort_key f xs))"
  by (rule sorted_sort_key)

lemma key_of_mono: "x \<le> y \<Longrightarrow> key_of x \<le> key_of y"
  by (cases x; cases y) (auto simp: key_of_def less_eq_prod_def less_prod_def)

lemma key_entries_sorted: "sorted (map key_of (key_entries nodes))"
proof -
  have "sorted (key_entries nodes)" by (simp add: key_entries_def)
  then show ?thesis by (auto simp: sorted_map intro: sorted_wrt_mono_rel [rotated] key_of_mono)
qed

lemma set_key_entries:
  "set (key_entries nodes) = (\<lambda>i. (n_kind (nodes ! i), n_key (nodes ! i), index_u32 i)) ` {..<length nodes}"
  by (auto simp: key_entries_def in_set_enumerate_eq image_iff Bex_def)

lemma key_of_entries: "key_of ` set (key_entries nodes) = (\<lambda>n. (n_kind n, n_key n)) ` set nodes"
  by (auto simp: set_key_entries key_of_def image_iff in_set_conv_nth Bex_def) metis

text \<open>The conditions under which the checks pass, on the nodes in id order.\<close>

definition nodes_ok :: "graph_space \<Rightarrow> schema \<Rightarrow> compiled_set \<Rightarrow> node_record list \<Rightarrow> bool" where
  "nodes_ok space sc compiled nodes \<longleftrightarrow>
     sorted (map n_id nodes) \<and> distinct (map n_id nodes)
     \<and> (\<forall>n\<in>set nodes. check_node space sc compiled n = Inr ())
     \<and> length nodes \<le> 2 ^ 32 \<and> distinct (map key_of (key_entries nodes))
     \<and> (\<forall>c\<in>set compiled. check_compiled sc (key_entries nodes) c = Inr ())"

definition edges_ok :: "graph_space \<Rightarrow> schema \<Rightarrow> node_record list \<Rightarrow> edge_record list \<Rightarrow> bool" where
  "edges_ok space sc nodes edges \<longleftrightarrow>
     distinct (map e_id edges) \<and> length edges \<le> 2 ^ 32
     \<and> (\<forall>e\<in>set edges. check_edge space sc nodes e = Inr ())"

lemma edges_ok_mset: "mset xs = mset ys \<Longrightarrow> edges_ok space sc nodes xs = edges_ok space sc nodes ys"
proof -
  assume m: "mset xs = mset ys"
  then have "mset (map e_id xs) = mset (map e_id ys)" by simp
  then have "distinct (map e_id xs) = distinct (map e_id ys)" by (rule mset_eq_imp_distinct_iff)
  then show ?thesis using m mset_eq_setD [OF m] mset_eq_length [OF m] by (simp add: edges_ok_def)
qed

lemma step_check_iff:
  "(case c of Inl e \<Rightarrow> Returns (Inl e) | Inr u \<Rightarrow> k) = Returns (Inr g) \<longleftrightarrow> c = Inr () \<and> k = Returns (Inr g)"
  by (cases c) simp_all

lemma step_pair_iff:
  "(case o' of None \<Rightarrow> k | Some (x, y) \<Rightarrow> Returns (Inl (f x))) = Returns (Inr g)
     \<longleftrightarrow> o' = None \<and> k = Returns (Inr g)"
  by (cases o') auto

lemma step_panic_iff: "(if p then Panics else k) = Returns g \<longleftrightarrow> \<not> p \<and> k = Returns g"
  by simp

lemma build_graph_iff:
  "build_graph b sc compiled = Returns (Inr g) \<longleftrightarrow>
     nodes_ok (b_space b) sc compiled (sort_key n_id (b_nodes b))
     \<and> edges_ok (b_space b) sc (sort_key n_id (b_nodes b)) (b_edges b)
     \<and> g = assemble (b_space b) (b_revision b) sc (sort_key n_id (b_nodes b)) (sort_key e_id (b_edges b))"
proof -
  define nodes where "nodes = sort_key n_id (b_nodes b)"
  define edges where "edges = sort_key e_id (b_edges b)"
  have "mset edges = mset (b_edges b)" by (simp add: edges_def)
  then have eo: "edges_ok (b_space b) sc nodes (b_edges b) = edges_ok (b_space b) sc nodes edges"
    using edges_ok_mset [of edges "b_edges b"] by simp
  have sn: "sorted (map n_id nodes)" and se: "sorted (map e_id edges)" by (simp_all add: nodes_def edges_def)
  note dn = first_pair_equal_None [OF sn] and de = first_pair_equal_None [OF se]
    and dk = first_pair_equal_None [OF key_entries_sorted, of nodes]
  show ?thesis
    unfolding nodes_def [symmetric] edges_def [symmetric] eo
    unfolding build_graph_def Let_def nodes_ok_def edges_ok_def nodes_def [symmetric] edges_def [symmetric]
      step_check_iff step_pair_iff step_panic_iff dn de dk check_all_Inr_iff
    by (simp add: sn not_less conj_commute conj_left_commute eq_commute [of g])
qed

lemma out_key_inj:
  assumes "distinct (map e_id edges)"
  shows "inj_on (out_key nodes) (set edges)"
  using inj_on_of_distinct [OF assms] by (auto simp: inj_on_def out_key_def)

lemma sort_out_key_unique:
  assumes "mset xs = mset ys" "distinct (map e_id xs)"
  shows "sort_key (out_key nodes) xs = sort_key (out_key nodes) ys"
proof (rule sorted_inj_unique [of "out_key nodes"])
  show "mset (sort_key (out_key nodes) xs) = mset (sort_key (out_key nodes) ys)" using assms(1) by simp
  show "inj_on (out_key nodes) (set (sort_key (out_key nodes) xs))" using out_key_inj [OF assms(2)] by simp
qed simp_all

text \<open>
  The graphs \<open>build\<close> can return: the records pass the checks and are in canonical order, and every
  index is the one computed from them.
\<close>

definition graph_ok :: "schema \<Rightarrow> compiled_set \<Rightarrow> graph \<Rightarrow> bool" where
  "graph_ok sc compiled g \<longleftrightarrow>
     nodes_ok (g_space g) sc compiled (g_nodes g) \<and> edges_ok (g_space g) sc (g_nodes g) (g_edges g)
     \<and> sorted (map (out_key (g_nodes g)) (g_edges g))
     \<and> g = assemble (g_space g) (g_revision g) sc (g_nodes g) (g_edges g)"

definition builder_of :: "graph \<Rightarrow> graph_builder" where
  "builder_of g = \<lparr>b_space = g_space g, b_revision = g_revision g, b_nodes = g_nodes g, b_edges = g_edges g\<rparr>"

lemma assemble_simps [simp]:
  "g_space (assemble space revn sc nodes edges) = space"
  "g_revision (assemble space revn sc nodes edges) = revn"
  "g_schema_version (assemble space revn sc nodes edges) = sc_version sc"
  "g_nodes (assemble space revn sc nodes edges) = nodes"
  "g_edges (assemble space revn sc nodes edges) = sort_key (out_key nodes) edges"
  "g_keys (assemble space revn sc nodes edges) = key_entries nodes"
  by (simp_all add: assemble_def Let_def)

lemma assemble_mset:
  assumes "mset xs = mset ys" "distinct (map e_id xs)"
  shows "assemble space revn sc nodes xs = assemble space revn sc nodes ys"
  using sort_out_key_unique [OF assms] by (simp add: assemble_def)

lemma build_graph_ok:
  assumes "build_graph b sc compiled = Returns (Inr g)"
  shows "graph_ok sc compiled g" "g_space g = b_space b" "g_revision g = b_revision b"
    "mset (g_nodes g) = mset (b_nodes b)" "mset (g_edges g) = mset (b_edges b)"
proof -
  note i = assms [unfolded build_graph_iff]
  let ?nodes = "sort_key n_id (b_nodes b)" and ?edges = "sort_key e_id (b_edges b)"
  have g: "g = assemble (b_space b) (b_revision b) sc ?nodes ?edges" using i by blast
  show "g_space g = b_space b" "g_revision g = b_revision b" "mset (g_nodes g) = mset (b_nodes b)"
    and me: "mset (g_edges g) = mset (b_edges b)" by (simp_all add: g)
  have d: "distinct (map e_id (b_edges b))" using i by (simp add: edges_ok_def)
  have eo: "edges_ok (b_space b) sc ?nodes (g_edges g)"
    using i edges_ok_mset [OF me] by metis
  have "assemble (b_space b) (b_revision b) sc ?nodes (g_edges g) = g"
    using assemble_mset [of ?edges "g_edges g"] eo me unfolding g
    by (metis edges_ok_def mset_sort assemble_mset)
  with i eo show "graph_ok sc compiled g" by (simp add: graph_ok_def g)
qed

lemma rebuild:
  assumes "graph_ok sc compiled g"
  shows "build_graph (builder_of g) sc compiled = Returns (Inr g)"
proof -
  have n: "nodes_ok (g_space g) sc compiled (g_nodes g)" and e: "edges_ok (g_space g) sc (g_nodes g) (g_edges g)"
    and g: "g = assemble (g_space g) (g_revision g) sc (g_nodes g) (g_edges g)"
    using assms by (simp_all add: graph_ok_def)
  have "sort_key n_id (g_nodes g) = g_nodes g"
    using n by (simp add: nodes_ok_def sort_key_sorted_id)
  moreover have "assemble (g_space g) (g_revision g) sc (g_nodes g) (sort_key e_id (g_edges g)) = g"
    using e g assemble_mset [of "g_edges g" "sort_key e_id (g_edges g)"] by (metis edges_ok_def mset_sort)
  ultimately show ?thesis unfolding build_graph_iff using n e by (simp add: builder_of_def)
qed

section \<open>Queries agree with the records\<close>

lemma node_position_iff:
  assumes "nodes_ok space sc compiled nodes"
  shows "node_position nodes nid = Some i \<longleftrightarrow> i < length nodes \<and> n_id (nodes ! i) = nid"
  using assms unfolding node_position_def nodes_ok_def by (simp add: binary_search_iff)

lemma node_position_None:
  assumes "nodes_ok space sc compiled nodes"
  shows "node_position nodes nid = None \<longleftrightarrow> nid \<notin> n_id ` set nodes"
  using assms unfolding node_position_def nodes_ok_def by (simp add: binary_search_None_iff)

lemma graph_node_iff:
  assumes "graph_ok sc compiled g"
  shows "graph_node g nid = Some n \<longleftrightarrow> n \<in> set (g_nodes g) \<and> n_id n = nid"
proof -
  have n: "nodes_ok (g_space g) sc compiled (g_nodes g)" using assms by (simp add: graph_ok_def)
  show ?thesis
    by (auto simp: graph_node_def graph_position_def node_position_iff [OF n] in_set_conv_nth)
qed

lemma unat_index_u32: "i < 2 ^ 32 \<Longrightarrow> unat (index_u32 i) = i"
  by (simp add: index_u32_def unat_of_nat)

lemma graph_lookup_iff:
  assumes "graph_ok sc compiled g"
  shows "graph_lookup g kind key = Some n \<longleftrightarrow> n \<in> set (g_nodes g) \<and> n_kind n = kind \<and> n_key n = key"
proof -
  let ?keys = "key_entries (g_nodes g)"
  have n: "nodes_ok (g_space g) sc compiled (g_nodes g)" and k: "g_keys g = ?keys"
    using assms by (auto simp: graph_ok_def) (metis assemble_simps(6))
  have d: "distinct (map key_of ?keys)" and len: "length (g_nodes g) \<le> 2 ^ 32"
    using n by (simp_all add: nodes_ok_def)
  note bs = binary_search_iff [OF key_entries_sorted d, of "(kind, key)"]
  have entry: "(\<exists>i<length ?keys. ?keys ! i = e) \<longleftrightarrow> (\<exists>j<length (g_nodes g).
      e = (n_kind (g_nodes g ! j), n_key (g_nodes g ! j), index_u32 j))" for e
  proof -
    have "(\<exists>i<length ?keys. ?keys ! i = e) \<longleftrightarrow> e \<in> set ?keys" by (simp add: in_set_conv_nth)
    then show ?thesis unfolding set_key_entries by auto
  qed
  have "graph_lookup g kind key = Some n \<longleftrightarrow>
      (\<exists>i<length ?keys. key_of (?keys ! i) = (kind, key) \<and> g_nodes g ! unat (snd (snd (?keys ! i))) = n)"
    unfolding graph_lookup_def k map_option_eq_Some bs by blast
  also have "\<dots> \<longleftrightarrow> (\<exists>e. (\<exists>i<length ?keys. ?keys ! i = e) \<and> key_of e = (kind, key) \<and> g_nodes g ! unat (snd (snd e)) = n)"
    by blast
  also have "\<dots> \<longleftrightarrow> (\<exists>j<length (g_nodes g). n_kind (g_nodes g ! j) = kind \<and> n_key (g_nodes g ! j) = key
      \<and> g_nodes g ! j = n)"
    unfolding entry using len by (auto simp: key_of_def unat_index_u32)
  finally show ?thesis by (auto simp: in_set_conv_nth)
qed

lemma check_edge_positions:
  assumes "check_edge space sc nodes e = Inr ()"
  obtains f t where "node_position nodes (e_from e) = Some f" "node_position nodes (e_to e) = Some t"
    "schema_allows sc (n_kind (nodes ! f)) (e_kind e) (n_kind (nodes ! t))"
    "\<not> forbids_target sc (e_kind e) (n_kind (nodes ! t)) (n_key (nodes ! t))"
  using assms by (auto simp: check_edge_def split: if_splits option.splits)

lemma graph_edge_checked:
  "graph_ok sc compiled g \<Longrightarrow> e \<in> set (g_edges g) \<Longrightarrow> check_edge (g_space g) sc (g_nodes g) e = Inr ()"
  by (simp add: graph_ok_def edges_ok_def)

lemma graph_edge_ends:
  assumes "graph_ok sc compiled g" "e \<in> set (g_edges g)"
  obtains f t where "f \<in> set (g_nodes g)" "n_id f = e_from e" "t \<in> set (g_nodes g)" "n_id t = e_to e"
    "schema_allows sc (n_kind f) (e_kind e) (n_kind t)" "\<not> forbids_target sc (e_kind e) (n_kind t) (n_key t)"
proof -
  have n: "nodes_ok (g_space g) sc compiled (g_nodes g)" using assms(1) by (simp add: graph_ok_def)
  obtain f t where "node_position (g_nodes g) (e_from e) = Some f" "node_position (g_nodes g) (e_to e) = Some t"
    "schema_allows sc (n_kind (g_nodes g ! f)) (e_kind e) (n_kind (g_nodes g ! t))"
    "\<not> forbids_target sc (e_kind e) (n_kind (g_nodes g ! t)) (n_key (g_nodes g ! t))"
    using graph_edge_checked [OF assms] by (rule check_edge_positions)
  then show thesis
    using that [of "g_nodes g ! f" "g_nodes g ! t"] by (simp add: node_position_iff [OF n])
qed

text \<open>
  One row of an index: the records sorted by owner, kind and the rest, cut at the offsets of one
  owner and then at one kind.
\<close>

lemma row_of_kind:
  fixes own :: "'a \<Rightarrow> nat option" and kind :: "'a \<Rightarrow> edge_kind" and rest :: "'a \<Rightarrow> 'k::linorder"
  assumes sorted: "sorted (map (\<lambda>x. (own x, kind x, rest x)) xs)"
    and own: "\<forall>x\<in>set xs. \<exists>k<nodes. own x = Some k" and len: "length xs < 2 ^ 32" and i: "i < nodes"
    and row: "row = slice (unat (offsets nodes (map own xs) ! i)) (unat (offsets nodes (map own xs) ! Suc i)) xs"
  shows "slice (partition_point (\<lambda>x. kind x < k) row) (partition_point (\<lambda>x. kind x \<le> k) row) row
    = filter (\<lambda>x. own x = Some i \<and> kind x = k) xs"
proof -
  have "sorted (map own xs)"
    using sorted unfolding sorted_map by (rule sorted_wrt_mono_rel [rotated]) (auto simp: less_eq_prod_def)
  note r = row [unfolded offsets_row [OF this own len i]]
  have "sorted_wrt (\<lambda>x y. (own x, kind x, rest x) \<le> (own y, kind y, rest y)) (filter (\<lambda>x. own x = Some i) xs)"
    using sorted unfolding sorted_map by (rule sorted_wrt_filter)
  then have "sorted (map kind row)"
    unfolding r sorted_map by (rule sorted_wrt_mono_rel [rotated]) (auto simp: less_eq_prod_def less_prod_def)
  from partition_run [OF this, of k] show ?thesis by (simp add: r conj_commute)
qed

lemma out_edges_eq:
  assumes "graph_ok sc compiled g" "length (g_edges g) < 2 ^ 32"
  shows "out_edges g nid kind = filter (\<lambda>e. e_from e = nid \<and> e_kind e = kind) (g_edges g)"
proof -
  let ?own = "\<lambda>e. node_position (g_nodes g) (e_from e)"
  have n: "nodes_ok (g_space g) sc compiled (g_nodes g)"
    and s: "sorted (map (out_key (g_nodes g)) (g_edges g))"
    and g: "g = assemble (g_space g) (g_revision g) sc (g_nodes g) (g_edges g)"
    using assms(1) by (simp_all add: graph_ok_def)
  have "g_out_offsets g = offsets (length (g_nodes g)) (map ?own (sort_key (out_key (g_nodes g)) (g_edges g)))"
    by (subst g) (simp add: assemble_def Let_def)
  then have off: "g_out_offsets g = offsets (length (g_nodes g)) (map ?own (g_edges g))"
    by (simp add: sort_key_sorted_id [OF s])
  have own: "\<forall>e\<in>set (g_edges g). \<exists>k<length (g_nodes g). ?own e = Some k"
    using graph_edge_checked [OF assms(1)] check_edge_positions node_position_iff [OF n] by metis
  show ?thesis
  proof (cases "graph_position g nid")
    case None
    then have "\<forall>e\<in>set (g_edges g). e_from e \<noteq> nid" using own by (auto simp: graph_position_def)
    with None show ?thesis by (simp add: out_edges_def slice_def filter_empty_conv)
  next
    case (Some i)
    then have i: "i < length (g_nodes g)" "n_id (g_nodes g ! i) = nid"
      by (auto simp: graph_position_def node_position_iff [OF n])
    have "?own e = Some i \<longleftrightarrow> e_from e = nid" for e :: edge_record using i by (auto simp: node_position_iff [OF n])
    moreover have "sorted (map (\<lambda>e. (?own e, e_kind e, (e_to e, e_id e))) (g_edges g))"
      using s by (simp add: out_key_def [abs_def])
    ultimately show ?thesis
      using row_of_kind [OF _ own assms(2) i(1) refl, of e_kind "\<lambda>e. (e_to e, e_id e)" kind] Some
      by (simp add: out_edges_def off)
  qed
qed

lemma map_slice: "map f (slice a b xs) = slice a b (map f xs)"
  by (simp add: slice_def take_map drop_map)

lemma partition_point_map: "partition_point p (map f xs) = partition_point (\<lambda>x. p (f x)) xs"
  by (simp add: partition_point_def takeWhile_map comp_def)

lemma in_edge_records:
  assumes "graph_ok sc compiled g"
  shows "map (\<lambda>j. g_edges g ! unat j) (g_in_edges g) = sort_key (in_key (g_nodes g)) (g_edges g)"
proof -
  let ?E = "\<lambda>j. g_edges g ! unat j" and ?js = "map index_u32 [0..<length (g_edges g)]"
  have s: "sorted (map (out_key (g_nodes g)) (g_edges g))"
    and g: "g = assemble (g_space g) (g_revision g) sc (g_nodes g) (g_edges g)"
    and d: "distinct (map e_id (g_edges g))" and len: "length (g_edges g) \<le> 2 ^ 32"
    using assms by (simp_all add: graph_ok_def edges_ok_def)
  have ie: "g_in_edges g = sort_key (\<lambda>j. in_key (g_nodes g) (?E j)) ?js"
    by (subst g) (simp add: assemble_def Let_def sort_key_sorted_id [OF s])
  have "map ?E ?js = map (\<lambda>i. g_edges g ! i) [0..<length (g_edges g)]"
    using len by (auto simp: unat_index_u32)
  then have E: "map ?E ?js = g_edges g" by (simp add: map_nth)
  show ?thesis
  proof (rule sorted_inj_unique [of "in_key (g_nodes g)"])
    show "sorted (map (in_key (g_nodes g)) (map ?E (g_in_edges g)))"
      using sorted_sort_key [of "\<lambda>j. in_key (g_nodes g) (?E j)" ?js] by (simp add: ie comp_def)
    have "mset (map ?E (g_in_edges g)) = mset (map ?E ?js)" unfolding mset_map ie by simp
    then show m: "mset (map ?E (g_in_edges g)) = mset (sort_key (in_key (g_nodes g)) (g_edges g))"
      by (simp only: E mset_sort)
    have "inj_on (in_key (g_nodes g)) (set (g_edges g))"
      using inj_on_of_distinct [OF d] by (auto simp: inj_on_def in_key_def)
    then show "inj_on (in_key (g_nodes g)) (set (map ?E (g_in_edges g)))"
      using mset_eq_setD [OF m] by simp
  qed simp
qed

lemma in_edges_eq:
  assumes "graph_ok sc compiled g" "length (g_edges g) < 2 ^ 32"
  shows "in_edges g nid kind
    = filter (\<lambda>e. e_to e = nid \<and> e_kind e = kind) (sort_key (in_key (g_nodes g)) (g_edges g))"
proof -
  let ?own = "\<lambda>e. node_position (g_nodes g) (e_to e)" and ?es = "sort_key (in_key (g_nodes g)) (g_edges g)"
  let ?E = "\<lambda>j. g_edges g ! unat j"
  have n: "nodes_ok (g_space g) sc compiled (g_nodes g)"
    and s: "sorted (map (out_key (g_nodes g)) (g_edges g))"
    and g: "g = assemble (g_space g) (g_revision g) sc (g_nodes g) (g_edges g)"
    using assms(1) by (simp_all add: graph_ok_def)
  note E = in_edge_records [OF assms(1)]
  have "g_in_offsets g = offsets (length (g_nodes g)) (map (\<lambda>j. ?own (?E j)) (g_in_edges g))"
    by (subst (1) g, subst (6) g) (simp add: assemble_def Let_def sort_key_sorted_id [OF s])
  also have "map (\<lambda>j. ?own (?E j)) (g_in_edges g) = map ?own ?es" unfolding E [symmetric] by simp
  finally have off: "g_in_offsets g = offsets (length (g_nodes g)) (map ?own ?es)" .
  have own: "\<forall>e\<in>set ?es. \<exists>k<length (g_nodes g). ?own e = Some k"
    using graph_edge_checked [OF assms(1)] check_edge_positions node_position_iff [OF n]
    by (metis set_sort)
  show ?thesis
  proof (cases "graph_position g nid")
    case None
    then have "\<forall>e\<in>set (g_edges g). e_to e \<noteq> nid" using own by (auto simp: graph_position_def)
    with None show ?thesis by (simp add: in_edges_def slice_def filter_empty_conv)
  next
    case (Some i)
    then have i: "i < length (g_nodes g)" "n_id (g_nodes g ! i) = nid"
      by (auto simp: graph_position_def node_position_iff [OF n])
    have eq: "?own e = Some i \<longleftrightarrow> e_to e = nid" for e :: edge_record using i by (auto simp: node_position_iff [OF n])
    have sorted: "sorted (map (\<lambda>e. (?own e, e_kind e, (e_from e, e_id e))) ?es)"
      using sorted_sort_key [of "in_key (g_nodes g)" "g_edges g"] by (simp add: in_key_def [abs_def])
    have len: "length ?es < 2 ^ 32" using assms(2) by simp
    have pp: "partition_point (\<lambda>j. e_kind (?E j) < kind) js = partition_point (\<lambda>e. e_kind e < kind) (map ?E js)"
      "partition_point (\<lambda>j. e_kind (?E j) \<le> kind) js = partition_point (\<lambda>e. e_kind e \<le> kind) (map ?E js)" for js
      by (simp_all add: partition_point_map)
    show ?thesis
      using row_of_kind [OF sorted own len i(1) refl, of kind] Some
      by (simp add: in_edges_def Let_def off map_slice pp E eq)
  qed
qed

end
