(* ===== verification/GraphFormat.thy ===== *)
theory GraphFormat
  imports Graph Bytes
begin

text \<open>
  The store format of the security graph (\<^verbatim>\<open>maknae-graph/src/format.rs\<close>, \<^verbatim>\<open>bytes.rs\<close>): the
  canonical encoding, the decoder with its limits, and \<open>build_encoded\<close>, which refuses a graph
  whose decoding would pass those limits. A panic of \<open>index_u32\<close>, an overflow of a \<open>u32\<close> counter
  and a buffer past \<open>isize::MAX\<close> are the \<open>Panics\<close> branch of \<open>encode\<close>; the \<open>expect\<close> of the string
  table cannot fire, because the table holds every string of the graph (\<open>string_table_complete\<close>).
  Counter overflow panics in builds with overflow checks, which is what is modelled; without them
  the attribute counter of \<open>push_attrs\<close> would wrap, on a graph of \<open>2 ^ 32\<close> attributes or more, whose
  encoding exceeds 64 GiB. The range index that cuts a section out of the buffer is \<open>slice_at\<close>, so
  \<open>parse\<close> and the decoders panic where the index is out of range. A \<open>Reader\<close> is the bytes it has
  not read yet; \<open>take_at_refines\<close> relates that to the buffer and position the code keeps.
\<close>

section \<open>Errors and constants\<close>

datatype format_error =
    Truncated
  | BadMagic
  | UnsupportedFormatVersion u16
  | UnsupportedSchemaVersion u16 u16
  | NonZeroReserved
  | UnknownFlags u16
  | UnknownSpaceTag u8
  | WrongSpace
  | BadSectionCount u32
  | BadSectionLayout
  | TrailingBytes
  | BadUtf8
  | BadStrRef u64
  | UnknownProvenance u16
  | UnknownAttrTag u8
  | BadAttrRange
  | FormatExpansionLimit
  | NonCanonical
  | FGraph graph_error

definition MAGIC :: bytes where "MAGIC = [0x4D, 0x4B, 0x4E, 0x47]"
definition FORMAT_VERSION :: u16 where "FORMAT_VERSION = 1"
definition HEADER_LEN :: nat where "HEADER_LEN = 40"
definition SECTION_COUNT :: nat where "SECTION_COUNT = 7"
definition SECTIONS_START :: nat where "SECTIONS_START = HEADER_LEN + SECTION_COUNT * 16"
definition EXPANSION_LIMIT :: nat where "EXPANSION_LIMIT = 4"
definition ATTR_STR :: u8 where "ATTR_STR = 1"
definition ATTR_U64 :: u8 where "ATTR_U64 = 2"

definition within_expansion_limit :: "nat \<Rightarrow> nat \<Rightarrow> bool" where
  "within_expansion_limit charged encoded_len \<longleftrightarrow> charged \<le> EXPANSION_LIMIT * encoded_len"

section \<open>Encoding\<close>

fun attr_strings :: "graph_attrs \<Rightarrow> string list" where
  "attr_strings [] = []"
| "attr_strings ((k, GStr s) # a) = k # s # attr_strings a"
| "attr_strings ((k, GU64 _) # a) = k # attr_strings a"

definition node_strings :: "node_record \<Rightarrow> string list" where
  "node_strings n = n_key n # n_label n # attr_strings (n_attrs n)"

definition edge_strings :: "edge_record \<Rightarrow> string list" where
  "edge_strings e = e_label e # attr_strings (e_attrs e)"

definition string_table :: "graph \<Rightarrow> string list" where
  "string_table g =
     remdups_adj (sort (concat (map node_strings (g_nodes g)) @ concat (map edge_strings (g_edges g))))"

definition sref :: "string list \<Rightarrow> string \<Rightarrow> u32" where
  "sref strings s = (case binary_search (\<lambda>x. x) s strings of Some i \<Rightarrow> index_u32 i | None \<Rightarrow> 0)"

fun space_parts :: "graph_space \<Rightarrow> u8 \<times> u64" where
  "space_parts SharedSpace = (0, 0)"
| "space_parts (UserSpace s) = (1, s)"
| "space_parts KernelSpace = (2, 0)"

fun attr_bytes :: "string list \<Rightarrow> string \<times> graph_attr \<Rightarrow> bytes" where
  "attr_bytes strings (k, GStr s) =
     to_le 4 (sref strings k) @ [ATTR_STR] @ [0, 0, 0] @ to_le 8 (ucast (sref strings s) :: u64)"
| "attr_bytes strings (k, GU64 x) =
     to_le 4 (sref strings k) @ [ATTR_U64] @ [0, 0, 0] @ to_le 8 x"

definition push_attrs :: "string list \<Rightarrow> u32 \<Rightarrow> graph_attrs \<Rightarrow> bytes \<times> u32 \<times> u32 \<times> u32" where
  "push_attrs strings cnt a =
     (concat (map (attr_bytes strings) a), cnt + of_nat (length a), cnt, index_u32 (length a))"

definition node_bytes :: "string list \<Rightarrow> u32 \<Rightarrow> u32 \<Rightarrow> node_record \<Rightarrow> bytes" where
  "node_bytes strings start cnt n =
     to_le 8 (n_id n) @ to_le 2 (n_kind n) @ to_le 2 (provenance_code (pv_kind (n_provenance n)))
     @ [fst (space_parts (n_space n))] @ [0, 0, 0] @ to_le 8 (snd (space_parts (n_space n)))
     @ to_le 4 (sref strings (n_key n)) @ to_le 4 (sref strings (n_label n))
     @ to_le 8 (n_revision n) @ to_le 8 (pv_transition (n_provenance n)) @ to_le 4 start @ to_le 4 cnt"

definition edge_bytes :: "string list \<Rightarrow> u32 \<Rightarrow> u32 \<Rightarrow> edge_record \<Rightarrow> bytes" where
  "edge_bytes strings start cnt e =
     to_le 8 (e_id e) @ to_le 8 (e_from e) @ to_le 8 (e_to e) @ to_le 2 (e_kind e)
     @ to_le 2 (provenance_code (pv_kind (e_provenance e)))
     @ [fst (space_parts (e_space e))] @ [0, 0, 0] @ to_le 8 (snd (space_parts (e_space e)))
     @ to_le 4 (sref strings (e_label e)) @ to_le 4 (0 :: u32)
     @ to_le 8 (e_revision e) @ to_le 8 (pv_transition (e_provenance e)) @ to_le 4 start @ to_le 4 cnt"

text \<open>The record loops: the table bytes, the attribute bytes, and the running attribute count.\<close>

fun put_nodes :: "string list \<Rightarrow> u32 \<Rightarrow> node_record list \<Rightarrow> bytes \<times> bytes \<times> u32" where
  "put_nodes strings cnt [] = ([], [], cnt)"
| "put_nodes strings cnt (n # ns) =
     (let (ab, cnt', start, len) = push_attrs strings cnt (n_attrs n);
          (nb, abs, cnt'') = put_nodes strings cnt' ns
      in (node_bytes strings start len n @ nb, ab @ abs, cnt''))"

fun put_edges :: "string list \<Rightarrow> u32 \<Rightarrow> edge_record list \<Rightarrow> bytes \<times> bytes \<times> u32" where
  "put_edges strings cnt [] = ([], [], cnt)"
| "put_edges strings cnt (e # es) =
     (let (ab, cnt', start, len) = push_attrs strings cnt (e_attrs e);
          (eb, abs, cnt'') = put_edges strings cnt' es
      in (edge_bytes strings start len e @ eb, ab @ abs, cnt''))"

definition key_bytes :: "string list \<Rightarrow> node_kind \<times> string \<times> u32 \<Rightarrow> bytes" where
  "key_bytes strings k =
     to_le 2 (fst k) @ to_le 2 (0 :: u16) @ to_le 4 (sref strings (fst (snd k))) @ to_le 4 (snd (snd k))"

definition string_bytes :: "string \<Rightarrow> bytes" where
  "string_bytes s = to_le 4 (index_u32 (length s)) @ as_bytes s"

definition encode_sections :: "graph \<Rightarrow> bytes list" where
  "encode_sections g =
     (let strings = string_table g;
          (nodes, node_attrs, cnt) = put_nodes strings 0 (g_nodes g);
          (edges, edge_attrs, cnt') = put_edges strings cnt (g_edges g)
      in [to_le 4 (index_u32 (length strings)) @ concat (map string_bytes strings),
          to_le 4 (index_u32 (length (g_nodes g))) @ nodes,
          to_le 4 (index_u32 (length (g_edges g))) @ edges,
          concat (map (to_le 4) (g_out_offsets g)),
          concat (map (to_le 4) (g_in_offsets g)) @ concat (map (to_le 4) (g_in_edges g)),
          concat (map (key_bytes strings) (g_keys g)),
          to_le 4 cnt' @ node_attrs @ edge_attrs])"

definition header_bytes :: "graph \<Rightarrow> bytes" where
  "header_bytes g =
     MAGIC @ to_le 2 FORMAT_VERSION @ to_le 2 (g_schema_version g)
     @ [fst (space_parts (g_space g))] @ [0] @ to_le 2 (0 :: u16)
     @ to_le 8 (snd (space_parts (g_space g))) @ to_le 8 (g_revision g)
     @ to_le 4 (index_u32 SECTION_COUNT) @ to_le 8 (0 :: u64)"

fun section_table :: "u64 \<Rightarrow> bytes list \<Rightarrow> bytes" where
  "section_table offset [] = []"
| "section_table offset (s # ss) =
     to_le 8 offset @ to_le 8 (of_nat (length s) :: u64) @ section_table (offset + of_nat (length s)) ss"

definition encode_bytes :: "graph \<Rightarrow> bytes" where
  "encode_bytes g =
     header_bytes g @ section_table (of_nat SECTIONS_START) (encode_sections g) @ concat (encode_sections g)"

text \<open>What must fit for the counters, the casts and the buffer not to panic.\<close>

definition attr_total :: "graph \<Rightarrow> nat" where
  "attr_total g = sum_list (map (\<lambda>n. length (n_attrs n)) (g_nodes g))
     + sum_list (map (\<lambda>e. length (e_attrs e)) (g_edges g))"

definition encode_fits :: "graph \<Rightarrow> bool" where
  "encode_fits g \<longleftrightarrow>
     length (g_nodes g) < 2 ^ 32 \<and> length (g_edges g) < 2 ^ 32 \<and> attr_total g < 2 ^ 32
     \<and> length (string_table g) < 2 ^ 32 \<and> (\<forall>s\<in>set (string_table g). length s < 2 ^ 32)
     \<and> length (encode_bytes g) < 2 ^ 63"

definition encode :: "graph \<Rightarrow> bytes outcome" where
  "encode g = (if encode_fits g then Returns (encode_bytes g) else Panics)"

section \<open>Building\<close>

definition attrs_bytes_len :: "graph_attrs \<Rightarrow> nat" where
  "attrs_bytes_len a =
     sum_list (map (\<lambda>(k, v). length k + (case v of GStr s \<Rightarrow> length s | GU64 _ \<Rightarrow> 0)) a)"

definition reference_bytes :: "graph \<Rightarrow> nat" where
  "reference_bytes g =
     sum_list (map (\<lambda>n. length (n_key n) + length (n_label n) + attrs_bytes_len (n_attrs n)) (g_nodes g))
     + sum_list (map (\<lambda>e. length (e_label e) + attrs_bytes_len (e_attrs e)) (g_edges g))"

definition build_encoded ::
  "graph_builder \<Rightarrow> schema \<Rightarrow> compiled_set \<Rightarrow> (graph_error + graph \<times> bytes) outcome" where
  "build_encoded b sc compiled =
     (case build_graph b sc compiled of
        Panics \<Rightarrow> Panics
      | Returns (Inl e) \<Rightarrow> Returns (Inl e)
      | Returns (Inr g) \<Rightarrow>
          (case encode g of
             Panics \<Rightarrow> Panics
           | Returns encoded \<Rightarrow>
               if \<not> within_expansion_limit (reference_bytes g) (length encoded)
               then Returns (Inl GraphExpansionLimit)
               else Returns (Inr (g, encoded))))"

definition build :: "graph_builder \<Rightarrow> schema \<Rightarrow> compiled_set \<Rightarrow> (graph_error + graph) outcome" where
  "build b sc compiled =
     (case build_encoded b sc compiled of
        Panics \<Rightarrow> Panics
      | Returns (Inl e) \<Rightarrow> Returns (Inl e)
      | Returns (Inr (g, _)) \<Rightarrow> Returns (Inr g))"

section \<open>Reading\<close>

type_synonym 'a reader = "bytes \<Rightarrow> format_error + 'a \<times> bytes"

definition r_take :: "nat \<Rightarrow> bytes reader" where
  "r_take n bs = (if n \<le> length bs then Inr (take n bs, drop n bs) else Inl Truncated)"

text \<open>
  \<open>Reader::take\<close> on the buffer and position of the code. The suffix index \<open>buf[pos..]\<close> panics past
  the end of the buffer.
\<close>

definition take_at :: "nat \<Rightarrow> bytes \<Rightarrow> nat \<Rightarrow> (format_error + bytes \<times> nat) outcome" where
  "take_at n buf pos =
     (case slice_at pos (length buf) buf of
        Panics \<Rightarrow> Panics
      | Returns tail \<Rightarrow> if n \<le> length tail then Returns (Inr (take n tail, pos + n)) else Returns (Inl Truncated))"

lemma take_at_refines:
  assumes "pos \<le> length buf"
  shows "take_at n buf pos =
      (case r_take n (drop pos buf) of Inl e \<Rightarrow> Returns (Inl e) | Inr (a, _) \<Rightarrow> Returns (Inr (a, pos + n)))"
    and "r_take n (drop pos buf) = Inr (a, rest) \<Longrightarrow> length a = n \<and> pos + n \<le> length buf \<and> rest = drop (pos + n) buf"
  using assms by (auto simp: take_at_def r_take_def slice_at_def slice_def add.commute split: if_splits)

definition r_u8 :: "u8 reader" where
  "r_u8 bs = res_bind (r_take 1 bs) (\<lambda>(a, bs). Inr (a ! 0, bs))"

definition r_u16 :: "u16 reader" where
  "r_u16 bs = res_bind (r_take 2 bs) (\<lambda>(a, bs). Inr (from_le a, bs))"

definition r_u32 :: "u32 reader" where
  "r_u32 bs = res_bind (r_take 4 bs) (\<lambda>(a, bs). Inr (from_le a, bs))"

definition r_u64 :: "u64 reader" where
  "r_u64 bs = res_bind (r_take 8 bs) (\<lambda>(a, bs). Inr (from_le a, bs))"

definition reserved :: "nat \<Rightarrow> unit reader" where
  "reserved n bs =
     res_bind (r_take n bs) (\<lambda>(a, bs). if list_ex (\<lambda>b. b \<noteq> 0) a then Inl NonZeroReserved else Inr ((), bs))"

definition r_done :: "bytes \<Rightarrow> format_error + unit" where
  "r_done bs = (if bs = [] then Inr () else Inl TrailingBytes)"

definition decode_space :: "u8 \<Rightarrow> u64 \<Rightarrow> format_error + graph_space" where
  "decode_space tag subject =
     (if tag = 0 then Inr SharedSpace
      else if tag = 1 then Inr (UserSpace subject)
      else if tag = 2 then Inr KernelSpace
      else Inl (UnknownSpaceTag tag))"

definition decode_provenance :: "u16 \<Rightarrow> u64 \<Rightarrow> format_error + provenance" where
  "decode_provenance code transition =
     res_bind (ok_or (UnknownProvenance code) (provenance_from_code code))
       (\<lambda>kind. Inr \<lparr>pv_kind = kind, pv_transition = transition\<rparr>)"

text \<open>Readers that also draw on the budget for expanded strings.\<close>

type_synonym 'a budgeted = "bytes \<times> nat \<Rightarrow> format_error + 'a \<times> bytes \<times> nat"

definition on_bytes :: "'a reader \<Rightarrow> 'a budgeted" where
  "on_bytes r s = res_bind (r (fst s)) (\<lambda>(x, bs). Inr (x, bs, snd s))"

definition strings_get :: "string list \<Rightarrow> u64 \<Rightarrow> string budgeted" where
  "strings_get strings i s =
     res_bind (ok_or (BadStrRef i) (nth_opt strings (unat i))) (\<lambda>str.
       if length str \<le> snd s then Inr (str, fst s, snd s - length str) else Inl FormatExpansionLimit)"

definition read_ref :: "string list \<Rightarrow> string budgeted" where
  "read_ref strings s = res_bind (on_bytes r_u32 s) (\<lambda>(i, s). strings_get strings (ucast i) s)"

definition read_string :: "string reader" where
  "read_string bs =
     res_bind (r_u32 bs) (\<lambda>(len, bs).
     res_bind (r_take (unat len) bs) (\<lambda>(a, bs).
     if utf8_valid a then Inr (of_bytes a, bs) else Inl BadUtf8))"

definition read_strings :: "bytes \<Rightarrow> format_error + string list" where
  "read_strings sect =
     res_bind (r_u32 sect) (\<lambda>(cnt, bs).
     res_bind (get_many read_string (unat cnt) bs) (\<lambda>(out, bs).
     res_bind (r_done bs) (\<lambda>_. Inr out)))"

definition read_node :: "string list \<Rightarrow> (node_record \<times> u32 \<times> u32) budgeted" where
  "read_node strings s =
     res_bind (on_bytes r_u64 s) (\<lambda>(nid, s).
     res_bind (on_bytes r_u16 s) (\<lambda>(kind, s).
     res_bind (on_bytes r_u16 s) (\<lambda>(code, s).
     res_bind (on_bytes r_u8 s) (\<lambda>(tag, s).
     res_bind (on_bytes (reserved 3) s) (\<lambda>(_, s).
     res_bind (on_bytes r_u64 s) (\<lambda>(subj, s).
     res_bind (read_ref strings s) (\<lambda>(key, s).
     res_bind (read_ref strings s) (\<lambda>(label, s).
     res_bind (on_bytes r_u64 s) (\<lambda>(revision, s).
     res_bind (on_bytes r_u64 s) (\<lambda>(transition, s).
     res_bind (on_bytes r_u32 s) (\<lambda>(start, s).
     res_bind (on_bytes r_u32 s) (\<lambda>(cnt, s).
     res_bind (decode_space tag subj) (\<lambda>space.
     res_bind (decode_provenance code transition) (\<lambda>prov.
     Inr ((\<lparr>n_id = nid, n_space = space, n_kind = kind, n_key = key, n_label = label,
            n_provenance = prov, n_revision = revision, n_attrs = []\<rparr>, start, cnt), s)))))))))))))))"

definition read_edge :: "string list \<Rightarrow> (edge_record \<times> u32 \<times> u32) budgeted" where
  "read_edge strings s =
     res_bind (on_bytes r_u64 s) (\<lambda>(eid, s).
     res_bind (on_bytes r_u64 s) (\<lambda>(from, s).
     res_bind (on_bytes r_u64 s) (\<lambda>(to, s).
     res_bind (on_bytes r_u16 s) (\<lambda>(kind, s).
     res_bind (on_bytes r_u16 s) (\<lambda>(code, s).
     res_bind (on_bytes r_u8 s) (\<lambda>(tag, s).
     res_bind (on_bytes (reserved 3) s) (\<lambda>(_, s).
     res_bind (on_bytes r_u64 s) (\<lambda>(subj, s).
     res_bind (read_ref strings s) (\<lambda>(label, s).
     res_bind (on_bytes (reserved 4) s) (\<lambda>(_, s).
     res_bind (on_bytes r_u64 s) (\<lambda>(revision, s).
     res_bind (on_bytes r_u64 s) (\<lambda>(transition, s).
     res_bind (on_bytes r_u32 s) (\<lambda>(start, s).
     res_bind (on_bytes r_u32 s) (\<lambda>(cnt, s).
     res_bind (decode_space tag subj) (\<lambda>space.
     res_bind (decode_provenance code transition) (\<lambda>prov.
     Inr ((\<lparr>e_id = eid, e_space = space, e_from = from, e_to = to, e_kind = kind, e_label = label,
            e_provenance = prov, e_revision = revision, e_attrs = []\<rparr>, start, cnt), s)))))))))))))))))"

definition read_attr :: "string list \<Rightarrow> (string \<times> graph_attr) budgeted" where
  "read_attr strings s =
     res_bind (read_ref strings s) (\<lambda>(key, s).
     res_bind (on_bytes r_u8 s) (\<lambda>(tag, s).
     res_bind (on_bytes (reserved 3) s) (\<lambda>(_, s).
     res_bind (on_bytes r_u64 s) (\<lambda>(raw, s).
     if tag = ATTR_STR then res_bind (strings_get strings raw s) (\<lambda>(v, s). Inr ((key, GStr v), s))
     else if tag = ATTR_U64 then Inr ((key, GU64 raw), s)
     else Inl (UnknownAttrTag tag)))))"

text \<open>A counted table: the count, that many records, and nothing after them.\<close>

definition read_table :: "'a budgeted \<Rightarrow> bytes \<Rightarrow> nat \<Rightarrow> format_error + 'a list \<times> nat" where
  "read_table r sect budget =
     res_bind (on_bytes r_u32 (sect, budget)) (\<lambda>(cnt, s).
     res_bind (get_many r (unat cnt) s) (\<lambda>(out, bs, budget).
     res_bind (r_done bs) (\<lambda>_. Inr (out, budget))))"

definition take_attrs ::
  "(string \<times> graph_attr) list \<times> nat \<Rightarrow> u32 \<Rightarrow> u32 \<Rightarrow> format_error + graph_attrs \<times> (string \<times> graph_attr) list \<times> nat" where
  "take_attrs s start cnt =
     (case s of (rest, cursor) \<Rightarrow>
        if unat start \<noteq> cursor \<or> unat cnt > length rest then Inl BadAttrRange
        else Inr (bt_of_list (take (unat cnt) rest), drop (unat cnt) rest, cursor + unat cnt))"

fun attach_nodes ::
  "(node_record \<times> u32 \<times> u32) list \<Rightarrow> (string \<times> graph_attr) list \<times> nat
    \<Rightarrow> format_error + node_record list \<times> (string \<times> graph_attr) list \<times> nat" where
  "attach_nodes [] s = Inr ([], s)"
| "attach_nodes ((n, start, cnt) # ns) s =
     res_bind (take_attrs s start cnt) (\<lambda>(a, s).
     res_bind (attach_nodes ns s) (\<lambda>(out, s). Inr (n\<lparr>n_attrs := a\<rparr> # out, s)))"

fun attach_edges ::
  "(edge_record \<times> u32 \<times> u32) list \<Rightarrow> (string \<times> graph_attr) list \<times> nat
    \<Rightarrow> format_error + edge_record list \<times> (string \<times> graph_attr) list \<times> nat" where
  "attach_edges [] s = Inr ([], s)"
| "attach_edges ((e, start, cnt) # es) s =
     res_bind (take_attrs s start cnt) (\<lambda>(a, s).
     res_bind (attach_edges es s) (\<lambda>(out, s). Inr (e\<lparr>e_attrs := a\<rparr> # out, s)))"

fun read_sections :: "bytes \<Rightarrow> nat \<Rightarrow> u64 \<Rightarrow> bytes \<Rightarrow> (format_error + bytes list \<times> u64) outcome" where
  "read_sections buf 0 next bs = Returns (Inr ([], next))"
| "read_sections buf (Suc n) next bs =
     try_bind (Returns (r_u64 bs)) (\<lambda>(offset, bs).
     try_bind (Returns (r_u64 bs)) (\<lambda>(len, bs).
     if offset \<noteq> next then Returns (Inl BadSectionLayout)
     else if unat offset + unat len \<ge> 2 ^ 64 \<or> unat offset + unat len > length buf
     then Returns (Inl BadSectionLayout)
     else
       (case slice_at (unat offset) (unat (offset + len)) buf of
          Panics \<Rightarrow> Panics
        | Returns s \<Rightarrow>
            try_bind (read_sections buf n (offset + len) bs) (\<lambda>(ss, next). Returns (Inr (s # ss, next))))))"

definition parse_header :: "graph_space \<Rightarrow> schema \<Rightarrow> (graph_space \<times> u64) reader" where
  "parse_header expected sc bs =
     res_bind (r_take 4 bs) (\<lambda>(magic, bs).
     if magic \<noteq> MAGIC then Inl BadMagic else
     res_bind (r_u16 bs) (\<lambda>(format, bs).
     if format \<noteq> FORMAT_VERSION then Inl (UnsupportedFormatVersion format) else
     res_bind (r_u16 bs) (\<lambda>(schema_version, bs).
     if schema_version \<noteq> sc_version sc
     then Inl (UnsupportedSchemaVersion schema_version (sc_version sc)) else
     res_bind (r_u8 bs) (\<lambda>(tag, bs).
     res_bind (r_u8 bs) (\<lambda>(res, bs).
     res_bind (r_u16 bs) (\<lambda>(flags, bs).
     res_bind (r_u64 bs) (\<lambda>(subj, bs).
     res_bind (r_u64 bs) (\<lambda>(revision, bs).
     res_bind (r_u32 bs) (\<lambda>(cnt, bs).
     res_bind (r_u64 bs) (\<lambda>(reserved_tail, bs).
     if flags \<noteq> 0 then Inl (UnknownFlags flags)
     else if res \<noteq> 0 \<or> reserved_tail \<noteq> 0 then Inl NonZeroReserved
     else if cnt \<noteq> index_u32 SECTION_COUNT then Inl (BadSectionCount cnt)
     else
       res_bind (decode_space tag subj) (\<lambda>space.
       if space \<noteq> expected then Inl WrongSpace else Inr ((space, revision), bs))))))))))))"

text \<open>The records of the sections, once the sections are cut out.\<close>

definition parse_records :: "bytes \<Rightarrow> bytes list \<Rightarrow> graph_space \<Rightarrow> u64 \<Rightarrow> format_error + graph_builder" where
  "parse_records bs sections space revision =
     res_bind (read_strings (sections ! 0)) (\<lambda>strings.
     res_bind (read_table (read_node strings) (sections ! 1) (EXPANSION_LIMIT * length bs)) (\<lambda>(nodes, budget).
     res_bind (read_table (read_edge strings) (sections ! 2) budget) (\<lambda>(edges, budget).
     res_bind (read_table (read_attr strings) (sections ! 6) budget) (\<lambda>(attrs, _).
     res_bind (attach_nodes nodes (attrs, 0)) (\<lambda>(ns, s).
     res_bind (attach_edges edges s) (\<lambda>(es, rest, _).
     if rest \<noteq> [] then Inl BadAttrRange
     else Inr \<lparr>b_space = space, b_revision = revision, b_nodes = ns, b_edges = es\<rparr>))))))"

definition parse :: "bytes \<Rightarrow> graph_space \<Rightarrow> schema \<Rightarrow> (format_error + graph_builder) outcome" where
  "parse bs expected sc =
     try_bind (Returns (parse_header expected sc bs)) (\<lambda>((space, revision), rest).
     try_bind (read_sections bs SECTION_COUNT (of_nat SECTIONS_START) rest) (\<lambda>(sections, next).
     if unat next \<noteq> length bs then Returns (Inl TrailingBytes)
     else Returns (parse_records bs sections space revision)))"

section \<open>Decoding\<close>

definition rebuild_canonical ::
  "graph_builder \<Rightarrow> bytes \<Rightarrow> schema \<Rightarrow> compiled_set \<Rightarrow> (format_error + graph) outcome" where
  "rebuild_canonical b bs sc compiled =
     (case build_encoded b sc compiled of
        Panics \<Rightarrow> Panics
      | Returns (Inl e) \<Rightarrow> Returns (Inl (FGraph e))
      | Returns (Inr (g, encoded)) \<Rightarrow>
          if encoded \<noteq> bs then Returns (Inl NonCanonical) else Returns (Inr g))"

definition decode ::
  "bytes \<Rightarrow> graph_space \<Rightarrow> schema \<Rightarrow> compiled_set \<Rightarrow> (format_error + graph) outcome" where
  "decode bs expected sc compiled =
     try_bind (parse bs expected sc) (\<lambda>b. rebuild_canonical b bs sc compiled)"

definition compiled_of_node :: "node_record \<Rightarrow> compiled_node" where
  "compiled_of_node n =
     \<lparr>cn_kind = n_kind n, cn_key = n_key n, cn_label = n_label n, cn_attrs = n_attrs n\<rparr>"

definition decode_stored_compiled ::
  "bytes \<Rightarrow> graph_space \<Rightarrow> schema \<Rightarrow> (format_error + graph \<times> compiled_set) outcome" where
  "decode_stored_compiled bs expected sc =
     try_bind (parse bs expected sc) (\<lambda>b.
       let stored = map compiled_of_node (filter (\<lambda>n. pv_kind (n_provenance n) = PCompiled) (b_nodes b))
       in try_bind (rebuild_canonical b bs sc stored) (\<lambda>g. Returns (Inr (g, stored))))"

section \<open>Readers undo writers\<close>

lemma r_take_append: "length a = n \<Longrightarrow> r_take n (a @ bs) = Inr (a, bs)"
  by (simp add: r_take_def)

lemma r_u8_Cons [simp]: "r_u8 (b # bs) = Inr (b, bs)"
  by (simp add: r_u8_def r_take_def)

lemma r_u16_to_le [simp]: "r_u16 (to_le 2 v @ bs) = Inr (v, bs)"
  by (simp add: r_u16_def r_take_append from_le_to_le)

lemma r_u32_to_le [simp]: "r_u32 (to_le 4 v @ bs) = Inr (v, bs)"
  by (simp add: r_u32_def r_take_append from_le_to_le)

lemma r_u64_to_le [simp]: "r_u64 (to_le 8 v @ bs) = Inr (v, bs)"
  by (simp add: r_u64_def r_take_append from_le_to_le)

lemma reserved_zeros [simp]:
  "reserved 3 (0 # 0 # 0 # bs) = Inr ((), bs)"
  "reserved 4 (to_le 4 (0 :: u32) @ bs) = Inr ((), bs)"
  by (simp_all add: reserved_def r_take_def to_le_def upt_rec numeral_eq_Suc)

lemma decode_space_parts [simp]: "decode_space (fst (space_parts s)) (snd (space_parts s)) = Inr s"
  by (cases s) (simp_all add: decode_space_def)

lemma decode_provenance_code [simp]:
  "decode_provenance (provenance_code (pv_kind p)) (pv_transition p) = Inr p"
  by (simp add: decode_provenance_def)

interpretation u32s: stream_codec r_u32 "\<lambda>x bs. to_le 4 x @ bs" "\<lambda>_. True"
  by unfold_locales simp

lemma unat_u32_index: "n < 2 ^ 32 \<Longrightarrow> unat (index_u32 n) = n"
  by (simp add: index_u32_def unat_of_nat)

interpretation strs: stream_codec read_string "\<lambda>s bs. string_bytes s @ bs" "\<lambda>s. str_ok s \<and> length s < 2 ^ 32"
  by unfold_locales (simp add: read_string_def string_bytes_def unat_u32_index r_take_append str_ok_def)

section \<open>The string table\<close>

definition table_ok :: "string list \<Rightarrow> bool" where
  "table_ok strings \<longleftrightarrow> sorted strings \<and> distinct strings \<and> length strings < 2 ^ 32"

lemma set_string_table:
  "set (string_table g) = (\<Union>n\<in>set (g_nodes g). set (node_strings n)) \<union> (\<Union>e\<in>set (g_edges g). set (edge_strings e))"
  by (simp add: string_table_def)

lemma string_table_complete:
  assumes "n \<in> set (g_nodes g)"
  shows "set (node_strings n) \<subseteq> set (string_table g)"
  using assms by (auto simp: set_string_table)

lemma string_table_complete_edges:
  assumes "e \<in> set (g_edges g)"
  shows "set (edge_strings e) \<subseteq> set (string_table g)"
  using assms by (auto simp: set_string_table)

lemma distinct_remdups_adj_sorted: "sorted xs \<Longrightarrow> distinct (remdups_adj (xs :: 'a::linorder list))"
proof (induction xs rule: remdups_adj.induct)
  case (3 x y xs)
  then show ?case by (cases "x = y") (auto simp: order.antisym)
qed simp_all

lemma table_ok_string_table: "length (string_table g) < 2 ^ 32 \<Longrightarrow> table_ok (string_table g)"
  unfolding table_ok_def string_table_def
  by (simp add: distinct_remdups_adj_sorted sorted_remdups_adj)

lemma strings_get_sref:
  assumes "table_ok strings" "s \<in> set strings"
  shows "strings_get strings (ucast (sref strings s)) (bs, b + length s) = Inr (s, bs, b)"
proof -
  have "sorted (map (\<lambda>x. x) strings)" "distinct (map (\<lambda>x. x) strings)" using assms(1) by (simp_all add: table_ok_def)
  note bs = binary_search_iff [OF this, of s] and none = binary_search_None_iff [OF this, of s]
  obtain i where i: "binary_search (\<lambda>x. x) s strings = Some i"
    using none assms(2) by (cases "binary_search (\<lambda>x. x) s strings") auto
  then have "i < length strings" "strings ! i = s" using bs by auto
  moreover have "unat (ucast (index_u32 i :: u32) :: u64) = i"
    using \<open>i < length strings\<close> assms(1)
    by (simp add: table_ok_def unsigned_ucast_eq unat_u32_index take_bit_nat_eq_self)
  ultimately show ?thesis by (simp add: strings_get_def sref_def i nth_opt_def)
qed

lemma read_ref_sref:
  assumes "table_ok strings" "s \<in> set strings"
  shows "read_ref strings (to_le 4 (sref strings s) @ bs, b + length s) = Inr (s, bs, b)"
  by (simp add: read_ref_def on_bytes_def strings_get_sref [OF assms])

section \<open>Records\<close>

definition feed_node :: "string list \<Rightarrow> node_record \<times> u32 \<times> u32 \<Rightarrow> bytes \<times> nat \<Rightarrow> bytes \<times> nat" where
  "feed_node strings x s =
     (case x of (n, start, cnt) \<Rightarrow>
        (node_bytes strings start cnt n @ fst s, snd s + length (n_label n) + length (n_key n)))"

definition node_in :: "string list \<Rightarrow> node_record \<times> u32 \<times> u32 \<Rightarrow> bool" where
  "node_in strings x \<longleftrightarrow>
     n_key (fst x) \<in> set strings \<and> n_label (fst x) \<in> set strings \<and> n_attrs (fst x) = []"

definition feed_edge :: "string list \<Rightarrow> edge_record \<times> u32 \<times> u32 \<Rightarrow> bytes \<times> nat \<Rightarrow> bytes \<times> nat" where
  "feed_edge strings x s =
     (case x of (e, start, cnt) \<Rightarrow> (edge_bytes strings start cnt e @ fst s, snd s + length (e_label e)))"

definition edge_in :: "string list \<Rightarrow> edge_record \<times> u32 \<times> u32 \<Rightarrow> bool" where
  "edge_in strings x \<longleftrightarrow> e_label (fst x) \<in> set strings \<and> e_attrs (fst x) = []"

definition attr_cost :: "string \<times> graph_attr \<Rightarrow> nat" where
  "attr_cost kv = (case snd kv of GStr s \<Rightarrow> length s | GU64 _ \<Rightarrow> 0) + length (fst kv)"

definition feed_attr :: "string list \<Rightarrow> string \<times> graph_attr \<Rightarrow> bytes \<times> nat \<Rightarrow> bytes \<times> nat" where
  "feed_attr strings kv s = (attr_bytes strings kv @ fst s, snd s + attr_cost kv)"

definition attr_in :: "string list \<Rightarrow> string \<times> graph_attr \<Rightarrow> bool" where
  "attr_in strings kv \<longleftrightarrow> set (attr_strings [kv]) \<subseteq> set strings"

lemma node_codec:
  assumes "table_ok strings"
  shows "stream_codec (read_node strings) (feed_node strings) (node_in strings)"
proof
  fix x s
  assume "node_in strings x"
  then show "read_node strings (feed_node strings x s) = Inr (x, s)"
    by (cases x; cases s)
      (simp add: read_node_def feed_node_def node_bytes_def node_in_def on_bytes_def
        read_ref_sref [OF assms])
qed

lemma edge_codec:
  assumes "table_ok strings"
  shows "stream_codec (read_edge strings) (feed_edge strings) (edge_in strings)"
proof
  fix x s
  assume "edge_in strings x"
  then show "read_edge strings (feed_edge strings x s) = Inr (x, s)"
    by (cases x; cases s)
      (simp add: read_edge_def feed_edge_def edge_bytes_def edge_in_def on_bytes_def
        read_ref_sref [OF assms])
qed

lemma attr_codec:
  assumes "table_ok strings"
  shows "stream_codec (read_attr strings) (feed_attr strings) (attr_in strings)"
proof
  fix x s
  assume x: "attr_in strings x"
  obtain k v where kv: "x = (k, v)" by fastforce
  show "read_attr strings (feed_attr strings x s) = Inr (x, s)"
  proof (cases v)
    case (GStr str)
    with x kv show ?thesis
      by (cases s) (simp add: read_attr_def feed_attr_def attr_in_def attr_cost_def on_bytes_def
          ATTR_STR_def ATTR_U64_def add.assoc [symmetric] read_ref_sref [OF assms] strings_get_sref [OF assms])
  next
    case (GU64 w)
    with x kv show ?thesis
      by (cases s) (simp add: read_attr_def feed_attr_def attr_in_def attr_cost_def on_bytes_def
          ATTR_STR_def ATTR_U64_def read_ref_sref [OF assms])
  qed
qed

section \<open>Record tables\<close>

fun node_triples :: "u32 \<Rightarrow> node_record list \<Rightarrow> (node_record \<times> u32 \<times> u32) list" where
  "node_triples c [] = []"
| "node_triples c (n # ns) =
     (n\<lparr>n_attrs := []\<rparr>, c, index_u32 (length (n_attrs n))) # node_triples (c + of_nat (length (n_attrs n))) ns"

fun edge_triples :: "u32 \<Rightarrow> edge_record list \<Rightarrow> (edge_record \<times> u32 \<times> u32) list" where
  "edge_triples c [] = []"
| "edge_triples c (e # es) =
     (e\<lparr>e_attrs := []\<rparr>, c, index_u32 (length (e_attrs e))) # edge_triples (c + of_nat (length (e_attrs e))) es"

lemma length_node_triples [simp]: "length (node_triples c ns) = length ns"
  by (induction ns arbitrary: c) simp_all

lemma length_edge_triples [simp]: "length (edge_triples c es) = length es"
  by (induction es arbitrary: c) simp_all

definition attrs_put :: "string list \<Rightarrow> graph_attrs \<Rightarrow> bytes" where
  "attrs_put strings a = concat (map (attr_bytes strings) a)"

lemma put_nodes_eq:
  "put_nodes strings c ns =
     (concat (map (\<lambda>(n, start, cnt). node_bytes strings start cnt n) (node_triples c ns)),
      attrs_put strings (concat (map n_attrs ns)), c + of_nat (sum_list (map (\<lambda>n. length (n_attrs n)) ns)))"
  by (induction ns arbitrary: c)
    (simp_all add: push_attrs_def node_bytes_def attrs_put_def add.assoc)

lemma put_edges_eq:
  "put_edges strings c es =
     (concat (map (\<lambda>(e, start, cnt). edge_bytes strings start cnt e) (edge_triples c es)),
      attrs_put strings (concat (map e_attrs es)), c + of_nat (sum_list (map (\<lambda>e. length (e_attrs e)) es)))"
  by (induction es arbitrary: c)
    (simp_all add: push_attrs_def edge_bytes_def attrs_put_def add.assoc)

definition node_cost :: "node_record \<Rightarrow> nat" where
  "node_cost n = length (n_label n) + length (n_key n)"

lemma feed_nodes:
  "foldr (feed_node strings) (node_triples c ns) (bs, b) =
     (concat (map (\<lambda>(n, start, cnt). node_bytes strings start cnt n) (node_triples c ns)) @ bs,
      b + sum_list (map node_cost ns))"
  by (induction ns arbitrary: c) (simp_all add: feed_node_def node_cost_def)

lemma feed_edges:
  "foldr (feed_edge strings) (edge_triples c es) (bs, b) =
     (concat (map (\<lambda>(e, start, cnt). edge_bytes strings start cnt e) (edge_triples c es)) @ bs,
      b + sum_list (map (\<lambda>e. length (e_label e)) es))"
  by (induction es arbitrary: c) (simp_all add: feed_edge_def)

lemma feed_attrs:
  "foldr (feed_attr strings) a (bs, b) = (attrs_put strings a @ bs, b + sum_list (map attr_cost a))"
  by (induction a) (simp_all add: feed_attr_def attrs_put_def)

lemma attr_strings_append: "attr_strings (a @ a') = attr_strings a @ attr_strings a'"
  by (induction a rule: attr_strings.induct) simp_all

lemma attr_in_all: "set (attr_strings a) \<subseteq> set strings \<Longrightarrow> list_all (attr_in strings) a"
proof (induction a)
  case (Cons kv a)
  then show ?case using attr_strings_append [of "[kv]" a] by (simp add: attr_in_def)
qed simp

lemma node_in_triples:
  "\<forall>n\<in>set ns. set (node_strings n) \<subseteq> set strings \<Longrightarrow> list_all (node_in strings) (node_triples c ns)"
  by (induction ns arbitrary: c) (auto simp: node_in_def node_strings_def)

lemma edge_in_triples:
  "\<forall>e\<in>set es. set (edge_strings e) \<subseteq> set strings \<Longrightarrow> list_all (edge_in strings) (edge_triples c es)"
  by (induction es arbitrary: c) (auto simp: edge_in_def edge_strings_def)

lemma read_table_feed:
  assumes "stream_codec r feed ok" "list_all ok xs" "length xs < 2 ^ 32" "foldr feed xs ([], b) = (bs, b')"
  shows "read_table r (to_le 4 (index_u32 (length xs)) @ bs) b' = Inr (xs, b)"
proof -
  have "get_many r (length xs) (bs, b') = Inr (xs, [], b)"
    using stream_codec.get_many_feed [OF assms(1,2), of "([], b)"] assms(4) by simp
  then show ?thesis using assms(3) by (simp add: read_table_def on_bytes_def unat_u32_index r_done_def)
qed

section \<open>Attributes return to their records\<close>

lemma take_attrs_back:
  assumes "bt_inv a" "unat c = cursor" "length a < 2 ^ 32"
  shows "take_attrs (a @ rest, cursor) c (index_u32 (length a)) = Inr (a, rest, cursor + length a)"
  using assms by (simp add: take_attrs_def unat_u32_index bt_of_list_id)

lemma unat_add_count:
  fixes c :: u32
  assumes "unat c + k < 2 ^ 32"
  shows "unat (c + of_nat k) = unat c + k"
proof -
  have "unat (of_nat k :: u32) = k" using assms by (simp add: unat_of_nat)
  then show ?thesis using assms unat_add_lem [of c "of_nat k"] by simp
qed

lemma attach_nodes_back:
  assumes "\<forall>n\<in>set ns. bt_inv (n_attrs n)" "unat c + sum_list (map (\<lambda>n. length (n_attrs n)) ns) < 2 ^ 32"
  shows "attach_nodes (node_triples c ns) (concat (map n_attrs ns) @ rest, unat c)
    = Inr (ns, rest, unat c + sum_list (map (\<lambda>n. length (n_attrs n)) ns))"
  using assms
proof (induction ns arbitrary: c)
  case (Cons n ns)
  have u: "unat (c + of_nat (length (n_attrs n))) = unat c + length (n_attrs n)"
    using Cons.prems by (intro unat_add_count) simp
  have "attach_nodes (node_triples (c + of_nat (length (n_attrs n))) ns)
      (concat (map n_attrs ns) @ rest, unat c + length (n_attrs n))
    = Inr (ns, rest, unat c + length (n_attrs n) + sum_list (map (\<lambda>n. length (n_attrs n)) ns))"
    using Cons.IH [of "c + of_nat (length (n_attrs n))"] Cons.prems u by simp
  then show ?case
    using take_attrs_back [of "n_attrs n" c "unat c" "concat (map n_attrs ns) @ rest"] Cons.prems by simp
qed simp

lemma attach_edges_back:
  assumes "\<forall>e\<in>set es. bt_inv (e_attrs e)" "unat c + sum_list (map (\<lambda>e. length (e_attrs e)) es) < 2 ^ 32"
  shows "attach_edges (edge_triples c es) (concat (map e_attrs es) @ rest, unat c)
    = Inr (es, rest, unat c + sum_list (map (\<lambda>e. length (e_attrs e)) es))"
  using assms
proof (induction es arbitrary: c)
  case (Cons e es)
  have u: "unat (c + of_nat (length (e_attrs e))) = unat c + length (e_attrs e)"
    using Cons.prems by (intro unat_add_count) simp
  have "attach_edges (edge_triples (c + of_nat (length (e_attrs e))) es)
      (concat (map e_attrs es) @ rest, unat c + length (e_attrs e))
    = Inr (es, rest, unat c + length (e_attrs e) + sum_list (map (\<lambda>e. length (e_attrs e)) es))"
    using Cons.IH [of "c + of_nat (length (e_attrs e))"] Cons.prems u by simp
  then show ?case
    using take_attrs_back [of "e_attrs e" c "unat c" "concat (map e_attrs es) @ rest"] Cons.prems by simp
qed simp

section \<open>The section table\<close>

lemma read_sections_table:
  assumes "buf = pre @ concat ss @ post" "unat nxt = length pre" "length buf < 2 ^ 63"
  shows "read_sections buf (length ss) nxt (section_table nxt ss @ bs)
    = Returns (Inr (ss, nxt + of_nat (length (concat ss))))"
  using assms
proof (induction ss arbitrary: pre nxt)
  case (Cons s ss)
  have len: "unat (of_nat (length s) :: u64) = length s" using Cons.prems(1,3) by (simp add: unat_of_nat)
  have fits: "unat nxt + length s < 2 ^ 64" "unat nxt + length s \<le> length buf"
    using Cons.prems by auto
  have nx: "unat (nxt + of_nat (length s)) = length (pre @ s)"
    using unat_add_lem [of nxt "of_nat (length s)"] fits(1) len Cons.prems(2) by simp
  have "read_sections buf (length ss) (nxt + of_nat (length s)) (section_table (nxt + of_nat (length s)) ss @ bs)
      = Returns (Inr (ss, nxt + of_nat (length s) + of_nat (length (concat ss))))"
    by (rule Cons.IH [OF _ nx]) (use Cons.prems in auto)
  moreover have "slice_at (unat nxt) (unat (nxt + of_nat (length s))) buf = Returns s"
    using Cons.prems nx by (simp add: slice_at_def slice_def)
  ultimately show ?case using fits len by (simp add: add.assoc)
qed simp

section \<open>Decoding an encoding\<close>

text \<open>The invariants of the Rust types: maps are ordered and strings are UTF-8.\<close>

definition attrs_typed :: "graph_attrs \<Rightarrow> bool" where
  "attrs_typed a \<longleftrightarrow> bt_inv a \<and> list_all str_ok (attr_strings a)"

definition node_typed :: "node_record \<Rightarrow> bool" where
  "node_typed n \<longleftrightarrow> str_ok (n_key n) \<and> str_ok (n_label n) \<and> attrs_typed (n_attrs n)"

definition edge_typed :: "edge_record \<Rightarrow> bool" where
  "edge_typed e \<longleftrightarrow> str_ok (e_label e) \<and> attrs_typed (e_attrs e)"

definition records_typed :: "node_record list \<Rightarrow> edge_record list \<Rightarrow> bool" where
  "records_typed ns es \<longleftrightarrow> list_all node_typed ns \<and> list_all edge_typed es"

lemma parse_header_bytes:
  assumes "g_schema_version g = sc_version sc"
  shows "parse_header (g_space g) sc (header_bytes g @ bs) = Inr ((g_space g, g_revision g), bs)"
proof -
  have "r_take 4 (MAGIC @ bs') = Inr (MAGIC, bs')" for bs'
    by (rule r_take_append) (simp add: MAGIC_def)
  then show ?thesis using assms by (simp add: parse_header_def header_bytes_def)
qed

lemma length_header_bytes [simp]: "length (header_bytes g) = HEADER_LEN"
  by (simp add: header_bytes_def MAGIC_def HEADER_LEN_def)

lemma length_section_table [simp]: "length (section_table o' ss) = 16 * length ss"
  by (induction ss arbitrary: o') simp_all

lemma length_encode_sections [simp]: "length (encode_sections g) = SECTION_COUNT"
  by (simp add: encode_sections_def SECTION_COUNT_def Let_def split: prod.split)

lemma read_strings_table:
  assumes "\<forall>s\<in>set strings. str_ok s \<and> length s < 2 ^ 32" "length strings < 2 ^ 32"
  shows "read_strings (to_le 4 (index_u32 (length strings)) @ concat (map string_bytes strings)) = Inr strings"
proof -
  have "list_all (\<lambda>s. str_ok s \<and> length s < 2 ^ 32) strings" using assms(1) by (simp add: list_all_iff)
  from strs.get_many_feed [OF this, of "[]"]
  have "get_many read_string (length strings) (concat (map string_bytes strings)) = Inr (strings, [])"
    by (simp add: foldr_append_bytes)
  then show ?thesis using assms(2) by (simp add: read_strings_def unat_u32_index r_done_def)
qed

lemma string_table_typed:
  assumes "records_typed (g_nodes g) (g_edges g)"
  shows "\<forall>s\<in>set (string_table g). str_ok s"
  using assms
  by (auto simp: set_string_table records_typed_def list_all_iff node_strings_def edge_strings_def
      node_typed_def edge_typed_def attrs_typed_def)

lemma attrs_bytes_len_cost: "attrs_bytes_len a = sum_list (map attr_cost a)"
  by (induction a) (auto simp: attrs_bytes_len_def attr_cost_def)

lemma reference_bytes_cost:
  "reference_bytes g = sum_list (map attr_cost (concat (map n_attrs (g_nodes g)) @ concat (map e_attrs (g_edges g))))
     + sum_list (map (\<lambda>e. length (e_label e)) (g_edges g)) + sum_list (map node_cost (g_nodes g))"
proof -
  have n: "sum_list (map (\<lambda>n. length (n_key n) + length (n_label n) + attrs_bytes_len (n_attrs n)) ns)
      = sum_list (map attr_cost (concat (map n_attrs ns))) + sum_list (map node_cost ns)" for ns
    by (induction ns) (simp_all add: attrs_bytes_len_cost node_cost_def)
  have e: "sum_list (map (\<lambda>e. length (e_label e) + attrs_bytes_len (e_attrs e)) es)
      = sum_list (map attr_cost (concat (map e_attrs es))) + sum_list (map (\<lambda>e. length (e_label e)) es)" for es
    by (induction es) (simp_all add: attrs_bytes_len_cost)
  show ?thesis unfolding reference_bytes_def n e by simp
qed

lemma concat_attr_strings:
  "set (attr_strings (concat as)) = (\<Union>a\<in>set as. set (attr_strings a))"
  by (induction as) (simp_all add: attr_strings_append)

lemma read_record_tables:
  fixes g :: graph
  defines "strings \<equiv> string_table g" and "ns \<equiv> g_nodes g" and "es \<equiv> g_edges g"
  defines "as \<equiv> concat (map n_attrs (g_nodes g)) @ concat (map e_attrs (g_edges g))"
  assumes fits: "encode_fits g"
  shows "read_table (read_node strings) (to_le 4 (index_u32 (length ns))
           @ concat (map (\<lambda>(n, start, cnt). node_bytes strings start cnt n) (node_triples c ns)))
           (b + sum_list (map node_cost ns)) = Inr (node_triples c ns, b)"
    and "read_table (read_edge strings) (to_le 4 (index_u32 (length es))
           @ concat (map (\<lambda>(e, start, cnt). edge_bytes strings start cnt e) (edge_triples c es)))
           (b + sum_list (map (\<lambda>e. length (e_label e)) es)) = Inr (edge_triples c es, b)"
    and "read_table (read_attr strings) (to_le 4 (index_u32 (length as)) @ attrs_put strings as)
           (b + sum_list (map attr_cost as)) = Inr (as, b)"
proof -
  have tok: "table_ok strings" using fits by (simp add: encode_fits_def strings_def table_ok_string_table)
  have nin: "list_all (node_in strings) (node_triples c ns)"
    by (rule node_in_triples) (use string_table_complete in \<open>auto simp: strings_def ns_def\<close>)
  have ein: "list_all (edge_in strings) (edge_triples c es)"
    by (rule edge_in_triples) (use string_table_complete_edges in \<open>auto simp: strings_def es_def\<close>)
  have ain: "list_all (attr_in strings) as"
    by (rule attr_in_all)
      (auto simp: as_def attr_strings_append concat_attr_strings strings_def set_string_table node_strings_def edge_strings_def)
  have la: "length as < 2 ^ 32" using fits by (simp add: encode_fits_def attr_total_def as_def length_concat comp_def)
  show "read_table (read_node strings) (to_le 4 (index_u32 (length ns))
           @ concat (map (\<lambda>(n, start, cnt). node_bytes strings start cnt n) (node_triples c ns)))
           (b + sum_list (map node_cost ns)) = Inr (node_triples c ns, b)"
    using read_table_feed [OF node_codec [OF tok] nin _ feed_nodes [of strings c ns "[]" b, simplified]] fits
    by (simp add: encode_fits_def ns_def)
  show "read_table (read_edge strings) (to_le 4 (index_u32 (length es))
           @ concat (map (\<lambda>(e, start, cnt). edge_bytes strings start cnt e) (edge_triples c es)))
           (b + sum_list (map (\<lambda>e. length (e_label e)) es)) = Inr (edge_triples c es, b)"
    using read_table_feed [OF edge_codec [OF tok] ein _ feed_edges [of strings c es "[]" b, simplified]] fits
    by (simp add: encode_fits_def es_def)
  show "read_table (read_attr strings) (to_le 4 (index_u32 (length as)) @ attrs_put strings as)
           (b + sum_list (map attr_cost as)) = Inr (as, b)"
    using read_table_feed [OF attr_codec [OF tok] ain la feed_attrs [of strings as "[]" b, simplified]] by simp
qed

lemma encode_sections_eq:
  "encode_sections g =
     [to_le 4 (index_u32 (length (string_table g))) @ concat (map string_bytes (string_table g)),
      to_le 4 (index_u32 (length (g_nodes g)))
        @ concat (map (\<lambda>(n, start, cnt). node_bytes (string_table g) start cnt n) (node_triples 0 (g_nodes g))),
      to_le 4 (index_u32 (length (g_edges g)))
        @ concat (map (\<lambda>(e, start, cnt). edge_bytes (string_table g) start cnt e)
            (edge_triples (of_nat (sum_list (map (\<lambda>n. length (n_attrs n)) (g_nodes g)))) (g_edges g))),
      concat (map (to_le 4) (g_out_offsets g)),
      concat (map (to_le 4) (g_in_offsets g)) @ concat (map (to_le 4) (g_in_edges g)),
      concat (map (key_bytes (string_table g)) (g_keys g)),
      to_le 4 (index_u32 (attr_total g))
        @ attrs_put (string_table g) (concat (map n_attrs (g_nodes g)) @ concat (map e_attrs (g_edges g)))]"
  by (simp add: encode_sections_def Let_def put_nodes_eq put_edges_eq index_u32_def attr_total_def attrs_put_def)

lemma read_sections_encode:
  assumes "encode_fits g"
  shows "read_sections (encode_bytes g) SECTION_COUNT (of_nat SECTIONS_START)
      (section_table (of_nat SECTIONS_START) (encode_sections g) @ concat (encode_sections g))
    = Returns (Inr (encode_sections g, of_nat (length (encode_bytes g))))"
proof -
  have start: "unat (of_nat SECTIONS_START :: u64) = SECTIONS_START"
    by (simp add: SECTIONS_START_def HEADER_LEN_def SECTION_COUNT_def)
  have len: "length (encode_bytes g) < 2 ^ 63" using assms by (simp add: encode_fits_def)
  let ?pre = "header_bytes g @ section_table (of_nat SECTIONS_START) (encode_sections g)"
  have pre: "length ?pre = SECTIONS_START" by (simp add: SECTIONS_START_def)
  have buf: "encode_bytes g = ?pre @ concat (encode_sections g) @ []" by (simp add: encode_bytes_def)
  have total: "length (encode_bytes g) = SECTIONS_START + length (concat (encode_sections g))"
    unfolding buf using pre by simp
  show ?thesis
    using read_sections_table [OF buf _ len, of "of_nat SECTIONS_START" "concat (encode_sections g)"] start pre
    by (simp add: total)
qed

lemma parse_encode:
  assumes fits: "encode_fits g" and typed: "records_typed (g_nodes g) (g_edges g)"
    and version: "g_schema_version g = sc_version sc"
    and limit: "within_expansion_limit (reference_bytes g) (length (encode_bytes g))"
  shows "parse (encode_bytes g) (g_space g) sc = Returns (Inr (builder_of g))"
proof -
  let ?ss = "encode_sections g" and ?L = "EXPANSION_LIMIT * length (encode_bytes g)"
  let ?as = "concat (map n_attrs (g_nodes g)) @ concat (map e_attrs (g_edges g))"
  let ?na = "sum_list (map (\<lambda>n. length (n_attrs n)) (g_nodes g))"
  let ?ea = "sum_list (map (\<lambda>e. length (e_attrs e)) (g_edges g))"
  let ?nt = "node_triples 0 (g_nodes g)" and ?et = "edge_triples (of_nat ?na) (g_edges g)"
  define b where "b = ?L - reference_bytes g"
  define b1 where "b1 = b + sum_list (map attr_cost ?as)"
  define b2 where "b2 = b1 + sum_list (map (\<lambda>e. length (e_label e)) (g_edges g))"
  have L: "?L = b2 + sum_list (map node_cost (g_nodes g))"
    using limit unfolding b2_def b1_def b_def within_expansion_limit_def reference_bytes_cost by simp
  have total: "?na + ?ea < 2 ^ 32" using fits by (simp add: encode_fits_def attr_total_def)
  have len: "attr_total g = length ?as" by (simp add: attr_total_def length_concat comp_def)
  have strings: "read_strings (?ss ! 0) = Inr (string_table g)"
    using read_strings_table [of "string_table g"] string_table_typed [OF typed] fits
    by (simp add: encode_sections_eq encode_fits_def)
  have nodes: "read_table (read_node (string_table g)) (?ss ! 1) ?L = Inr (?nt, b2)"
    using read_record_tables(1) [OF fits, of 0 b2] by (simp add: encode_sections_eq L)
  have edges: "read_table (read_edge (string_table g)) (?ss ! 2) b2 = Inr (?et, b1)"
    using read_record_tables(2) [OF fits, of "of_nat ?na" b1] by (simp add: encode_sections_eq b2_def)
  have attrs: "read_table (read_attr (string_table g)) (?ss ! 6) b1 = Inr (?as, b)"
    using read_record_tables(3) [OF fits, of b] by (simp add: encode_sections_eq b1_def len)
  have inv: "\<forall>n\<in>set (g_nodes g). bt_inv (n_attrs n)" "\<forall>e\<in>set (g_edges g). bt_inv (e_attrs e)"
    using typed by (auto simp: records_typed_def list_all_iff node_typed_def edge_typed_def attrs_typed_def)
  have an: "attach_nodes ?nt (?as, 0) = Inr (g_nodes g, concat (map e_attrs (g_edges g)), ?na)"
    using attach_nodes_back [OF inv(1), of 0] total by simp
  have una: "unat (of_nat ?na :: u32) = ?na" using total by (simp add: unat_of_nat)
  have ae: "attach_edges ?et (concat (map e_attrs (g_edges g)), ?na) = Inr (g_edges g, [], ?na + ?ea)"
    using attach_edges_back [OF inv(2), of "of_nat ?na" "[]"] total una by simp
  have end': "unat (of_nat (length (encode_bytes g)) :: u64) = length (encode_bytes g)"
    using fits by (simp add: encode_fits_def unat_of_nat)
  have header: "parse_header (g_space g) sc (encode_bytes g)
      = Inr ((g_space g, g_revision g), section_table (of_nat SECTIONS_START) ?ss @ concat ?ss)"
    using parse_header_bytes [OF version] by (simp add: encode_bytes_def)
  show ?thesis
    unfolding parse_def parse_records_def header
    by (simp add: read_sections_encode [OF fits] end' strings nodes edges attrs an ae builder_of_def
        del: One_nat_def)
qed

lemma encode_Returns: "encode g = Returns bs \<longleftrightarrow> encode_fits g \<and> bs = encode_bytes g"
  by (auto simp: encode_def)

lemma build_encoded_iff:
  "build_encoded b sc compiled = Returns (Inr (g, enc)) \<longleftrightarrow>
     build_graph b sc compiled = Returns (Inr g) \<and> encode g = Returns enc
     \<and> within_expansion_limit (reference_bytes g) (length enc)"
  by (auto simp: build_encoded_def split: outcome.splits sum.splits)

lemma build_iff:
  "build b sc compiled = Returns (Inr g) \<longleftrightarrow> (\<exists>enc. build_encoded b sc compiled = Returns (Inr (g, enc)))"
  by (auto simp: build_def split: outcome.splits sum.splits)

lemma rebuild_encoded:
  assumes "graph_ok sc compiled g" "encode g = Returns enc" "within_expansion_limit (reference_bytes g) (length enc)"
  shows "build_encoded (builder_of g) sc compiled = Returns (Inr (g, enc))"
  unfolding build_encoded_iff using rebuild [OF assms(1)] assms(2,3) by simp

lemma graph_ok_version: "graph_ok sc compiled g \<Longrightarrow> g_schema_version g = sc_version sc"
  unfolding graph_ok_def by (metis assemble_simps(3))

lemma decode_encoded_core:
  assumes "build_encoded b sc compiled = Returns (Inr (g, enc))" "records_typed (b_nodes b) (b_edges b)"
  shows "decode enc (b_space b) sc compiled = Returns (Inr g)"
proof -
  have bg: "build_graph b sc compiled = Returns (Inr g)" and en: "encode g = Returns enc"
    and lim: "within_expansion_limit (reference_bytes g) (length enc)"
    using assms(1) by (simp_all add: build_encoded_iff)
  note ok = build_graph_ok [OF bg]
  have "set (g_nodes g) = set (b_nodes b)" "set (g_edges g) = set (b_edges b)"
    using ok(4,5) mset_eq_setD by blast+
  with assms(2) have "records_typed (g_nodes g) (g_edges g)" by (simp add: records_typed_def list_all_iff)
  then have "parse enc (b_space b) sc = Returns (Inr (builder_of g))"
    using parse_encode [of g sc] en lim graph_ok_version [OF ok(1)] ok(2) by (simp add: encode_Returns)
  then show ?thesis
    using rebuild_encoded [OF ok(1) en lim] by (simp add: decode_def rebuild_canonical_def)
qed

lemma parse_header_space: "parse_header space sc bs = Inr ((sp, revision), rest) \<Longrightarrow> sp = space"
  unfolding parse_header_def
  by (elim res_bind_InrE) (auto split: if_splits prod.splits elim!: res_bind_InrE)

lemma parse_records_space: "parse_records bs sections space revision = Inr b \<Longrightarrow> b_space b = space"
  unfolding parse_records_def
  by (elim res_bind_InrE) (auto split: if_splits prod.splits elim!: res_bind_InrE)

lemma parse_space: "parse bs space sc = Returns (Inr b) \<Longrightarrow> b_space b = space"
  by (auto simp: parse_def elim!: try_bind_InrE dest!: parse_header_space parse_records_space
      split: if_splits prod.splits)

lemma decode_core:
  assumes "decode bs space sc compiled = Returns (Inr g)"
  shows "graph_ok sc compiled g" "encode g = Returns bs" "g_space g = space"
proof -
  obtain b where p: "parse bs space sc = Returns (Inr b)" and r: "rebuild_canonical b bs sc compiled = Returns (Inr g)"
    using assms by (auto simp: decode_def)
  then have be: "build_encoded b sc compiled = Returns (Inr (g, bs))"
    by (auto simp: rebuild_canonical_def split: outcome.splits sum.splits if_splits)
  then have "build_graph b sc compiled = Returns (Inr g)" by (simp add: build_encoded_iff)
  note ok = build_graph_ok [OF this]
  show "graph_ok sc compiled g" "g_space g = space" using ok parse_space [OF p] by simp_all
  show "encode g = Returns bs" using be by (simp add: build_encoded_iff)
qed

end
