(* ===== verification/GraphStore.thy ===== *)
theory GraphStore
  imports GraphFormat
begin

text \<open>
  The store as a whole: the sizes of encodings, what the readers can deliver from arbitrary
  bytes, and from them the properties of the graph component: a built graph is sound, its
  indexes are exact, stores and graphs correspond one to one, and decoding always returns.
\<close>

section \<open>Sizes\<close>

lemma length_record_bytes [simp]:
  "length (node_bytes strings start cnt n) = 56"
  "length (edge_bytes strings start cnt e) = 72"
  "length (key_bytes strings k) = 12"
  "length (attr_bytes strings kv) = 16"
  by (simp_all add: node_bytes_def edge_bytes_def key_bytes_def)
    (cases kv, cases "snd kv", simp_all)

lemma length_concat_const: "(\<And>x. x \<in> set xs \<Longrightarrow> length (f x) = k) \<Longrightarrow> length (concat (map f xs)) = k * length xs"
  by (induction xs) simp_all

lemma length_node_table:
  "length (concat (map (\<lambda>(n, start, cnt). node_bytes strings start cnt n) xs)) = 56 * length xs"
  by (rule length_concat_const) auto

lemma length_edge_table:
  "length (concat (map (\<lambda>(e, start, cnt). edge_bytes strings start cnt e) xs)) = 72 * length xs"
  by (rule length_concat_const) auto

lemma length_u32_table: "length (concat (map (to_le 4) (xs :: u32 list))) = 4 * length xs"
  by (rule length_concat_const) simp

lemma length_key_table: "length (concat (map (key_bytes strings) ks)) = 12 * length ks"
  by (rule length_concat_const) simp

lemma length_attrs_put: "length (attrs_put strings a) = 16 * length a"
  unfolding attrs_put_def by (rule length_concat_const) simp

lemma graph_ok_lengths:
  assumes "graph_ok sc compiled g"
  shows "length (g_out_offsets g) = Suc (length (g_nodes g))" "length (g_in_offsets g) = Suc (length (g_nodes g))"
    "length (g_in_edges g) = length (g_edges g)" "length (g_keys g) = length (g_nodes g)"
proof -
  have g: "g = assemble (g_space g) (g_revision g) sc (g_nodes g) (g_edges g)"
    using assms by (simp add: graph_ok_def)
  show "length (g_out_offsets g) = Suc (length (g_nodes g))" "length (g_in_offsets g) = Suc (length (g_nodes g))"
    "length (g_in_edges g) = length (g_edges g)" "length (g_keys g) = length (g_nodes g)"
    by (subst (1) g, simp add: assemble_def Let_def key_entries_def)+
qed

definition all_strings :: "graph \<Rightarrow> string list" where
  "all_strings g = concat (map node_strings (g_nodes g)) @ concat (map edge_strings (g_edges g))"

lemma remdups_adj_sum_le: "sum_list (map f (remdups_adj xs)) \<le> sum_list (map f xs)" for f :: "'a \<Rightarrow> nat"
  by (induction xs rule: remdups_adj.induct) auto

lemma length_attr_strings_le: "length (attr_strings a) \<le> 2 * length a"
  by (induction a rule: attr_strings.induct) simp_all

lemma length_concat_le:
  assumes "\<And>x. length (f x) \<le> k + 2 * h x"
  shows "length (concat (map f xs)) \<le> k * length xs + 2 * sum_list (map h xs)"
proof (induction xs)
  case (Cons x xs)
  then show ?case using assms [of x] by simp
qed simp

lemma string_table_length_le:
  "length (string_table g) \<le> 2 * length (g_nodes g) + length (g_edges g) + 2 * attr_total g"
proof -
  have "length (string_table g) \<le> length (all_strings g)"
    unfolding string_table_def all_strings_def
    using remdups_adj_length [of "sort (all_strings g)"] by (simp add: all_strings_def)
  moreover have "length (concat (map node_strings (g_nodes g)))
      \<le> 2 * length (g_nodes g) + 2 * sum_list (map (\<lambda>n. length (n_attrs n)) (g_nodes g))"
    by (rule length_concat_le) (use length_attr_strings_le in \<open>auto simp: node_strings_def\<close>)
  moreover have "length (concat (map edge_strings (g_edges g)))
      \<le> 1 * length (g_edges g) + 2 * sum_list (map (\<lambda>e. length (e_attrs e)) (g_edges g))"
    by (rule length_concat_le) (use length_attr_strings_le in \<open>auto simp: edge_strings_def\<close>)
  ultimately show ?thesis by (simp add: all_strings_def attr_total_def)
qed

lemma sum_all_strings: "sum_list (map length (all_strings g)) = reference_bytes g"
proof -
  have a: "sum_list (map length (attr_strings a)) = attrs_bytes_len a" for a
    by (induction a rule: attr_strings.induct) (simp_all add: attrs_bytes_len_def)
  have "sum_list (map length (concat (map node_strings ns)))
      = sum_list (map (\<lambda>n. length (n_key n) + length (n_label n) + attrs_bytes_len (n_attrs n)) ns)" for ns
    by (induction ns) (simp_all add: node_strings_def a)
  moreover have "sum_list (map length (concat (map edge_strings es)))
      = sum_list (map (\<lambda>e. length (e_label e) + attrs_bytes_len (e_attrs e)) es)" for es
    by (induction es) (simp_all add: edge_strings_def a)
  ultimately show ?thesis by (simp add: all_strings_def reference_bytes_def)
qed

lemma length_string_section:
  "length (concat (map string_bytes strings)) = 4 * length strings + sum_list (map length strings)"
  by (induction strings) (simp_all add: string_bytes_def)

lemma length_encode_bytes:
  assumes "graph_ok sc compiled g"
  shows "length (encode_bytes g) =
     176 + 4 * length (string_table g) + sum_list (map length (string_table g))
       + 76 * length (g_nodes g) + 76 * length (g_edges g) + 16 * attr_total g"
proof -
  let ?as = "concat (map n_attrs (g_nodes g)) @ concat (map e_attrs (g_edges g))"
  have "length ?as = attr_total g" by (simp add: attr_total_def length_concat comp_def)
  then have "length (attrs_put (string_table g) ?as) = 16 * attr_total g" by (simp add: length_attrs_put)
  then show ?thesis
    using graph_ok_lengths [OF assms]
    by (simp add: encode_bytes_def encode_sections_eq SECTION_COUNT_def HEADER_LEN_def length_string_section
        length_node_table length_edge_table length_u32_table length_key_table)
qed

lemma string_table_sum_le: "sum_list (map length (string_table g)) \<le> reference_bytes g"
proof -
  have "sum_list (map length (string_table g)) \<le> sum_list (map length (sort (all_strings g)))"
    unfolding string_table_def all_strings_def by (rule remdups_adj_sum_le)
  also have "mset (map length (sort (all_strings g))) = mset (map length (all_strings g))" by simp
  then have "sum_list (map length (sort (all_strings g))) = reference_bytes g"
    unfolding sum_all_strings [symmetric] by (metis sum_mset_sum_list)
  finally show ?thesis .
qed

lemma encode_fits_small:
  assumes ok: "graph_ok sc compiled g"
    and n: "length (g_nodes g) + length (g_edges g) + attr_total g < 2 ^ 30"
    and str: "sum_list (map length (string_table g)) < 2 ^ 32"
  shows "encode_fits g"
proof -
  have tl: "length (string_table g) \<le> 2 * length (g_nodes g) + length (g_edges g) + 2 * attr_total g"
    by (rule string_table_length_le)
  have "length (encode_bytes g) < 2 ^ 63"
    unfolding length_encode_bytes [OF ok] using n tl str by simp
  moreover have "length s < 2 ^ 32" if "s \<in> set (string_table g)" for s
    using member_le_sum_list [of "length s" "map length (string_table g)"] that str by simp
  ultimately show ?thesis using n tl unfolding encode_fits_def by simp
qed

section \<open>Reading arbitrary bytes\<close>

text \<open>Every reader consumes exactly its width.\<close>

lemma r_take_len: "r_take n bs = Inr (a, bs') \<Longrightarrow> length bs = n + length bs' \<and> length a = n"
  by (auto simp: r_take_def split: if_splits)

lemma reader_len:
  "r_u8 bs = Inr (x8, bs') \<Longrightarrow> length bs = 1 + length bs'"
  "r_u16 bs = Inr (x16, bs') \<Longrightarrow> length bs = 2 + length bs'"
  "r_u32 bs = Inr (x32, bs') \<Longrightarrow> length bs = 4 + length bs'"
  "r_u64 bs = Inr (x64, bs') \<Longrightarrow> length bs = 8 + length bs'"
  "reserved n bs = Inr (u, bs') \<Longrightarrow> length bs = n + length bs'"
  by (auto simp: r_u8_def r_u16_def r_u32_def r_u64_def reserved_def dest!: r_take_len
      elim!: res_bind_InrE split: prod.splits if_splits)

lemma on_bytes_InrE:
  assumes "on_bytes r s = Inr (x, s')"
  obtains "r (fst s) = Inr (x, fst s')" "snd s' = snd s"
  using assms by (auto simp: on_bytes_def elim!: res_bind_InrE split: prod.splits)

lemma strings_get_InrE:
  assumes "strings_get strings i s = Inr (x, s')"
  obtains "fst s' = fst s" "x \<in> set strings"
  using assms by (auto simp: strings_get_def elim!: res_bind_InrE split: if_splits)

lemma read_ref_InrE:
  assumes "read_ref strings s = Inr (x, s')"
  obtains "length (fst s) = 4 + length (fst s')" "x \<in> set strings"
proof -
  obtain i s1 where "on_bytes r_u32 s = Inr (i, s1)" "strings_get strings (ucast i) s1 = Inr (x, s')"
    using assms by (auto simp: read_ref_def elim!: res_bind_InrE)
  then show thesis using that by (auto elim!: on_bytes_InrE strings_get_InrE dest!: reader_len)
qed

lemma read_node_InrE:
  assumes "read_node strings s = Inr ((n, start, cnt), s')"
  obtains "length (fst s) = 56 + length (fst s')" "n_key n \<in> set strings" "n_label n \<in> set strings" "n_attrs n = []"
  using assms unfolding read_node_def
  by (elim res_bind_InrE) (auto elim!: res_bind_InrE on_bytes_InrE read_ref_InrE dest!: reader_len)

lemma read_edge_InrE:
  assumes "read_edge strings s = Inr ((e, start, cnt), s')"
  obtains "length (fst s) = 72 + length (fst s')" "e_label e \<in> set strings" "e_attrs e = []"
  using assms unfolding read_edge_def
  by (elim res_bind_InrE) (auto elim!: res_bind_InrE on_bytes_InrE read_ref_InrE dest!: reader_len)

lemma read_attr_InrE:
  assumes "read_attr strings s = Inr (kv, s')"
  obtains "length (fst s) = 16 + length (fst s')" "set (attr_strings [kv]) \<subseteq> set strings"
  using assms unfolding read_attr_def
  by (elim res_bind_InrE)
    (auto elim!: res_bind_InrE on_bytes_InrE read_ref_InrE strings_get_InrE dest!: reader_len split: if_splits)

lemma get_many_len:
  assumes "\<And>s x s'. r s = Inr (x, s') \<Longrightarrow> length (fst s) = k + length (fst s') \<and> P x"
    and "get_many r n s = Inr (xs, s')"
  shows "length xs = n \<and> length (fst s) = k * n + length (fst s') \<and> (\<forall>x\<in>set xs. P x)"
  using assms(2)
proof (induction n arbitrary: s xs)
  case (Suc n)
  obtain x s1 ys where r: "r s = Inr (x, s1)" and g: "get_many r n s1 = Inr (ys, s')" and xs: "xs = x # ys"
    using Suc.prems by (auto elim!: res_bind_InrE)
  from Suc.IH [OF g] assms(1) [OF r] show ?case by (simp add: xs)
qed simp

lemma read_table_len:
  assumes "\<And>s x s'. r s = Inr (x, s') \<Longrightarrow> length (fst s) = k + length (fst s') \<and> P x"
    and "read_table r sect b = Inr (xs, b')"
  shows "length sect = 4 + k * length xs \<and> (\<forall>x\<in>set xs. P x)"
proof -
  obtain c s bs where c: "on_bytes r_u32 (sect, b) = Inr (c, s)" and g: "get_many r (unat c) s = Inr (xs, bs, b')"
    and bs: "bs = []"
    using assms(2) by (auto simp: read_table_def r_done_def elim!: res_bind_InrE split: if_splits)
  have "length sect = 4 + length (fst s)" using c by (auto elim!: on_bytes_InrE dest!: reader_len)
  then show ?thesis using get_many_len [where P = P and k = k, OF assms(1) g] by (simp add: bs)
qed

lemma read_strings_len:
  assumes "read_strings sect = Inr strings"
  shows "sum_list (map length strings) \<le> length sect"
proof -
  have many: "sum_list (map length out) + length bs' \<le> length bs"
    if "get_many read_string n bs = Inr (out, bs')" for n bs out bs'
    using that
  proof (induction n arbitrary: bs out)
    case (Suc n)
    then obtain x bs1 ys where x: "read_string bs = Inr (x, bs1)" and g: "get_many read_string n bs1 = Inr (ys, bs')"
      and out: "out = x # ys" by (auto elim!: res_bind_InrE)
    have "length x + length bs1 \<le> length bs"
      using x by (auto simp: read_string_def of_bytes_def elim!: res_bind_InrE dest!: reader_len r_take_len split: if_splits)
    with Suc.IH [OF g] show ?case by (simp add: out)
  qed simp
  obtain c bs bs' where "r_u32 sect = Inr (c, bs)" "get_many read_string (unat c) bs = Inr (strings, bs')"
    using assms by (auto simp: read_strings_def elim!: res_bind_InrE)
  then show ?thesis using many by (fastforce dest: reader_len)
qed

lemma set_bt_insert_subset: "set (bt_insert k v m) \<subseteq> insert (k, v) (set m)"
  by (induction k v m rule: bt_insert.induct) auto

lemma length_bt_insert: "length (bt_insert k v m) \<le> Suc (length m)"
  by (induction k v m rule: bt_insert.induct) auto

lemma bt_of_list_le: "set (bt_of_list kvs) \<subseteq> set kvs \<and> length (bt_of_list kvs) \<le> length kvs"
proof -
  have "set (fold (\<lambda>(k, v) m. bt_insert k v m) kvs m) \<subseteq> set kvs \<union> set m
      \<and> length (fold (\<lambda>(k, v) m. bt_insert k v m) kvs m) \<le> length kvs + length m" for m
  proof (induction kvs arbitrary: m)
    case (Cons kv kvs)
    obtain k v where kv: "kv = (k, v)" by fastforce
    show ?case
      using Cons.IH [of "bt_insert k v m"] set_bt_insert_subset [of k v m] length_bt_insert [of k v m]
      by (auto simp: kv)
  qed simp
  from this [of "[]"] show ?thesis by (simp add: bt_of_list_def)
qed

lemma set_attr_strings: "set (attr_strings a) = (\<Union>kv\<in>set a. set (attr_strings [kv]))"
proof (induction a)
  case (Cons kv a)
  then show ?case using attr_strings_append [of "[kv]" a] by simp
qed simp

lemma attach_nodes_len:
  assumes "attach_nodes ts (attrs, c) = Inr (ns, rest, c')"
    and "\<forall>t\<in>set ts. {n_key (fst t), n_label (fst t)} \<subseteq> T" "\<forall>kv\<in>set attrs. set (attr_strings [kv]) \<subseteq> T"
  shows "length ns = length ts \<and> sum_list (map (\<lambda>n. length (n_attrs n)) ns) + length rest \<le> length attrs
    \<and> set rest \<subseteq> set attrs \<and> (\<forall>n\<in>set ns. set (node_strings n) \<subseteq> T)"
  using assms
proof (induction ts arbitrary: attrs c ns)
  case (Cons t ts)
  obtain n start k where t: "t = (n, start, k)" by (cases t)
  let ?a = "take (unat k) attrs" and ?rest = "drop (unat k) attrs"
  obtain ns' where ns: "ns = n\<lparr>n_attrs := bt_of_list ?a\<rparr> # ns'" and k: "unat k \<le> length attrs"
    and at: "attach_nodes ts (?rest, c + unat k) = Inr (ns', rest, c')"
    using Cons.prems(1) by (auto simp: t take_attrs_def elim!: res_bind_InrE split: if_splits)
  have sub: "set ?a \<subseteq> set attrs" "set ?rest \<subseteq> set attrs" by (auto dest: in_set_takeD in_set_dropD)
  have IH: "length ns' = length ts \<and> sum_list (map (\<lambda>n. length (n_attrs n)) ns') + length rest \<le> length ?rest
      \<and> set rest \<subseteq> set ?rest \<and> (\<forall>n\<in>set ns'. set (node_strings n) \<subseteq> T)"
    by (rule Cons.IH [OF at]) (use Cons.prems sub in auto)
  have "set (attr_strings (bt_of_list ?a)) \<subseteq> T"
    using bt_of_list_le [of ?a] sub(1) Cons.prems(3) by (subst set_attr_strings) fastforce
  then have "set (node_strings (n\<lparr>n_attrs := bt_of_list ?a\<rparr>)) \<subseteq> T"
    using Cons.prems(2) by (simp add: t node_strings_def)
  then show ?case using IH k sub(2) bt_of_list_le [of ?a] by (auto simp: ns)
qed simp

lemma attach_edges_len:
  assumes "attach_edges ts (attrs, c) = Inr (es, rest, c')"
    and "\<forall>t\<in>set ts. e_label (fst t) \<in> T" "\<forall>kv\<in>set attrs. set (attr_strings [kv]) \<subseteq> T"
  shows "length es = length ts \<and> sum_list (map (\<lambda>e. length (e_attrs e)) es) + length rest \<le> length attrs
    \<and> (\<forall>e\<in>set es. set (edge_strings e) \<subseteq> T)"
  using assms
proof (induction ts arbitrary: attrs c es)
  case (Cons t ts)
  obtain e start k where t: "t = (e, start, k)" by (cases t)
  let ?a = "take (unat k) attrs" and ?rest = "drop (unat k) attrs"
  obtain es' where es: "es = e\<lparr>e_attrs := bt_of_list ?a\<rparr> # es'" and k: "unat k \<le> length attrs"
    and at: "attach_edges ts (?rest, c + unat k) = Inr (es', rest, c')"
    using Cons.prems(1) by (auto simp: t take_attrs_def elim!: res_bind_InrE split: if_splits)
  have sub: "set ?a \<subseteq> set attrs" "set ?rest \<subseteq> set attrs" by (auto dest: in_set_takeD in_set_dropD)
  have IH: "length es' = length ts \<and> sum_list (map (\<lambda>e. length (e_attrs e)) es') + length rest \<le> length ?rest
      \<and> (\<forall>e\<in>set es'. set (edge_strings e) \<subseteq> T)"
    by (rule Cons.IH [OF at]) (use Cons.prems sub in auto)
  have "set (attr_strings (bt_of_list ?a)) \<subseteq> T"
    using bt_of_list_le [of ?a] sub(1) Cons.prems(3) by (subst set_attr_strings) fastforce
  then have "set (edge_strings (e\<lparr>e_attrs := bt_of_list ?a\<rparr>)) \<subseteq> T"
    using Cons.prems(2) by (simp add: t edge_strings_def)
  then show ?case using IH k bt_of_list_le [of ?a] by (auto simp: es)
qed simp

lemma read_sections_len:
  assumes "read_sections buf n nxt bs = Returns (Inr (ss, e))"
  shows "length ss = n \<and> (ss \<noteq> [] \<longrightarrow> unat nxt + sum_list (map length ss) \<le> length buf)"
  using assms
proof (induction n arbitrary: nxt bs ss)
  case (Suc n)
  obtain len bs' ss' where fit: "unat nxt + unat len < 2 ^ 64" "unat nxt + unat len \<le> length buf"
    and r: "read_sections buf n (nxt + len) bs' = Returns (Inr (ss', e))"
    and ss: "ss = slice (unat nxt) (unat (nxt + len)) buf # ss'"
    using Suc.prems by (auto elim!: try_bind_InrE split: if_splits outcome.splits simp: not_le slice_at_def)
  have "unat (nxt + len) = unat nxt + unat len" using fit(1) unat_add_lem [of nxt len] by simp
  then show ?case using Suc.IH [OF r] fit(2) by (auto simp: ss slice_def)
qed simp

lemma sum_set_le: "sum f (set xs) \<le> sum_list (map f xs)" for f :: "'a \<Rightarrow> nat"
  by (induction xs) (auto simp: sum.insert_if)

lemma parse_len:
  assumes "parse bs space sc = Returns (Inr b)"
  obtains T where "56 * length (b_nodes b) + 72 * length (b_edges b)
      + 16 * (sum_list (map (\<lambda>n. length (n_attrs n)) (b_nodes b)) + sum_list (map (\<lambda>e. length (e_attrs e)) (b_edges b)))
      \<le> length bs"
    "finite T" "sum length T \<le> length bs" "\<forall>n\<in>set (b_nodes b). set (node_strings n) \<subseteq> T"
    "\<forall>e\<in>set (b_edges b). set (edge_strings e) \<subseteq> T"
proof -
  obtain hdr rest ss e strings nodes b1 edges b2 attrs b3 s1 where
    ss: "read_sections bs SECTION_COUNT (of_nat SECTIONS_START) rest = Returns (Inr (ss, e))"
    and st: "read_strings (ss ! 0) = Inr strings"
    and n: "read_table (read_node strings) (ss ! 1) (EXPANSION_LIMIT * length bs) = Inr (nodes, b1)"
    and ed: "read_table (read_edge strings) (ss ! 2) b1 = Inr (edges, b2)"
    and at: "read_table (read_attr strings) (ss ! 6) b2 = Inr (attrs, b3)"
    and an: "attach_nodes nodes (attrs, 0) = Inr (b_nodes b, s1)"
    and ae: "\<exists>c. attach_edges edges s1 = Inr (b_edges b, [], c)"
    using assms unfolding parse_def parse_records_def
    by (auto elim!: try_bind_InrE res_bind_InrE split: if_splits prod.splits)
  obtain arest c1 where s1: "s1 = (arest, c1)" by fastforce
  let ?T = "set strings"
  have ln: "length (ss ! 1) = 4 + 56 * length nodes"
    "\<forall>t\<in>set nodes. {n_key (fst t), n_label (fst t)} \<subseteq> ?T"
    using read_table_len [OF _ n, of 56 "\<lambda>t. {n_key (fst t), n_label (fst t)} \<subseteq> ?T"]
    by (force elim!: read_node_InrE)+
  have le: "length (ss ! 2) = 4 + 72 * length edges" "\<forall>t\<in>set edges. e_label (fst t) \<in> ?T"
    using read_table_len [OF _ ed, of 72 "\<lambda>t. e_label (fst t) \<in> ?T"] by (force elim!: read_edge_InrE)+
  have la: "length (ss ! 6) = 4 + 16 * length attrs" "\<forall>kv\<in>set attrs. set (attr_strings [kv]) \<subseteq> ?T"
    using read_table_len [OF _ at, of 16 "\<lambda>kv. set (attr_strings [kv]) \<subseteq> ?T"] by (force elim!: read_attr_InrE)+
  note N = attach_nodes_len [OF an [unfolded s1] ln(2) la(2)]
  have rest: "\<forall>kv\<in>set arest. set (attr_strings [kv]) \<subseteq> ?T" using N la(2) by blast
  obtain c where "attach_edges edges (arest, c1) = Inr (b_edges b, [], c)" using ae s1 by blast
  from attach_edges_len [OF this le(2) rest] have E: "length (b_edges b) = length edges
      \<and> sum_list (map (\<lambda>e. length (e_attrs e)) (b_edges b)) \<le> length arest
      \<and> (\<forall>e\<in>set (b_edges b). set (edge_strings e) \<subseteq> ?T)"
    by simp
  have S: "length ss = 7" "sum_list (map length ss) \<le> length bs"
    using read_sections_len [OF ss] by (auto simp: SECTION_COUNT_def)
  then have "length (ss ! 0) + length (ss ! 1) + length (ss ! 2) + length (ss ! 6) \<le> length bs"
    by (auto simp: numeral_eq_Suc length_Suc_conv)
  moreover have "sum length ?T \<le> sum_list (map length strings)"
    by (rule sum_set_le)
  ultimately show thesis
    using that [of ?T] N E ln(1) le(1) la(1) read_strings_len [OF st] by (simp add: distrib_left)
qed

lemma build_graph_returns:
  assumes "length (b_nodes b) \<le> 2 ^ 32" "length (b_edges b) \<le> 2 ^ 32"
  shows "build_graph b sc compiled \<noteq> Panics"
  using assms by (auto simp: build_graph_def Let_def split: option.splits sum.splits)

lemma build_encoded_small_returns:
  assumes "length (b_nodes b) + length (b_edges b) + (sum_list (map (\<lambda>n. length (n_attrs n)) (b_nodes b))
      + sum_list (map (\<lambda>e. length (e_attrs e)) (b_edges b))) < 2 ^ 30"
    and "finite T" "sum length T < 2 ^ 32" "\<forall>n\<in>set (b_nodes b). set (node_strings n) \<subseteq> T"
    "\<forall>e\<in>set (b_edges b). set (edge_strings e) \<subseteq> T"
  shows "build_encoded b sc compiled \<noteq> Panics"
proof -
  have fits: "encode_fits g" if bg: "build_graph b sc compiled = Returns (Inr g)" for g
  proof (rule encode_fits_small)
    note ok = build_graph_ok [OF bg]
    show "graph_ok sc compiled g" by (rule ok)
    have "mset (map (\<lambda>n. length (n_attrs n)) (g_nodes g)) = mset (map (\<lambda>n. length (n_attrs n)) (b_nodes b))"
      "mset (map (\<lambda>e. length (e_attrs e)) (g_edges g)) = mset (map (\<lambda>e. length (e_attrs e)) (b_edges b))"
      unfolding mset_map ok(4,5) by simp_all
    then show "length (g_nodes g) + length (g_edges g) + attr_total g < 2 ^ 30"
      using assms(1) mset_eq_length [OF ok(4)] mset_eq_length [OF ok(5)]
      unfolding attr_total_def by (metis sum_mset_sum_list)
    have "set (string_table g) \<subseteq> T"
      using assms(4,5) mset_eq_setD [OF ok(4)] mset_eq_setD [OF ok(5)] by (auto simp: set_string_table)
    then have "sum length (set (string_table g)) \<le> sum length T" by (rule sum_mono2 [OF assms(2)]) simp
    moreover have "distinct (string_table g)" by (simp add: string_table_def distinct_remdups_adj_sorted)
    ultimately show "sum_list (map length (string_table g)) < 2 ^ 32"
      using assms(3) by (simp add: sum_list_distinct_conv_sum_set)
  qed
  have "build_graph b sc compiled \<noteq> Panics" by (rule build_graph_returns) (use assms(1) in simp_all)
  then show ?thesis
    using fits by (auto simp: build_encoded_def encode_def split: outcome.splits sum.splits)
qed

lemma read_sections_returns: "read_sections buf n nxt bs \<noteq> Panics"
proof (induction n arbitrary: nxt bs)
  case (Suc n)
  have cut: "\<exists>s. slice_at (unat o') (unat (o' + len)) buf = Returns s"
    if "unat o' + unat len < 2 ^ 64" "unat o' + unat len \<le> length buf" for o' len :: u64
    using that unat_add_lem [of o' len] by (simp add: slice_at_def)
  have rest: "try_bind (read_sections buf n m bs') (\<lambda>(ss, next). Returns (Inr (s # ss, next))) \<noteq> Panics" for m bs' s
    by (rule try_bind_returns [OF Suc.IH]) (simp split: prod.split)
  have step: "read_sections buf (Suc n) nxt bs \<noteq> Panics"
    if r: "r_u64 bs = Inr (o', bs1)" "r_u64 bs1 = Inr (len, bs2)" for o' bs1 len bs2
  proof (cases "unat o' + unat len < 2 ^ 64 \<and> unat o' + unat len \<le> length buf")
    case True
    then obtain s where "slice_at (unat o') (unat (o' + len)) buf = Returns s" using cut by blast
    then show ?thesis using r rest [of "o' + len" bs2 s] by (cases "o' = nxt") simp_all
  next
    case False
    then have "2 ^ 64 \<le> unat o' + unat len \<or> length buf < unat o' + unat len" by linarith
    then show ?thesis using r by auto
  qed
  show ?case
  proof (cases "r_u64 bs")
    case (Inr p)
    obtain o' bs1 where p: "p = (o', bs1)" by fastforce
    show ?thesis
    proof (cases "r_u64 bs1")
      case (Inr q)
      then show ?thesis using step \<open>r_u64 bs = Inr p\<close> p by (cases q) blast
    qed (simp add: Inr p)
  qed simp
qed simp

lemma parse_returns: "parse bs space sc \<noteq> Panics"
proof -
  have "try_bind (read_sections bs SECTION_COUNT (of_nat SECTIONS_START) rest)
      (\<lambda>(sections, next). if unat next \<noteq> length bs then Returns (Inl TrailingBytes)
        else Returns (parse_records bs sections sp revision)) \<noteq> Panics" for rest sp revision
    by (rule try_bind_returns [OF read_sections_returns]) (simp split: prod.split)
  then show ?thesis
    unfolding parse_def by (intro try_bind_returns) (simp_all add: case_prod_beta)
qed

lemma decode_small_returns:
  assumes "length bs < 2 ^ 31"
  shows "\<exists>r. decode bs space sc compiled = Returns r"
proof -
  have "rebuild_canonical b bs sc compiled \<noteq> Panics" if parsed: "parse bs space sc = Returns (Inr b)" for b
  proof -
    obtain T where "56 * length (b_nodes b) + 72 * length (b_edges b)
      + 16 * (sum_list (map (\<lambda>n. length (n_attrs n)) (b_nodes b)) + sum_list (map (\<lambda>e. length (e_attrs e)) (b_edges b)))
      \<le> length bs"
    "finite T" "sum length T \<le> length bs" "\<forall>n\<in>set (b_nodes b). set (node_strings n) \<subseteq> T"
    "\<forall>e\<in>set (b_edges b). set (edge_strings e) \<subseteq> T"
      using parsed by (rule parse_len)
    then have "build_encoded b sc compiled \<noteq> Panics"
      using build_encoded_small_returns [of b T sc compiled] assms by simp
    then show ?thesis by (auto simp: rebuild_canonical_def split: outcome.splits sum.splits)
  qed
  then have "decode bs space sc compiled \<noteq> Panics"
    unfolding decode_def by (rule try_bind_returns [OF parse_returns])
  then show ?thesis by (cases "decode bs space sc compiled") auto
qed

text \<open>A small graph meets every limit of the encoder.\<close>

lemma build_encoded_small:
  assumes bg: "build_graph b sc compiled = Returns (Inr g)"
    and n: "length (g_nodes g) + length (g_edges g) + attr_total g \<le> 1000"
    and r: "reference_bytes g \<le> 4 * (176 + 76 * length (g_nodes g))"
  shows "\<exists>enc. build_encoded b sc compiled = Returns (Inr (g, enc))"
proof -
  note ok = build_graph_ok(1) [OF bg]
  have "reference_bytes g \<le> 704 + 304 * length (g_nodes g)" using r by simp
  moreover have "length (g_nodes g) \<le> 1000" using n by simp
  ultimately have "reference_bytes g < 2 ^ 32" by simp
  then have "encode_fits g"
    using string_table_sum_le [of g] n by (intro encode_fits_small [OF ok]) simp_all
  moreover have "within_expansion_limit (reference_bytes g) (length (encode_bytes g))"
    using r unfolding within_expansion_limit_def EXPANSION_LIMIT_def length_encode_bytes [OF ok] by simp
  ultimately show ?thesis using bg by (simp add: build_encoded_iff encode_Returns)
qed

section \<open>A sample graph\<close>

definition sample_compiled :: compiled_set where
  "sample_compiled = [\<lparr>cn_kind = ROLE, cn_key = ''user'', cn_label = ''v'', cn_attrs = []\<rparr>]"

definition sample_prov :: "provenance_kind \<Rightarrow> provenance" where
  "sample_prov k = \<lparr>pv_kind = k, pv_transition = 0\<rparr>"

definition sample_subject :: node_record where
  "sample_subject =
     \<lparr>n_id = 2, n_space = KernelSpace, n_kind = SUBJECT, n_key = ''uid:7'', n_label = ''v'',
      n_provenance = sample_prov PRootFile, n_revision = 1,
      n_attrs = [(''name'', GStr ''v''), (''uid'', GU64 7)]\<rparr>"

definition sample_role :: node_record where
  "sample_role =
     \<lparr>n_id = 1, n_space = KernelSpace, n_kind = ROLE, n_key = ''user'', n_label = ''v'',
      n_provenance = sample_prov PCompiled, n_revision = 0, n_attrs = []\<rparr>"

definition sample_binds :: edge_record where
  "sample_binds =
     \<lparr>e_id = 1, e_space = KernelSpace, e_from = 2, e_to = 1, e_kind = BINDS, e_label = ''v'',
      e_provenance = sample_prov PRootFile, e_revision = 1, e_attrs = []\<rparr>"

definition sample_builder :: graph_builder where
  "sample_builder =
     builder_edge sample_binds (builder_node sample_role (builder_node sample_subject (builder_new KernelSpace 1)))"

lemma sample_sorted: "sort_key n_id (b_nodes sample_builder) = [sample_role, sample_subject]"
  by (simp add: sample_builder_def builder_edge_def builder_node_def builder_new_def sample_subject_def sample_role_def
      word_le_nat_alt)

lemma sample_keys: "key_entries [sample_role, sample_subject] = [(SUBJECT, ''uid:7'', 1), (ROLE, ''user'', 0)]"
  by (simp add: key_entries_def sample_subject_def sample_role_def kind_defs index_u32_def less_prod_def less_eq_prod_def)

lemma sample_nodes_ok: "nodes_ok KernelSpace SCHEMA sample_compiled [sample_role, sample_subject]"
proof -
  have "binary_search key_of (ROLE, ''user'') [(SUBJECT, ''uid:7'', 1), (ROLE, ''user'', 0)] = Some 1"
    by (simp add: binary_search_iff key_of_def kind_defs less_eq_prod_def less_prod_def)
  then show ?thesis
    unfolding nodes_ok_def sample_keys
    by (simp add: key_of_def kind_defs check_node_def check_compiled_def compiled_get_def sample_compiled_def
        sample_subject_def sample_role_def sample_prov_def SCHEMA_def node_kind_name_def is_compiled_def)
qed

lemma sample_edges_ok: "edges_ok KernelSpace SCHEMA [sample_role, sample_subject] [sample_binds]"
proof -
  have "node_position [sample_role, sample_subject] 2 = Some 1" "node_position [sample_role, sample_subject] 1 = Some 0"
    unfolding node_position_iff [OF sample_nodes_ok] by (simp_all add: sample_role_def sample_subject_def)
  then show ?thesis
    by (simp add: edges_ok_def check_edge_def sample_binds_def sample_prov_def SCHEMA_def edge_kind_name_def
        schema_allows_def forbids_target_def sample_role_def sample_subject_def kind_defs ADVERSARY_def)
qed

lemma sample_builds: "\<exists>g enc. build_encoded sample_builder SCHEMA sample_compiled = Returns (Inr (g, enc))"
proof -
  have b: "b_space sample_builder = KernelSpace" "b_edges sample_builder = [sample_binds]"
    "b_nodes sample_builder = [sample_subject, sample_role]"
    by (simp_all add: sample_builder_def builder_edge_def builder_node_def builder_new_def)
  obtain g where bg: "build_graph sample_builder SCHEMA sample_compiled = Returns (Inr g)"
    unfolding build_graph_iff sample_sorted b(1,2) using sample_nodes_ok sample_edges_ok by blast
  have recs: "g_nodes g = [sample_role, sample_subject]" "g_edges g = [sample_binds]"
    using bg unfolding build_graph_iff sample_sorted b(1,2) by simp_all
  have "\<exists>enc. build_encoded sample_builder SCHEMA sample_compiled = Returns (Inr (g, enc))"
    by (rule build_encoded_small [OF bg])
      (simp_all add: recs attr_total_def reference_bytes_def attrs_bytes_len_def sample_subject_def sample_role_def
        sample_binds_def)
  then show ?thesis by blast
qed

section \<open>Properties\<close>

lemma build_ok:
  assumes "build b sc compiled = Returns (Inr g)"
  shows "graph_ok sc compiled g" "g_space g = b_space b" "g_revision g = b_revision b"
    "mset (g_nodes g) = mset (b_nodes b)" "mset (g_edges g) = mset (b_edges b)" "length (g_edges g) < 2 ^ 32"
proof -
  obtain enc where "build_encoded b sc compiled = Returns (Inr (g, enc))" using assms by (auto simp: build_iff)
  then have bg: "build_graph b sc compiled = Returns (Inr g)" and en: "encode g = Returns enc"
    by (simp_all add: build_encoded_iff)
  show "graph_ok sc compiled g" "g_space g = b_space b" "g_revision g = b_revision b"
    "mset (g_nodes g) = mset (b_nodes b)" "mset (g_edges g) = mset (b_edges b)"
    using build_graph_ok [OF bg] by simp_all
  show "length (g_edges g) < 2 ^ 32" using en by (simp add: encode_Returns encode_fits_def)
qed

lemma key_entries_keys: "mset (map key_of (key_entries nodes)) = mset (map (\<lambda>n. (n_kind n, n_key n)) nodes)"
proof -
  have "mset (map key_of (key_entries nodes)) = mset (map (\<lambda>p. (n_kind (snd p), n_key (snd p))) (enumerate 0 nodes))"
    unfolding key_entries_def mset_map mset_sort by (simp add: key_of_def comp_def case_prod_beta multiset.map_comp)
  also have "map (\<lambda>p. (n_kind (snd p), n_key (snd p))) (enumerate 0 nodes)
      = map (\<lambda>n. (n_kind n, n_key n)) (map snd (enumerate 0 nodes))"
    unfolding map_map comp_def by (rule refl)
  finally show ?thesis by (simp only: map_snd_enumerate)
qed

lemma check_node_compiled:
  assumes "check_node space sc compiled n = Inr ()"
  shows "n_space n = space \<and> n_key n \<noteq> [] \<and> n_label n \<noteq> []
    \<and> (is_compiled sc (n_kind n) \<longleftrightarrow> pv_kind (n_provenance n) = PCompiled)
    \<and> (is_compiled sc (n_kind n) \<longrightarrow> compiled_of_node n \<in> set compiled)"
  using assms
  by (auto simp: check_node_def Let_def compiled_get_def compiled_of_node_def find_Some_iff
      split: if_splits option.splits) (metis compiled_node.surjective nth_mem old.unit.exhaust)

text \<open>
  C28. Every graph that builds is sound against its schema and the compiled set: it has exactly
  the records it was given, each once; no two nodes share an id, no two edges share an id, and no
  two nodes of a kind share a key; every edge joins two
  nodes of the graph by a permitted triple and never a forbidden target; the kinds reserved to
  the binary occur only as compiled records, each one an entry of the compiled set, and every
  entry of the compiled set is there.
\<close>

theorem graph_build_sound:
  assumes "build b sc compiled = Returns (Inr g)"
  shows "mset (g_nodes g) = mset (b_nodes b) \<and> mset (g_edges g) = mset (b_edges b)
    \<and> distinct (map n_id (g_nodes g)) \<and> distinct (map e_id (g_edges g))
    \<and> distinct (map (\<lambda>n. (n_kind n, n_key n)) (g_nodes g))
    \<and> (\<forall>e\<in>set (g_edges g). \<exists>f t. graph_node g (e_from e) = Some f \<and> graph_node g (e_to e) = Some t
          \<and> schema_allows sc (n_kind f) (e_kind e) (n_kind t)
          \<and> \<not> forbids_target sc (e_kind e) (n_kind t) (n_key t))
    \<and> (\<forall>n\<in>set (g_nodes g). (is_compiled sc (n_kind n) \<longleftrightarrow> pv_kind (n_provenance n) = PCompiled)
          \<and> (is_compiled sc (n_kind n) \<longrightarrow> compiled_of_node n \<in> set compiled))
    \<and> (\<forall>c\<in>set compiled. graph_lookup g (cn_kind c) (cn_key c) \<noteq> None)"
proof -
  note ok = build_ok [OF assms]
  have n: "nodes_ok (g_space g) sc compiled (g_nodes g)" using ok(1) by (simp add: graph_ok_def)
  have "distinct (map n_id (g_nodes g))" using n by (simp add: nodes_ok_def)
  moreover have "distinct (map e_id (g_edges g))" using ok(1) by (simp add: graph_ok_def edges_ok_def)
  moreover have "distinct (map (\<lambda>n. (n_kind n, n_key n)) (g_nodes g))"
    using n mset_eq_imp_distinct_iff [OF key_entries_keys [of "g_nodes g"]] by (simp add: nodes_ok_def)
  moreover have "\<exists>f t. graph_node g (e_from e) = Some f \<and> graph_node g (e_to e) = Some t
      \<and> schema_allows sc (n_kind f) (e_kind e) (n_kind t) \<and> \<not> forbids_target sc (e_kind e) (n_kind t) (n_key t)"
    if "e \<in> set (g_edges g)" for e
    using graph_edge_ends [OF ok(1) that] graph_node_iff [OF ok(1)] by metis
  moreover have "(is_compiled sc (n_kind m) \<longleftrightarrow> pv_kind (n_provenance m) = PCompiled)
      \<and> (is_compiled sc (n_kind m) \<longrightarrow> compiled_of_node m \<in> set compiled)" if "m \<in> set (g_nodes g)" for m
    using n that check_node_compiled [of "g_space g" sc compiled m] by (simp add: nodes_ok_def)
  moreover have "graph_lookup g (cn_kind c) (cn_key c) \<noteq> None" if "c \<in> set compiled" for c
  proof -
    have k: "g_keys g = key_entries (g_nodes g)" using ok(1) unfolding graph_ok_def by (metis assemble_simps(6))
    have "check_compiled sc (key_entries (g_nodes g)) c = Inr ()" using n that by (simp add: nodes_ok_def)
    then show ?thesis by (auto simp: check_compiled_def graph_lookup_def k split: if_splits)
  qed
  ultimately show ?thesis using ok(4,5) by blast
qed

theorem graph_build_sound_witness:
  "\<exists>g. build sample_builder SCHEMA sample_compiled = Returns (Inr g)
     \<and> graph_lookup g ROLE ''user'' \<noteq> None \<and> distinct (map n_id (g_nodes g)) \<and> distinct (map e_id (g_edges g))"
proof -
  obtain g where b: "build sample_builder SCHEMA sample_compiled = Returns (Inr g)"
    using sample_builds by (auto simp: build_iff)
  from graph_build_sound [OF b] have "\<forall>c\<in>set sample_compiled. graph_lookup g (cn_kind c) (cn_key c) \<noteq> None"
    "distinct (map n_id (g_nodes g))" "distinct (map e_id (g_edges g))" by blast+
  with b show ?thesis by (auto simp: sample_compiled_def)
qed

text \<open>
  C29. The indexes of a built graph answer exactly what a scan of its records would: node and key
  lookups by binary search, and the outgoing and incoming rows cut out by the offset tables.
\<close>

theorem graph_queries_exact:
  assumes "build b sc compiled = Returns (Inr g)"
  shows "(graph_node g nid = Some n \<longleftrightarrow> n \<in> set (b_nodes b) \<and> n_id n = nid)
    \<and> (graph_lookup g kind key = Some n \<longleftrightarrow> n \<in> set (b_nodes b) \<and> n_kind n = kind \<and> n_key n = key)
    \<and> mset (out_edges g nid ek) = {#e \<in># mset (b_edges b). e_from e = nid \<and> e_kind e = ek#}
    \<and> mset (in_edges g nid ek) = {#e \<in># mset (b_edges b). e_to e = nid \<and> e_kind e = ek#}"
proof -
  note ok = build_ok [OF assms]
  show ?thesis
    using graph_node_iff [OF ok(1), of nid n] graph_lookup_iff [OF ok(1), of kind key n]
      mset_eq_setD [OF ok(4)] ok(5)
    by (simp add: out_edges_eq [OF ok(1,6)] in_edges_eq [OF ok(1,6)])
qed

theorem graph_queries_exact_witness:
  "\<exists>g. build sample_builder SCHEMA sample_compiled = Returns (Inr g)
     \<and> mset (out_edges g 2 BINDS) = {#sample_binds#} \<and> graph_node g 1 = Some sample_role"
proof -
  obtain g where b: "build sample_builder SCHEMA sample_compiled = Returns (Inr g)"
    using sample_builds by (auto simp: build_iff)
  have recs: "b_edges sample_builder = [sample_binds]" "b_nodes sample_builder = [sample_subject, sample_role]"
    by (simp_all add: sample_builder_def builder_edge_def builder_node_def builder_new_def)
  note q = graph_queries_exact [OF b]
  have "mset (out_edges g 2 BINDS) = {#sample_binds#}"
    using q [of 2 sample_role ROLE "''user''" BINDS] by (simp add: recs sample_binds_def)
  moreover have "graph_node g 1 = Some sample_role"
    using q [of 1 sample_role ROLE "''user''" BINDS] by (simp add: recs sample_role_def)
  ultimately show ?thesis using b by blast
qed

text \<open>
  C30. Stores and graphs correspond one to one. Whatever builds and encodes decodes to the very
  same graph, indexes included, within the decoder's own expansion limit; and whatever decodes is
  the canonical encoding of the graph it yields, in the space that was asked for, so two stores
  that decode to one graph are the same bytes.
\<close>

theorem graph_store_roundtrip:
  assumes "build_encoded b sc compiled = Returns (Inr (g, enc))" "records_typed (b_nodes b) (b_edges b)"
  shows "decode enc (b_space b) sc compiled = Returns (Inr g)
    \<and> (decode bs space sc compiled = Returns (Inr g') \<longrightarrow> encode g' = Returns bs \<and> g_space g' = space)
    \<and> (decode bs space sc compiled = Returns (Inr g) \<longrightarrow> bs = enc)"
proof -
  have "encode g = Returns enc" using assms(1) by (simp add: build_encoded_iff)
  then show ?thesis using decode_encoded_core [OF assms] decode_core [of bs space sc compiled] by fastforce
qed

lemma sample_typed: "records_typed (b_nodes sample_builder) (b_edges sample_builder)"
  by (simp add: sample_builder_def builder_edge_def builder_node_def builder_new_def records_typed_def
      node_typed_def edge_typed_def attrs_typed_def sample_subject_def sample_role_def sample_binds_def)
    (code_simp)

theorem graph_store_roundtrip_witness:
  "\<exists>g enc. build_encoded sample_builder SCHEMA sample_compiled = Returns (Inr (g, enc))
     \<and> decode enc KernelSpace SCHEMA sample_compiled = Returns (Inr g)"
proof -
  obtain g enc where b: "build_encoded sample_builder SCHEMA sample_compiled = Returns (Inr (g, enc))"
    using sample_builds by blast
  have "b_space sample_builder = KernelSpace"
    by (simp add: sample_builder_def builder_edge_def builder_node_def builder_new_def)
  then show ?thesis using graph_store_roundtrip [OF b sample_typed] b by auto
qed

text \<open>
  C31. Decoding always returns: on any bytes below two gigabytes, hostile or damaged, under any
  schema and compiled set, the decoder neither panics nor diverges; it yields a graph or one of
  its errors. Cutting a section out of the buffer never indexes past its end, and rebuilding the
  graph overflows none of the encoder's counters.
\<close>

theorem decode_always_returns:
  assumes "length bs < 2 ^ 31"
  shows "\<exists>r. decode bs space sc compiled = Returns r"
  using assms by (rule decode_small_returns)

theorem decode_always_returns_witness:
  "\<exists>r. decode (MAGIC @ [1, 0, 1, 0, 2, 0, 0, 0]) KernelSpace SCHEMA [] = Returns r"
  by (rule decode_always_returns) (simp add: MAGIC_def)

end
