(* ===== verification/Identity.thy ===== *)
theory Identity
  imports GraphStore RustStr
begin

text \<open>
  The identity layer of the kernel graph: building it from the resolved subjects, the accepted
  baseline and the sync base, reading it back, and carrying containment over a reload. Models
  \<open>identity.rs\<close>, \<open>baseline.rs\<close> and \<open>sync.rs\<close> of \<open>maknae-graph\<close>. A 32-byte digest is a byte list
  whose length the statements name.
\<close>

section \<open>Layers\<close>

record identity_entry =
  ie_uid :: u32
  ie_name :: string
  ie_role :: string

record identity_layer =
  il_source :: string
  il_label :: string
  il_bindings_sha256 :: "bytes option"
  il_subjects :: "identity_entry list"
  il_aliases :: "(string, u32) btree"

record baseline_layer =
  bl_sections :: "(string, string) btree"
  bl_system :: string
  bl_ceiling :: string
  bl_sha256 :: bytes
  bl_moved_from :: "string option"

record sync_base =
  sb_base :: string
  sb_live :: string
  sb_conflicts :: string

record extracted =
  ex_layer :: identity_layer
  ex_vocabulary_sha256 :: "bytes option"
  ex_unbound :: "u32 list"
  ex_baseline :: "baseline_layer option"
  ex_sync :: "sync_base option"

datatype identity_error =
    IGraph graph_error
  | BadAttr u64 string
  | UnknownRole string
  | Ambiguous u64 string
  | BaselineAttr u64 string
  | BaselineAmbiguous u64 string
  | LabelMismatch string
  | Alias string
  | SyncAttr u64 string
  | SyncAmbiguous u64 string

definition VOCABULARY_SOURCE_KEY :: string where "VOCABULARY_SOURCE_KEY = ''binary:vocabulary''"
definition ATTR_SHA256 :: string where "ATTR_SHA256 = ''sha256''"
definition ATTR_NAME :: string where "ATTR_NAME = ''name''"
definition ATTR_UID :: string where "ATTR_UID = ''uid''"
definition ATTR_ALIASES :: string where "ATTR_ALIASES = ''aliases''"
definition ATTR_VALUE :: string where "ATTR_VALUE = ''value''"
definition ATTR_BASE :: string where "ATTR_BASE = ''base''"
definition ATTR_LIVE :: string where "ATTR_LIVE = ''live''"
definition ATTR_CONFLICTS :: string where "ATTR_CONFLICTS = ''conflicts''"
definition BASELINE_SOURCE_KEY :: string where "BASELINE_SOURCE_KEY = ''baseline:maknae.yaml''"
definition INSTANCE_KEY :: string where "INSTANCE_KEY = ''instance''"
definition ATTR_MOVED_FROM :: string where "ATTR_MOVED_FROM = ''moved_from''"
definition SYNC_ABSENT :: string where "SYNC_ABSENT = ''null''"
definition SYNC_MISSING :: string where "SYNC_MISSING = ''missing''"

lemmas attr_defs = ATTR_SHA256_def ATTR_NAME_def ATTR_UID_def ATTR_ALIASES_def ATTR_VALUE_def
  ATTR_BASE_def ATTR_LIVE_def ATTR_CONFLICTS_def ATTR_MOVED_FROM_def

definition hex_char :: "nat \<Rightarrow> char" where
  "hex_char k = char_of (if k < 10 then 48 + k else 87 + k)"

definition hex :: "bytes \<Rightarrow> string" where
  "hex d = concat (map (\<lambda>b. [hex_char (unat b div 16), hex_char (unat b mod 16)]) d)"

definition nibble :: "u8 \<Rightarrow> u8" where
  "nibble b = (if 0x61 \<le> b \<and> b \<le> 0x66 then b - 0x61 + 10 else b - 0x30)"

fun unhex_pairs :: "bytes \<Rightarrow> bytes" where
  "unhex_pairs (hi # lo # r) = (push_bit 4 (nibble hi) + nibble lo) # unhex_pairs r"
| "unhex_pairs _ = []"

definition is_hex_byte :: "u8 \<Rightarrow> bool" where
  "is_hex_byte b \<longleftrightarrow> 0x30 \<le> b \<and> b \<le> 0x39 \<or> 0x61 \<le> b \<and> b \<le> 0x66"

definition unhex :: "string \<Rightarrow> bytes option" where
  "unhex s =
     (if length s \<noteq> 64 \<or> \<not> list_all is_hex_byte (as_bytes s) then None
      else Some (unhex_pairs (as_bytes s)))"

definition subject_key :: "u32 \<Rightarrow> string" where
  "subject_key uid = ''uid:'' @ show_u32 uid"

definition bindings_section_key :: "string \<Rightarrow> string" where
  "bindings_section_key source = source @ ''#bindings''"

definition containment_key :: "string \<Rightarrow> string" where
  "containment_key source = source @ ''#bindings.'' @ ADVERSARY"

definition sync_key :: "string \<Rightarrow> string" where
  "sync_key source = source @ ''#sync''"

definition section_key :: "string \<Rightarrow> string" where
  "section_key name = BASELINE_SOURCE_KEY @ ''#'' @ name"

definition level_key :: "string \<Rightarrow> string \<Rightarrow> string" where
  "level_key system level = system @ '':'' @ level"

definition contains_uid :: "identity_layer \<Rightarrow> u32 \<Rightarrow> bool" where
  "contains_uid l uid \<longleftrightarrow> list_ex (\<lambda>s. ie_uid s = uid \<and> ie_role s = ADVERSARY) (il_subjects l)"

section \<open>Claims\<close>

definition claim_subject :: "identity_entry \<Rightarrow> (string, u32) btree \<Rightarrow> (string, u32) btree" where
  "claim_subject s out =
     (if ie_role s = ADVERSARY \<and> ie_name s \<noteq> subject_key (ie_uid s)
      then (case bt_get out (ie_name s) of None \<Rightarrow> bt_insert (ie_name s) (ie_uid s) out | Some _ \<Rightarrow> out)
      else out)"

definition claims :: "identity_layer \<Rightarrow> (string, u32) btree" where
  "claims l = fold claim_subject (il_subjects l) (il_aliases l)"

definition with_claims :: "identity_layer \<Rightarrow> (string, u32) btree \<Rightarrow> identity_layer" where
  "with_claims l cs =
     l\<lparr>il_aliases := filter (\<lambda>(n, u). \<not> list_ex (\<lambda>s. ie_uid s = u \<and> ie_role s = ADVERSARY \<and> ie_name s = n)
                       (il_subjects l)) cs\<rparr>"

definition claim_names :: "node_record \<Rightarrow> string list" where
  "claim_names n =
     (case bt_get (n_attrs n) ATTR_NAME of
        Some (GStr s) \<Rightarrow> if s \<noteq> n_key n then [s] else []
      | _ \<Rightarrow> [])
     @ (case bt_get (n_attrs n) ATTR_ALIASES of
          Some (GStr s) \<Rightarrow> split_on CHR '','' s
        | _ \<Rightarrow> [])"

section \<open>Carrying containment over a reload\<close>

record carried =
  ca_uid :: u32
  ca_name :: string
  ca_overrides :: "identity_entry list"

record carry_state =
  cs_out :: identity_layer
  cs_claims :: "(string, u32) btree"
  cs_carried :: "carried list"

definition carry_one :: "string \<times> u32 \<Rightarrow> carry_state \<Rightarrow> carry_state" where
  "carry_one nu st =
     (case nu of (name, uid) \<Rightarrow>
        let out = cs_out st;
            (out', overrides) =
              (if contains_uid out uid then (out, [])
               else (out\<lparr>il_subjects := filter (\<lambda>e. ie_uid e \<noteq> uid) (il_subjects out)
                         @ [\<lparr>ie_uid = uid, ie_name = name, ie_role = ADVERSARY\<rparr>]\<rparr>,
                     filter (\<lambda>e. ie_uid e = uid) (il_subjects out)))
        in \<lparr>cs_out = out', cs_claims = bt_insert name uid (cs_claims st),
            cs_carried = cs_carried st @ [\<lparr>ca_uid = uid, ca_name = name, ca_overrides = overrides\<rparr>]\<rparr>)"

definition carry_forward ::
  "identity_layer \<Rightarrow> string list \<Rightarrow> identity_layer \<Rightarrow> identity_layer \<times> carried list" where
  "carry_forward file unresolved persisted =
     (let st = fold carry_one (filter (\<lambda>(n, _). n \<in> set unresolved) (claims persisted))
                 \<lparr>cs_out = file, cs_claims = claims file, cs_carried = []\<rparr>;
          out = (cs_out st)\<lparr>il_subjects := sort_key ie_uid (il_subjects (cs_out st))\<rparr>
      in (with_claims out (cs_claims st), cs_carried st))"

datatype release_cause =
    NotListed
  | NameNowResolvesTo u32
  | BoundAs string
  | BindingsEmpty
  | Live provenance_kind

record released_entry =
  re_uid :: u32
  re_name :: string
  re_cause :: release_cause

definition release_one ::
  "identity_layer \<Rightarrow> identity_layer \<Rightarrow> bool \<Rightarrow> identity_entry \<Rightarrow> released_entry" where
  "release_one persisted nxt lists_none s =
     (let moved = find_map (\<lambda>(n, _). map_option (\<lambda>u. (n, u)) (bt_get (claims nxt) n))
                    (filter (\<lambda>(_, u). u = ie_uid s) (claims persisted))
      in if lists_none then \<lparr>re_uid = ie_uid s, re_name = ie_name s, re_cause = BindingsEmpty\<rparr>
         else (case moved of
                 Some (n, uid) \<Rightarrow> \<lparr>re_uid = ie_uid s, re_name = n, re_cause = NameNowResolvesTo uid\<rparr>
               | None \<Rightarrow>
                   (case List.find (\<lambda>e. ie_uid e = ie_uid s) (il_subjects nxt) of
                      Some bound \<Rightarrow> \<lparr>re_uid = ie_uid s, re_name = ie_name s, re_cause = BoundAs (ie_role bound)\<rparr>
                    | None \<Rightarrow> \<lparr>re_uid = ie_uid s, re_name = ie_name s, re_cause = NotListed\<rparr>)))"

definition released :: "identity_layer \<Rightarrow> identity_layer \<Rightarrow> bool \<Rightarrow> released_entry list" where
  "released persisted nxt lists_none =
     sort_key re_uid (map (release_one persisted nxt lists_none)
       (filter (\<lambda>s. ie_role s = ADVERSARY \<and> \<not> contains_uid nxt (ie_uid s)) (il_subjects persisted)))"

definition BINDINGS_MISSING :: string where
  "BINDINGS_MISSING = ''bindings.yaml is missing but the store holds explicit bindings; restore it, or run sudo maknae reseed to return to principal-as-admin''"
definition BINDINGS_KEY_DROPPED :: string where
  "BINDINGS_KEY_DROPPED = ''bindings.yaml has no bindings: key but the store holds explicit bindings; restore the bindings: block, or run sudo maknae reseed to return to principal-as-admin''"
definition BINDINGS_YAML :: string where "BINDINGS_YAML = ''bindings.yaml''"
definition BINDINGS_NOT_MOVED :: string where
  "BINDINGS_NOT_MOVED = ''the store holds explicit bindings from authz.yaml; paste the bindings: block into /etc/maknae/bindings.yaml''"

text \<open>\<open>Path::file_name\<close> of a UTF-8 path: its last component, unless that is the parent directory.\<close>

definition file_name :: "string \<Rightarrow> string option" where
  "file_name p =
     (case rev (filter (\<lambda>c. c \<noteq> [] \<and> c \<noteq> ''.'') (split_on CHR ''/'' p)) of
        [] \<Rightarrow> None
      | c # _ \<Rightarrow> if c = ''..'' then None else Some c)"

definition drops_explicit_bindings :: "identity_layer \<Rightarrow> identity_layer \<Rightarrow> bool \<Rightarrow> string option" where
  "drops_explicit_bindings persisted file file_missing =
     (if il_bindings_sha256 persisted = None then None
      else
        let from_bindings_yaml = (file_name (il_source persisted) = Some BINDINGS_YAML)
        in if \<not> from_bindings_yaml \<and> il_bindings_sha256 file = None then Some BINDINGS_NOT_MOVED
           else if file_missing then Some BINDINGS_MISSING
           else if il_bindings_sha256 file = None then Some BINDINGS_KEY_DROPPED
           else None)"

section \<open>Building\<close>

record alloc =
  al_node :: u64
  al_edge :: u64
  al_revision :: u64
  al_prov :: provenance
  al_label :: string

definition alloc_node :: "alloc \<Rightarrow> node_kind \<Rightarrow> string \<Rightarrow> graph_attrs \<Rightarrow> node_record \<times> alloc" where
  "alloc_node a kind key attrs =
     (let a' = a\<lparr>al_node := al_node a + 1\<rparr>
      in (\<lparr>n_id = al_node a', n_space = KernelSpace, n_kind = kind, n_key = key, n_label = al_label a,
           n_provenance = al_prov a, n_revision = al_revision a, n_attrs = attrs\<rparr>, a'))"

definition alloc_edge :: "alloc \<Rightarrow> node_id \<Rightarrow> edge_kind \<Rightarrow> node_id \<Rightarrow> edge_record \<times> alloc" where
  "alloc_edge a from kind to =
     (let a' = a\<lparr>al_edge := al_edge a + 1\<rparr>
      in (\<lparr>e_id = al_edge a', e_space = KernelSpace, e_from = from, e_to = to, e_kind = kind,
           e_label = al_label a, e_provenance = al_prov a, e_revision = al_revision a, e_attrs = []\<rparr>, a'))"

text \<open>The builder and the allocator travel together: a new node is allocated and added, and its id kept.\<close>

type_synonym build_state = "alloc \<times> graph_builder"

definition put_node :: "node_kind \<Rightarrow> string \<Rightarrow> graph_attrs \<Rightarrow> build_state \<Rightarrow> node_id \<times> build_state" where
  "put_node kind key attrs st =
     (case st of (a, b) \<Rightarrow>
        let (n, a') = alloc_node a kind key attrs in (n_id n, a', builder_node n b))"

definition put_edge :: "node_id \<Rightarrow> edge_kind \<Rightarrow> node_id \<Rightarrow> build_state \<Rightarrow> build_state" where
  "put_edge from kind to st =
     (case st of (a, b) \<Rightarrow>
        let (e, a') = alloc_edge a from kind to in (a', builder_edge e b))"

definition put_compiled ::
  "compiled_node \<Rightarrow> (string, node_id) btree \<times> build_state \<Rightarrow> (string, node_id) btree \<times> build_state" where
  "put_compiled c rst =
     (case rst of (role_ids, a, b) \<Rightarrow>
        let (n0, a') = alloc_node a (cn_kind c) (cn_key c) (cn_attrs c);
            n = n0\<lparr>n_label := cn_label c, n_provenance := \<lparr>pv_kind = PCompiled, pv_transition = 0\<rparr>,
                   n_revision := 0\<rparr>
        in (if cn_kind c = ROLE then bt_insert (cn_key c) (n_id n) role_ids else role_ids,
            a', builder_node n b))"

definition put_section :: "identity_layer \<Rightarrow> node_id \<Rightarrow> build_state \<Rightarrow> node_id option \<times> build_state" where
  "put_section layer source_id st =
     (case il_bindings_sha256 layer of
        None \<Rightarrow> (None, st)
      | Some d \<Rightarrow>
          let (sec, st) = put_node SECTION (bindings_section_key (il_source layer)) [(ATTR_SHA256, GStr (hex d))] st
          in (Some sec, put_edge sec PART_OF source_id st))"

fun collect_aliases ::
  "identity_layer \<Rightarrow> (string \<times> u32) list \<Rightarrow> (u32, string list) btree \<Rightarrow> identity_error + (u32, string list) btree" where
  "collect_aliases layer [] out = Inr out"
| "collect_aliases layer ((name, uid) # r) out =
     (let own = list_ex (\<lambda>s. ie_role s = ADVERSARY \<and> ie_name s = name) (il_subjects layer)
      in if \<not> contains_uid layer uid \<or> own \<or> name = [] \<or> CHR '','' \<in> set name then Inl (Alias name)
         else collect_aliases layer r (bt_entry uid [] (\<lambda>ns. ns @ [name]) out))"

definition subject_attrs :: "(u32, string list) btree \<Rightarrow> identity_entry \<Rightarrow> graph_attrs" where
  "subject_attrs aliases s =
     (let attrs = bt_insert ATTR_UID (GU64 (ucast (ie_uid s))) (bt_insert ATTR_NAME (GStr (ie_name s)) [])
      in (case bt_get aliases (ie_uid s) of
            Some a \<Rightarrow> if ie_role s = ADVERSARY then bt_insert ATTR_ALIASES (GStr (join_with '','' a)) attrs else attrs
          | None \<Rightarrow> attrs))"

definition contain_node ::
  "identity_layer \<Rightarrow> node_id option \<Rightarrow> node_id option \<Rightarrow> build_state \<Rightarrow> node_id \<times> build_state" where
  "contain_node layer section_id containment_id st =
     (case containment_id of
        Some cid \<Rightarrow> (cid, st)
      | None \<Rightarrow>
          let (cid, st) = put_node CONTAINMENT (containment_key (il_source layer)) [] st
          in (cid, case section_id of Some sec \<Rightarrow> put_edge cid DECLARED_BY sec st | None \<Rightarrow> st))"

definition put_subject ::
  "identity_layer \<Rightarrow> (string, node_id) btree \<Rightarrow> node_id option \<Rightarrow> (u32, string list) btree
    \<Rightarrow> identity_entry \<Rightarrow> node_id option \<times> build_state \<Rightarrow> identity_error + (node_id option \<times> build_state)" where
  "put_subject layer role_ids section_id aliases s cst =
     (case cst of (containment_id, st) \<Rightarrow>
        res_bind (ok_or (UnknownRole (ie_role s)) (bt_get role_ids (ie_role s))) (\<lambda>role_id.
          let (sid, st) = put_node SUBJECT (subject_key (ie_uid s)) (subject_attrs aliases s) st;
              (containment_id, st) =
                (if ie_role s = ADVERSARY
                 then let (cid, st) = contain_node layer section_id containment_id st
                      in (Some cid, put_edge sid CONTAINED cid st)
                 else (containment_id, put_edge sid BINDS role_id st))
          in Inr (containment_id,
                  case section_id of Some sec \<Rightarrow> put_edge sid DECLARED_BY sec st | None \<Rightarrow> st)))"

fun fold_res :: "('a \<Rightarrow> 's \<Rightarrow> 'e + 's) \<Rightarrow> 'a list \<Rightarrow> 's \<Rightarrow> 'e + 's" where
  "fold_res f [] s = Inr s"
| "fold_res f (x # xs) s = res_bind (f x s) (fold_res f xs)"

definition sync_attrs :: "node_id \<Rightarrow> sync_base \<Rightarrow> identity_error + graph_attrs" where
  "sync_attrs source_id s =
     fold_res (\<lambda>(k, v) attrs. if v = [] then Inl (SyncAttr source_id k) else Inr (bt_insert k (GStr v) attrs))
       [(ATTR_BASE, sb_base s), (ATTR_LIVE, sb_live s), (ATTR_CONFLICTS, sb_conflicts s)] []"

definition put_sync :: "identity_layer \<Rightarrow> node_id \<Rightarrow> sync_base option \<Rightarrow> build_state \<Rightarrow> identity_error + build_state" where
  "put_sync layer source_id sync st =
     (case sync of
        None \<Rightarrow> Inr st
      | Some s \<Rightarrow>
          res_bind (sync_attrs source_id s) (\<lambda>attrs.
            let (n, st) = put_node SYNC_BASE (sync_key (il_source layer)) attrs st
            in Inr (put_edge n PART_OF source_id st)))"

definition put_baseline_section ::
  "node_id \<Rightarrow> string \<times> string \<Rightarrow> node_id option \<times> build_state \<Rightarrow> identity_error + (node_id option \<times> build_state)" where
  "put_baseline_section src nv cst =
     (case nv of (name, v) \<Rightarrow>
        case cst of (core, st) \<Rightarrow>
          let (sec, st) = put_node SECTION (section_key name) [(ATTR_VALUE, GStr v)] st
          in if name = [] then Inl (BaselineAmbiguous sec ''baseline section without a name'')
             else Inr (if name = ''core'' then Some sec else core, put_edge sec PART_OF src st))"

definition baseline_attrs :: "baseline_layer \<Rightarrow> graph_attrs" where
  "baseline_attrs bl =
     (let attrs = [(ATTR_SHA256, GStr (hex (bl_sha256 bl)))]
      in case bl_moved_from bl of Some from \<Rightarrow> bt_insert ATTR_MOVED_FROM (GStr from) attrs | None \<Rightarrow> attrs)"

definition build_baseline :: "baseline_layer \<Rightarrow> build_state \<Rightarrow> identity_error + build_state" where
  "build_baseline bl st =
     (let (src, st) = put_node CONFIG_SOURCE BASELINE_SOURCE_KEY (baseline_attrs bl) st
      in if bl_sections bl = [] then Inl (BaselineAmbiguous src ''baseline without a section'')
         else
           res_bind (fold_res (put_baseline_section src) (bl_sections bl) (None, st)) (\<lambda>(core, st).
             let (inst, st) = put_node INSTANCE INSTANCE_KEY [] st;
                 (sys, st) = put_node CLASSIFICATION_SYSTEM (bl_system bl) [] st;
                 (lvl, st) = put_node LEVEL (level_key (bl_system bl) (bl_ceiling bl)) [] st;
                 st = put_edge lvl LEVEL_OF sys (put_edge inst DECLARES sys st)
             in Inr (case core of
                       Some core \<Rightarrow> fold (\<lambda>i. put_edge i DECLARED_BY core) [inst, sys, lvl] st
                     | None \<Rightarrow> st)))"

definition identity_records ::
  "identity_layer \<Rightarrow> baseline_layer option \<Rightarrow> sync_base option \<Rightarrow> compiled_set \<Rightarrow> bytes \<Rightarrow> u64
    \<Rightarrow> provenance_kind \<Rightarrow> identity_error + build_state" where
  "identity_records layer baseline sync compiled vocabulary_sha256 revision initiator =
     (let a = \<lparr>al_node = 0, al_edge = 0, al_revision = revision,
               al_prov = \<lparr>pv_kind = initiator, pv_transition = revision\<rparr>, al_label = il_label layer\<rparr>;
          (source_id, st) = put_node CONFIG_SOURCE (il_source layer) [] (a, builder_new KernelSpace revision);
          (_, st) = put_node CONFIG_SOURCE VOCABULARY_SOURCE_KEY [(ATTR_SHA256, GStr (hex vocabulary_sha256))] st;
          (role_ids, st) = fold put_compiled compiled ([], st);
          (section_id, st) = put_section layer source_id st
      in res_bind (collect_aliases layer (il_aliases layer) []) (\<lambda>aliases.
           res_bind (fold_res (put_subject layer role_ids section_id aliases)
                       (sort_key ie_uid (il_subjects layer)) (None, st)) (\<lambda>(_, st).
             res_bind (put_sync layer source_id sync st) (\<lambda>st.
               case baseline of None \<Rightarrow> Inr st | Some bl \<Rightarrow> build_baseline bl st))))"

definition identity_build ::
  "identity_layer \<Rightarrow> baseline_layer option \<Rightarrow> sync_base option \<Rightarrow> compiled_set \<Rightarrow> bytes \<Rightarrow> u64
    \<Rightarrow> provenance_kind \<Rightarrow> (identity_error + graph) outcome" where
  "identity_build layer baseline sync compiled vocabulary_sha256 revision initiator =
     (case identity_records layer baseline sync compiled vocabulary_sha256 revision initiator of
        Inl e \<Rightarrow> Returns (Inl e)
      | Inr (_, b) \<Rightarrow>
          (case build b SCHEMA compiled of
             Panics \<Rightarrow> Panics
           | Returns (Inl e) \<Rightarrow> Returns (Inl (IGraph e))
           | Returns (Inr g) \<Rightarrow>
               (case List.find (\<lambda>c. cn_label c \<noteq> il_label layer) compiled of
                  Some c \<Rightarrow> Returns (Inl (LabelMismatch (cn_key c)))
                | None \<Rightarrow> Returns (Inr g))))"

section \<open>Reading back\<close>

definition str_attr :: "(u64 \<Rightarrow> string \<Rightarrow> identity_error) \<Rightarrow> node_record \<Rightarrow> string \<Rightarrow> identity_error + string" where
  "str_attr bad n attr =
     (case bt_get (n_attrs n) attr of Some (GStr s) \<Rightarrow> Inr s | _ \<Rightarrow> Inl (bad (n_id n) attr))"

definition digest_attr :: "(u64 \<Rightarrow> string \<Rightarrow> identity_error) \<Rightarrow> node_record \<Rightarrow> identity_error + bytes" where
  "digest_attr bad n =
     res_bind (str_attr bad n ATTR_SHA256) (\<lambda>s. ok_or (bad (n_id n) ATTR_SHA256) (unhex s))"

definition extract_source ::
  "node_record \<Rightarrow> bytes option \<times> node_record option \<Rightarrow> identity_error + (bytes option \<times> node_record option)" where
  "extract_source n vs =
     (case vs of (vocabulary, source) \<Rightarrow>
        if n_key n = VOCABULARY_SOURCE_KEY
        then res_bind (digest_attr BadAttr n) (\<lambda>d. Inr (Some d, source))
        else if n_key n = BASELINE_SOURCE_KEY then Inr (vocabulary, source)
        else if source \<noteq> None then Inl (Ambiguous (n_id n) ''more than one policy source'')
        else Inr (vocabulary, Some n))"

definition subject_uid_attr :: "node_record \<Rightarrow> identity_error + u32" where
  "subject_uid_attr n =
     ok_or (BadAttr (n_id n) ATTR_UID)
       (case bt_get (n_attrs n) ATTR_UID of
          Some (GU64 u) \<Rightarrow>
            if u < 2 ^ 32 \<and> n_key n = subject_key (ucast u) then Some (ucast u) else None
        | _ \<Rightarrow> None)"

fun insert_aliases ::
  "u32 \<Rightarrow> string \<Rightarrow> string list \<Rightarrow> (string, u32) btree \<Rightarrow> identity_error + (string, u32) btree" where
  "insert_aliases uid name [] m = Inr m"
| "insert_aliases uid name (al # r) m =
     (if al = [] \<or> al = name \<or> bt_get m al \<noteq> None then Inl (Alias al)
      else insert_aliases uid name r (bt_insert al uid m))"

definition graph_role_key :: "graph \<Rightarrow> node_id \<Rightarrow> string option" where
  "graph_role_key g nid =
     (if out_edges g nid CONTAINED \<noteq> [] then Some ADVERSARY
      else (case out_edges g nid BINDS of
              [] \<Rightarrow> None
            | e # _ \<Rightarrow> map_option n_key (graph_node g (e_to e))))"

record extract_state =
  es_subjects :: "identity_entry list"
  es_aliases :: "(string, u32) btree"
  es_unbound :: "u32 list"

definition extract_subject ::
  "graph \<Rightarrow> node_record option \<Rightarrow> node_record \<Rightarrow> extract_state \<Rightarrow> identity_error + extract_state" where
  "extract_subject g source n st =
     res_bind (subject_uid_attr n) (\<lambda>uid.
       if source = None then Inl (Ambiguous (n_id n) ''subject without a policy source'')
       else if length (out_edges g (n_id n) BINDS) > 1 then Inl (Ambiguous (n_id n) ''more than one binds edge'')
       else
         res_bind (str_attr BadAttr n ATTR_NAME) (\<lambda>name.
           res_bind
             (if bt_get (n_attrs n) ATTR_ALIASES = None then Inr (es_aliases st)
              else res_bind (str_attr BadAttr n ATTR_ALIASES) (\<lambda>names.
                if out_edges g (n_id n) CONTAINED = []
                then Inl (Ambiguous (n_id n) ''aliases on a subject that is not contained'')
                else insert_aliases uid name (split_on CHR '','' names) (es_aliases st)))
             (\<lambda>aliases.
               Inr (case graph_role_key g (n_id n) of
                      Some role \<Rightarrow>
                        st\<lparr>es_aliases := aliases,
                           es_subjects := es_subjects st @ [\<lparr>ie_uid = uid, ie_name = name, ie_role = role\<rparr>]\<rparr>
                    | None \<Rightarrow> st\<lparr>es_aliases := aliases, es_unbound := es_unbound st @ [uid]\<rparr>))))"

definition section_name :: "node_record \<Rightarrow> string option" where
  "section_name n =
     (case strip_prefix (n_key n) BASELINE_SOURCE_KEY of
        Some k \<Rightarrow> strip_prefix k ''#''
      | None \<Rightarrow> None)"

definition nodes_of_kind :: "node_kind \<Rightarrow> graph \<Rightarrow> node_record list" where
  "nodes_of_kind kind g = filter (\<lambda>n. n_kind n = kind) (g_nodes g)"

definition only :: "graph \<Rightarrow> node_kind \<Rightarrow> string \<Rightarrow> identity_error + node_record option" where
  "only g kind many =
     (case nodes_of_kind kind g of
        [] \<Rightarrow> Inr None
      | [first] \<Rightarrow> Inr (Some first)
      | _ # second # _ \<Rightarrow> Inl (BaselineAmbiguous (n_id second) many))"

definition part_of_only :: "graph \<Rightarrow> node_record \<Rightarrow> node_record \<Rightarrow> bool" where
  "part_of_only g n src \<longleftrightarrow> map e_to (out_edges g (n_id n) PART_OF) = [n_id src]"

definition extract_baseline_section ::
  "graph \<Rightarrow> node_record \<Rightarrow> node_record \<Rightarrow> (string, string) btree \<Rightarrow> identity_error + (string, string) btree" where
  "extract_baseline_section g src n sections =
     (case section_name n of
        None \<Rightarrow> Inr sections
      | Some name \<Rightarrow>
          if name = [] then Inl (BaselineAmbiguous (n_id n) ''baseline section without a name'')
          else if \<not> part_of_only g n src
          then Inl (BaselineAmbiguous (n_id n) ''baseline section outside the baseline source'')
          else res_bind (str_attr BaselineAttr n ATTR_VALUE) (\<lambda>v. Inr (bt_insert name v sections)))"

definition extract_moved_from :: "node_record \<Rightarrow> identity_error + string option" where
  "extract_moved_from src =
     (case bt_get (n_attrs src) ATTR_MOVED_FROM of
        None \<Rightarrow> Inr None
      | Some (GStr s) \<Rightarrow> Inr (Some s)
      | Some _ \<Rightarrow> Inl (BaselineAttr (n_id src) ATTR_MOVED_FROM))"

definition extract_ceiling :: "graph \<Rightarrow> node_record \<Rightarrow> node_record \<Rightarrow> identity_error + string" where
  "extract_ceiling g sys lvl =
     ok_or (BaselineAmbiguous (n_id lvl) ''level outside the declared system'')
       (case strip_prefix (n_key lvl) (n_key sys) of
          None \<Rightarrow> None
        | Some k \<Rightarrow>
            (case strip_prefix k '':'' of
               None \<Rightarrow> None
             | Some c \<Rightarrow> if c \<noteq> [] \<and> length (out_edges g (n_id lvl) LEVEL_OF) = 1 then Some c else None))"

definition extract_instance :: "graph \<Rightarrow> node_record \<Rightarrow> identity_error + node_record" where
  "extract_instance g src =
     res_bind (only g INSTANCE ''more than one instance'') (\<lambda>i.
       case i of
         Some n \<Rightarrow> if n_key n = INSTANCE_KEY then Inr n else Inl (BaselineAmbiguous (n_id n) ''no instance'')
       | None \<Rightarrow> Inl (BaselineAmbiguous (n_id src) ''no instance''))"

definition baseline_extract :: "graph \<Rightarrow> identity_error + baseline_layer option" where
  "baseline_extract g =
     (case graph_lookup g CONFIG_SOURCE BASELINE_SOURCE_KEY of
        None \<Rightarrow>
          (case List.find (\<lambda>n. n_kind n \<in> set [INSTANCE, CLASSIFICATION_SYSTEM, LEVEL]
                               \<or> (n_kind n = SECTION \<and> section_name n \<noteq> None)) (g_nodes g) of
             Some n \<Rightarrow> Inl (BaselineAmbiguous (n_id n) ''baseline node without a baseline source'')
           | None \<Rightarrow> Inr None)
      | Some src \<Rightarrow>
          res_bind (digest_attr BaselineAttr src) (\<lambda>sha256.
          res_bind (extract_moved_from src) (\<lambda>moved_from.
          res_bind (fold_res (extract_baseline_section g src) (nodes_of_kind SECTION g) []) (\<lambda>sections.
          if sections = [] then Inl (BaselineAmbiguous (n_id src) ''baseline without a section'')
          else
          res_bind (extract_instance g src) (\<lambda>inst.
          res_bind (only g CLASSIFICATION_SYSTEM ''more than one classification system'') (\<lambda>sys.
          res_bind (ok_or (BaselineAmbiguous (n_id inst) ''no classification system'') sys) (\<lambda>sys.
          if length (out_edges g (n_id inst) DECLARES) \<noteq> 1
          then Inl (BaselineAmbiguous (n_id inst) ''instance declares no single system'')
          else
          res_bind (only g LEVEL ''more than one level'') (\<lambda>lvl.
          res_bind (ok_or (BaselineAmbiguous (n_id sys) ''no level'') lvl) (\<lambda>lvl.
          res_bind (extract_ceiling g sys lvl) (\<lambda>ceiling.
          Inr (Some \<lparr>bl_sections = sections, bl_system = n_key sys, bl_ceiling = ceiling,
                     bl_sha256 = sha256, bl_moved_from = moved_from\<rparr>)))))))))))"

definition sync_explicit :: "string \<Rightarrow> bool" where
  "sync_explicit token \<longleftrightarrow> token \<noteq> SYNC_ABSENT \<and> token \<noteq> SYNC_MISSING"

definition sync_attr :: "node_record \<Rightarrow> string \<Rightarrow> identity_error + string" where
  "sync_attr n attr =
     (case bt_get (n_attrs n) attr of
        Some (GStr s) \<Rightarrow> if s \<noteq> [] then Inr s else Inl (SyncAttr (n_id n) attr)
      | _ \<Rightarrow> Inl (SyncAttr (n_id n) attr))"

definition sync_agreed :: "graph \<Rightarrow> node_record \<Rightarrow> node_record \<Rightarrow> sync_base \<Rightarrow> identity_error + sync_base option" where
  "sync_agreed g src n s =
     (if sync_explicit (sb_base s) \<noteq> sync_explicit (sb_live s)
      then Inl (SyncAmbiguous (n_id n) ''sync base live and base disagree on explicit bindings'')
      else if sync_explicit (sb_live s) \<noteq> (graph_lookup g SECTION (bindings_section_key (n_key src)) \<noteq> None)
      then Inl (SyncAmbiguous (n_id n) ''sync base and bindings section disagree on explicit bindings'')
      else Inr (Some s))"

definition sync_extract :: "graph \<Rightarrow> node_record option \<Rightarrow> identity_error + sync_base option" where
  "sync_extract g source =
     (case nodes_of_kind SYNC_BASE g of
        [] \<Rightarrow> Inr None
      | _ # second # _ \<Rightarrow> Inl (SyncAmbiguous (n_id second) ''more than one sync base'')
      | [n] \<Rightarrow>
          (case source of
             None \<Rightarrow> Inl (SyncAmbiguous (n_id n) ''sync base without a policy source'')
           | Some src \<Rightarrow>
               if n_key n \<noteq> sync_key (n_key src)
               then Inl (SyncAmbiguous (n_id n) ''sync base keyed for another source'')
               else if \<not> part_of_only g n src
               then Inl (SyncAmbiguous (n_id n) ''sync base outside the policy source'')
               else
                 res_bind (sync_attr n ATTR_BASE) (\<lambda>base.
                 res_bind (sync_attr n ATTR_LIVE) (\<lambda>live.
                 res_bind (sync_attr n ATTR_CONFLICTS) (\<lambda>conflicts.
                 sync_agreed g src n \<lparr>sb_base = base, sb_live = live, sb_conflicts = conflicts\<rparr>)))))"

definition alias_clash :: "(string, u32) btree \<Rightarrow> identity_entry \<Rightarrow> bool" where
  "alias_clash aliases s \<longleftrightarrow>
     ie_role s = ADVERSARY \<and> bt_get aliases (ie_name s) \<noteq> None \<and> ie_name s \<noteq> subject_key (ie_uid s)"

definition section_digest :: "graph \<Rightarrow> string \<Rightarrow> identity_error + bytes option" where
  "section_digest g source =
     (case graph_lookup g SECTION (bindings_section_key source) of
        None \<Rightarrow> Inr None
      | Some sec \<Rightarrow> res_bind (digest_attr BadAttr sec) (\<lambda>d. Inr (Some d)))"

definition identity_extract :: "graph \<Rightarrow> identity_error + extracted" where
  "identity_extract g =
     res_bind (fold_res extract_source (nodes_of_kind CONFIG_SOURCE g) (None, None)) (\<lambda>(vocabulary, source).
       let source_key = (case source of Some n \<Rightarrow> n_key n | None \<Rightarrow> []);
           label = (case source of Some n \<Rightarrow> n_label n | None \<Rightarrow> [])
       in res_bind (section_digest g source_key) (\<lambda>digest.
          res_bind (fold_res (extract_subject g source) (nodes_of_kind SUBJECT g)
                      \<lparr>es_subjects = [], es_aliases = [], es_unbound = []\<rparr>) (\<lambda>st.
            let subjects = sort_key ie_uid (es_subjects st)
            in (case List.find (alias_clash (es_aliases st)) subjects of
                  Some s \<Rightarrow> Inl (Alias (ie_name s))
                | None \<Rightarrow>
                    res_bind (baseline_extract g) (\<lambda>baseline.
                    res_bind (sync_extract g source) (\<lambda>sync.
                    Inr \<lparr>ex_layer = \<lparr>il_source = source_key, il_label = label, il_bindings_sha256 = digest,
                                     il_subjects = subjects, il_aliases = es_aliases st\<rparr>,
                         ex_vocabulary_sha256 = vocabulary, ex_unbound = sort (es_unbound st),
                         ex_baseline = baseline, ex_sync = sync\<rparr>))))))"

section \<open>What the claims record\<close>

definition claimant :: "string \<Rightarrow> identity_entry \<Rightarrow> bool" where
  "claimant n s \<longleftrightarrow> ie_role s = ADVERSARY \<and> ie_name s \<noteq> subject_key (ie_uid s) \<and> ie_name s = n"

lemma claim_subject_get:
  "bt_get (claim_subject s m) n
     = (case bt_get m n of Some u \<Rightarrow> Some u | None \<Rightarrow> if claimant n s then Some (ie_uid s) else None)"
  by (auto simp: claim_subject_def claimant_def bt_get_insert split: option.split)

lemma claim_fold_get:
  "bt_get (fold claim_subject ss m) n
     = (case bt_get m n of Some u \<Rightarrow> Some u | None \<Rightarrow> map_option ie_uid (List.find (claimant n) ss))"
  by (induction ss arbitrary: m) (simp_all add: claim_subject_get split: option.split)

lemma claims_get:
  "bt_get (claims l) n
     = (case bt_get (il_aliases l) n of Some u \<Rightarrow> Some u
        | None \<Rightarrow> map_option ie_uid (List.find (claimant n) (il_subjects l)))"
  by (simp add: claims_def claim_fold_get)

lemma claim_fold_inv: "bt_inv m \<Longrightarrow> bt_inv (fold claim_subject ss m)"
  by (induction ss arbitrary: m) (auto simp: claim_subject_def split: option.split)

lemma claims_inv: "bt_inv (il_aliases l) \<Longrightarrow> bt_inv (claims l)"
  by (simp add: claims_def claim_fold_inv)

definition own_claim :: "identity_entry list \<Rightarrow> string \<Rightarrow> u32 \<Rightarrow> bool" where
  "own_claim ss n u \<longleftrightarrow> (\<exists>s\<in>set ss. ie_uid s = u \<and> ie_role s = ADVERSARY \<and> ie_name s = n)"

lemma bt_get_filter:
  assumes "bt_inv m"
  shows "bt_get (filter (\<lambda>(k, v). P k v) m) k
    = (case bt_get m k of None \<Rightarrow> None | Some v \<Rightarrow> if P k v then Some v else None)"
proof -
  have "bt_inv (filter (\<lambda>(k, v). P k v) m)" using assms by simp
  note f = bt_entries_get [OF this, of k] and g = bt_entries_get [OF assms, of k]
  show ?thesis
  proof (cases "bt_get m k")
    case None
    with f g show ?thesis by (cases "bt_get (filter (\<lambda>(k, v). P k v) m) k") auto
  next
    case (Some v)
    then have "(k, w) \<in> set m \<longleftrightarrow> w = v" for w using g by auto
    then have "bt_get (filter (\<lambda>(k, v). P k v) m) k = Some w \<longleftrightarrow> w = v \<and> P k v" for w
      unfolding f [symmetric] by auto
    then show ?thesis using Some by (cases "P k v") (auto intro: option.exhaust)
  qed
qed

lemma with_claims_simps [simp]:
  "il_subjects (with_claims l cs) = il_subjects l" "il_source (with_claims l cs) = il_source l"
  "il_label (with_claims l cs) = il_label l" "il_bindings_sha256 (with_claims l cs) = il_bindings_sha256 l"
  by (simp_all add: with_claims_def)

lemma with_claims_aliases:
  "il_aliases (with_claims l cs) = filter (\<lambda>(n, u). \<not> own_claim (il_subjects l) n u) cs"
  by (auto simp: with_claims_def own_claim_def list_ex_iff intro!: filter_cong)

lemma with_claims_get:
  assumes "bt_inv cs"
  shows "bt_get (il_aliases (with_claims l cs)) n
    = (case bt_get cs n of None \<Rightarrow> None | Some u \<Rightarrow> if own_claim (il_subjects l) n u then None else Some u)"
  by (simp add: with_claims_aliases bt_get_filter [OF assms] split: option.split)

lemma contains_uid_subjects: "il_subjects l = il_subjects m \<Longrightarrow> contains_uid l u = contains_uid m u"
  by (simp add: contains_uid_def)

lemma contains_uid_iff: "contains_uid l u \<longleftrightarrow> (\<exists>s\<in>set (il_subjects l). ie_uid s = u \<and> ie_role s = ADVERSARY)"
  by (simp add: contains_uid_def list_ex_iff)

section \<open>What carrying forward keeps\<close>

lemma carry_one_simps:
  "cs_claims (carry_one (n, u) st) = bt_insert n u (cs_claims st)"
  "contains_uid (cs_out st) u \<Longrightarrow> cs_out (carry_one (n, u) st) = cs_out st"
  "contains_uid (cs_out (carry_one (n, u) st)) v \<longleftrightarrow> contains_uid (cs_out st) v \<or> v = u"
  "\<not> contains_uid (cs_out st) u \<Longrightarrow> il_subjects (cs_out (carry_one (n, u) st))
     = filter (\<lambda>e. ie_uid e \<noteq> u) (il_subjects (cs_out st)) @ [\<lparr>ie_uid = u, ie_name = n, ie_role = ADVERSARY\<rparr>]"
  "il_source (cs_out (carry_one (n, u) st)) = il_source (cs_out st)"
  "il_label (cs_out (carry_one (n, u) st)) = il_label (cs_out st)"
  "il_bindings_sha256 (cs_out (carry_one (n, u) st)) = il_bindings_sha256 (cs_out st)"
  by (auto simp: carry_one_def Let_def contains_uid_def list_ex_iff)

lemma carry_claims:
  "cs_claims (fold carry_one nus st) = fold (\<lambda>(n, u). bt_insert n u) nus (cs_claims st)"
  by (induction nus arbitrary: st) (auto simp: carry_one_simps)

lemma carry_contains:
  "contains_uid (cs_out (fold carry_one nus st)) v \<longleftrightarrow> contains_uid (cs_out st) v \<or> v \<in> snd ` set nus"
  by (induction nus arbitrary: st) (auto simp: carry_one_simps)

lemma carry_idle:
  "(\<And>u. u \<in> snd ` set nus \<Longrightarrow> contains_uid (cs_out st) u) \<Longrightarrow> cs_out (fold carry_one nus st) = cs_out st"
proof (induction nus arbitrary: st)
  case (Cons nu nus)
  obtain n u where nu: "nu = (n, u)" by fastforce
  have "contains_uid (cs_out st) u" using Cons.prems nu by simp
  then have eq: "cs_out (carry_one nu st) = cs_out st" by (simp add: nu carry_one_simps)
  have "cs_out (fold carry_one nus (carry_one nu st)) = cs_out (carry_one nu st)"
    by (rule Cons.IH) (use Cons.prems eq in simp)
  then show ?case by (simp add: eq)
qed simp

lemma carry_others:
  "v \<notin> snd ` set nus \<or> contains_uid (cs_out st) v \<Longrightarrow>
     filter (\<lambda>e. ie_uid e = v) (il_subjects (cs_out (fold carry_one nus st)))
     = filter (\<lambda>e. ie_uid e = v) (il_subjects (cs_out st))"
proof (induction nus arbitrary: st)
  case (Cons nu nus)
  obtain n u where nu: "nu = (n, u)" by fastforce
  have "filter (\<lambda>e. ie_uid e = v) (il_subjects (cs_out (fold carry_one nus (carry_one nu st))))
      = filter (\<lambda>e. ie_uid e = v) (il_subjects (cs_out (carry_one nu st)))"
    by (rule Cons.IH) (use Cons.prems in \<open>auto simp: nu carry_one_simps\<close>)
  also have "\<dots> = filter (\<lambda>e. ie_uid e = v) (il_subjects (cs_out st))"
  proof (cases "contains_uid (cs_out st) u")
    case True
    then show ?thesis by (simp add: nu carry_one_simps)
  next
    case False
    with Cons.prems nu have "v \<noteq> u" by auto
    then have "filter (\<lambda>e. ie_uid e \<noteq> u \<and> ie_uid e = v) xs = filter (\<lambda>e. ie_uid e = v) xs" for xs
      by (intro filter_cong) auto
    with False \<open>v \<noteq> u\<close> show ?thesis by (simp add: nu carry_one_simps)
  qed
  finally show ?case by simp
qed simp

definition overrides_of :: "u32 \<Rightarrow> carried list \<Rightarrow> identity_entry list" where
  "overrides_of v cs = concat (map ca_overrides (filter (\<lambda>c. ca_uid c = v) cs))"

lemma overrides_of_Nil: "overrides_of v [] = []"
  by (simp add: overrides_of_def)

lemma carry_overrides:
  "overrides_of v (cs_carried (fold carry_one nus st))
     = overrides_of v (cs_carried st)
       @ (if v \<in> snd ` set nus \<and> \<not> contains_uid (cs_out st) v
          then filter (\<lambda>e. ie_uid e = v) (il_subjects (cs_out st)) else [])"
proof (induction nus arbitrary: st)
  case (Cons nu nus)
  obtain n u where nu: "nu = (n, u)" by fastforce
  have step: "overrides_of v (cs_carried (carry_one nu st)) = overrides_of v (cs_carried st)
      @ (if v = u \<and> \<not> contains_uid (cs_out st) u then filter (\<lambda>e. ie_uid e = v) (il_subjects (cs_out st)) else [])"
    by (simp add: nu carry_one_def Let_def overrides_of_def)
  have c: "contains_uid (cs_out (carry_one nu st)) v \<longleftrightarrow> contains_uid (cs_out st) v \<or> v = u"
    by (simp add: nu carry_one_simps)
  have same: "filter (\<lambda>e. ie_uid e = v) (il_subjects (cs_out (carry_one nu st)))
      = filter (\<lambda>e. ie_uid e = v) (il_subjects (cs_out st))" if "v \<noteq> u"
    using carry_others [of v "[nu]" st] that by (simp add: nu)
  have "overrides_of v (cs_carried (fold carry_one (nu # nus) st)) = overrides_of v (cs_carried (carry_one nu st))
      @ (if v \<in> snd ` set nus \<and> \<not> contains_uid (cs_out (carry_one nu st)) v
         then filter (\<lambda>e. ie_uid e = v) (il_subjects (cs_out (carry_one nu st))) else [])"
    by (simp only: fold_simps Cons.IH)
  also have "\<dots> = overrides_of v (cs_carried st)
      @ (if v \<in> snd ` set (nu # nus) \<and> \<not> contains_uid (cs_out st) v
         then filter (\<lambda>e. ie_uid e = v) (il_subjects (cs_out st)) else [])"
    unfolding step c by (cases "v = u"; cases "contains_uid (cs_out st) v") (simp_all add: same [unfolded nu] nu)
  finally show ?case .
qed simp

lemma carried_uids: "map ca_uid (cs_carried (fold carry_one nus st)) = map ca_uid (cs_carried st) @ map snd nus"
  by (induction nus arbitrary: st) (auto simp: carry_one_def Let_def split: prod.splits)

definition carried_claims :: "string list \<Rightarrow> identity_layer \<Rightarrow> (string, u32) btree" where
  "carried_claims unresolved persisted = filter (\<lambda>(n, _). n \<in> set unresolved) (claims persisted)"

definition carry_start :: "identity_layer \<Rightarrow> carry_state" where
  "carry_start file = \<lparr>cs_out = file, cs_claims = claims file, cs_carried = []\<rparr>"

definition carry_run :: "identity_layer \<Rightarrow> string list \<Rightarrow> identity_layer \<Rightarrow> carry_state" where
  "carry_run file unresolved persisted = fold carry_one (carried_claims unresolved persisted) (carry_start file)"

lemma carry_forward_run:
  "carry_forward file unresolved persisted =
     (let st = carry_run file unresolved persisted
      in (with_claims ((cs_out st)\<lparr>il_subjects := sort_key ie_uid (il_subjects (cs_out st))\<rparr>) (cs_claims st),
          cs_carried st))"
  by (simp add: carry_forward_def carry_run_def carry_start_def carried_claims_def)

lemma carried_claims_get:
  assumes "bt_inv (il_aliases persisted)"
  shows "bt_get (carried_claims unresolved persisted) n
    = (if n \<in> set unresolved then bt_get (claims persisted) n else None)"
  unfolding carried_claims_def using bt_get_filter [OF claims_inv [OF assms], of "\<lambda>n _. n \<in> set unresolved" n]
  by (simp split: option.split)

lemma carried_claims_inv: "bt_inv (il_aliases persisted) \<Longrightarrow> bt_inv (carried_claims unresolved persisted)"
  by (simp add: carried_claims_def claims_inv)

lemma carried_claims_mem:
  assumes "bt_inv (il_aliases persisted)"
  shows "(n, u) \<in> set (carried_claims unresolved persisted)
    \<longleftrightarrow> n \<in> set unresolved \<and> bt_get (claims persisted) n = Some u"
  by (simp add: bt_entries_get [OF carried_claims_inv [OF assms]] carried_claims_get [OF assms])

lemma carry_run_claims:
  assumes "bt_inv (il_aliases persisted)"
  shows "bt_get (cs_claims (carry_run file unresolved persisted)) n
    = (case bt_get (carried_claims unresolved persisted) n of Some u \<Rightarrow> Some u | None \<Rightarrow> bt_get (claims file) n)"
  unfolding carry_run_def carry_claims
  by (simp add: bt.collect_get carry_start_def map_of_rev_distinct [OF bt_inv_distinct [OF carried_claims_inv [OF assms]]])

lemma carry_run_claims_inv:
  "bt_inv (il_aliases file) \<Longrightarrow> bt_inv (cs_claims (carry_run file unresolved persisted))"
  unfolding carry_run_def carry_claims by (simp add: bt.collect_inv carry_start_def claims_inv)

lemma carry_run_contains:
  "contains_uid (cs_out (carry_run file unresolved persisted)) v
    \<longleftrightarrow> contains_uid file v \<or> v \<in> snd ` set (carried_claims unresolved persisted)"
  by (simp add: carry_run_def carry_contains carry_start_def)

lemma carry_forward_contains:
  "contains_uid (fst (carry_forward file unresolved persisted)) v
    \<longleftrightarrow> contains_uid file v \<or> v \<in> snd ` set (carried_claims unresolved persisted)"
proof -
  have "contains_uid (fst (carry_forward file unresolved persisted)) v
      = contains_uid (cs_out (carry_run file unresolved persisted)) v"
    by (simp add: carry_forward_run Let_def contains_uid_iff)
  then show ?thesis by (simp only: carry_run_contains)
qed

lemma carry_forward_subjects:
  "il_subjects (fst (carry_forward file unresolved persisted))
    = sort_key ie_uid (il_subjects (cs_out (carry_run file unresolved persisted)))"
  by (simp add: carry_forward_run Let_def)

lemma carry_run_again:
  "cs_out (carry_run (fst (carry_forward file unresolved persisted)) unresolved persisted)
    = fst (carry_forward file unresolved persisted)"
proof -
  let ?out = "fst (carry_forward file unresolved persisted)"
  have "cs_out (carry_run ?out unresolved persisted) = cs_out (carry_start ?out)"
    unfolding carry_run_def by (rule carry_idle) (simp add: carry_start_def carry_forward_contains)
  then show ?thesis by (simp add: carry_start_def)
qed

lemma carry_forward_aliases:
  assumes "bt_inv (il_aliases file)"
  shows "bt_get (il_aliases (fst (carry_forward file unresolved persisted))) n
    = (case bt_get (cs_claims (carry_run file unresolved persisted)) n of
         None \<Rightarrow> None
       | Some u \<Rightarrow> if own_claim (il_subjects (fst (carry_forward file unresolved persisted))) n u then None else Some u)"
  unfolding carry_forward_run Let_def
  by (simp add: with_claims_get [OF carry_run_claims_inv [OF assms]] split: option.split)

lemma carry_forward_aliases_inv:
  "bt_inv (il_aliases file) \<Longrightarrow> bt_inv (il_aliases (fst (carry_forward file unresolved persisted)))"
  using carry_run_claims_inv by (simp add: carry_forward_run Let_def with_claims_aliases)

lemma carry_forward_idem:
  assumes "bt_inv (il_aliases file)" "bt_inv (il_aliases persisted)"
  shows "fst (carry_forward (fst (carry_forward file unresolved persisted)) unresolved persisted)
    = fst (carry_forward file unresolved persisted)"
proof -
  let ?cf = "\<lambda>f. fst (carry_forward f unresolved persisted)"
  let ?out = "?cf file" and ?run = "\<lambda>f. carry_run f unresolved persisted"
  have ss: "il_subjects (?cf ?out) = il_subjects ?out"
    by (simp add: carry_forward_subjects [of ?out] carry_run_again) (simp add: carry_forward_subjects sort_key_sorted_id)
  have C2: "bt_get (cs_claims (?run ?out)) n = (case bt_get (carried_claims unresolved persisted) n of
      Some u \<Rightarrow> Some u | None \<Rightarrow> bt_get (claims ?out) n)" for n
    by (rule carry_run_claims [OF assms(2)])
  note C1 = carry_run_claims [OF assms(2)]
  have "bt_get (il_aliases (?cf ?out)) n = bt_get (il_aliases ?out) n" for n
  proof (cases "bt_get (carried_claims unresolved persisted) n")
    case (Some u)
    then show ?thesis
      by (simp add: carry_forward_aliases [OF carry_forward_aliases_inv [OF assms(1)]] ss C2)
        (simp add: carry_forward_aliases [OF assms(1)] C1)
  next
    case None
    have out: "bt_get (il_aliases (?cf ?out)) n = (case bt_get (claims ?out) n of
        None \<Rightarrow> None | Some u \<Rightarrow> if own_claim (il_subjects ?out) n u then None else Some u)"
      unfolding carry_forward_aliases [OF carry_forward_aliases_inv [OF assms(1)]] ss C2 None by simp
    note ali = carry_forward_aliases [OF assms(1), where n = n]
    show ?thesis
    proof (cases "bt_get (il_aliases ?out) n")
      case (Some u)
      then have "\<not> own_claim (il_subjects ?out) n u" using ali by (auto split: option.splits if_splits)
      with Some show ?thesis by (simp add: out claims_get)
    next
      case N: None
      show ?thesis
      proof (cases "List.find (claimant n) (il_subjects ?out)")
        case None
        then show ?thesis by (simp add: out claims_get N)
      next
        case (Some s)
        then have "own_claim (il_subjects ?out) n (ie_uid s)"
          by (auto simp: find_Some_iff own_claim_def claimant_def)
        then show ?thesis by (simp add: out claims_get N Some)
      qed
    qed
  qed
  then have al: "il_aliases (?cf ?out) = il_aliases ?out"
    by (intro bt.ext_eq) (simp_all add: carry_forward_aliases_inv assms)
  have "il_source (?cf ?out) = il_source ?out" "il_label (?cf ?out) = il_label ?out"
    "il_bindings_sha256 (?cf ?out) = il_bindings_sha256 ?out"
    by (simp_all add: carry_forward_run [of ?out] Let_def carry_run_again)
  with ss al show ?thesis by (simp add: identity_layer.equality)
qed

lemma carry_forward_carried:
  "set (map ca_uid (snd (carry_forward file unresolved persisted))) = snd ` set (carried_claims unresolved persisted)"
proof -
  have "map ca_uid (snd (carry_forward file unresolved persisted)) = map snd (carried_claims unresolved persisted)"
    by (simp add: carry_forward_run Let_def carry_run_def carried_uids carry_start_def)
  then show ?thesis by (simp only: set_map)
qed

lemma carry_forward_entries:
  assumes "v \<notin> snd ` set (carried_claims unresolved persisted) \<or> contains_uid file v"
  shows "filter (\<lambda>e. ie_uid e = v) (il_subjects (fst (carry_forward file unresolved persisted)))
    = filter (\<lambda>e. ie_uid e = v) (il_subjects file)"
proof -
  have "filter (\<lambda>e. ie_uid e = v) (sort_key ie_uid xs) = filter (\<lambda>e. ie_uid e = v) xs" for xs :: "identity_entry list"
    by (rule sort_key_stable)
  then show ?thesis
    using carry_others [of v "carried_claims unresolved persisted" "carry_start file"] assms
    by (simp add: carry_forward_subjects carry_run_def carry_start_def)
qed

lemma carry_forward_overrides:
  "overrides_of v (snd (carry_forward file unresolved persisted))
    = (if v \<in> snd ` set (carried_claims unresolved persisted) \<and> \<not> contains_uid file v
       then filter (\<lambda>e. ie_uid e = v) (il_subjects file) else [])"
  by (simp add: carry_forward_run Let_def carry_run_def carry_overrides carry_start_def overrides_of_Nil)

lemma released_uids:
  "re_uid ` set (released persisted nxt b)
    = {u. contains_uid persisted u \<and> \<not> contains_uid nxt u}"
proof -
  have "re_uid (release_one persisted nxt b s) = ie_uid s" for s
    by (simp add: release_one_def Let_def split: option.split)
  then show ?thesis by (auto simp: released_def contains_uid_iff image_iff)
qed

text \<open>
  C32. Containment survives an account that cannot be resolved. After carrying the persisted layer
  over a reload, every adversary name the file could not resolve still contains the uid it last
  resolved to; whatever the file contains stays contained; every other uid keeps exactly the file's
  entries, and the entries a carried uid replaces are all reported as overrides; carrying again
  changes nothing; and a reload releases only uids none of whose claimed names is unresolved.
\<close>

theorem carry_forward_keeps_containment:
  assumes "bt_inv (il_aliases file)" "bt_inv (il_aliases persisted)"
    and "carry_forward file unresolved persisted = (out, carried)"
  shows "(n \<in> set unresolved \<and> bt_get (claims persisted) n = Some u \<longrightarrow> contains_uid out u)
    \<and> (contains_uid file v \<longrightarrow> contains_uid out v)
    \<and> (v \<notin> set (map ca_uid carried) \<or> contains_uid file v \<longrightarrow>
         filter (\<lambda>e. ie_uid e = v) (il_subjects out) = filter (\<lambda>e. ie_uid e = v) (il_subjects file)
         \<and> overrides_of v carried = [])
    \<and> (v \<in> set (map ca_uid carried) \<and> \<not> contains_uid file v \<longrightarrow>
         overrides_of v carried = filter (\<lambda>e. ie_uid e = v) (il_subjects file))
    \<and> fst (carry_forward out unresolved persisted) = out
    \<and> (r \<in> set (released persisted out b) \<and> bt_get (claims persisted) n = Some (re_uid r) \<longrightarrow> n \<notin> set unresolved)"
proof (intro conjI impI)
  note mem = carried_claims_mem [OF assms(2)]
  have out: "out = fst (carry_forward file unresolved persisted)" and ca: "carried = snd (carry_forward file unresolved persisted)"
    using assms(3) by simp_all
  have kept: "contains_uid out u" if "n \<in> set unresolved" "bt_get (claims persisted) n = Some u" for n u
    unfolding out carry_forward_contains using that mem [where n = n and u = u] by (metis image_eqI snd_conv)
  show "contains_uid out u" if "n \<in> set unresolved \<and> bt_get (claims persisted) n = Some u" using that kept by blast
  show "contains_uid out v" if "contains_uid file v" using that by (simp add: out carry_forward_contains)
  show "filter (\<lambda>e. ie_uid e = v) (il_subjects out) = filter (\<lambda>e. ie_uid e = v) (il_subjects file)"
    if "v \<notin> set (map ca_uid carried) \<or> contains_uid file v"
    using that carry_forward_entries unfolding out ca carry_forward_carried by blast
  show "overrides_of v carried = []" if "v \<notin> set (map ca_uid carried) \<or> contains_uid file v"
    using that unfolding ca carry_forward_carried carry_forward_overrides by auto
  show "overrides_of v carried = filter (\<lambda>e. ie_uid e = v) (il_subjects file)"
    if "v \<in> set (map ca_uid carried) \<and> \<not> contains_uid file v"
    using that unfolding ca carry_forward_carried carry_forward_overrides by simp
  show "fst (carry_forward out unresolved persisted) = out" unfolding out by (rule carry_forward_idem [OF assms(1,2)])
  show "n \<notin> set unresolved"
    if "r \<in> set (released persisted out b) \<and> bt_get (claims persisted) n = Some (re_uid r)"
  proof
    assume "n \<in> set unresolved"
    with that have "contains_uid out (re_uid r)" using kept by blast
    moreover from that have "re_uid r \<in> re_uid ` set (released persisted out b)" by simp
    ultimately show False unfolding released_uids by simp
  qed
qed

definition sample_entry :: "u32 \<Rightarrow> string \<Rightarrow> string \<Rightarrow> identity_entry" where
  "sample_entry u n r = \<lparr>ie_uid = u, ie_name = n, ie_role = r\<rparr>"

definition sample_layer :: "identity_entry list \<Rightarrow> identity_layer" where
  "sample_layer ss = \<lparr>il_source = ''/etc/maknae/bindings.yaml'', il_label = ''UNCLASSIFIED'',
     il_bindings_sha256 = Some (replicate 32 7), il_subjects = ss, il_aliases = []\<rparr>"

theorem carry_forward_keeps_containment_witness:
  "contains_uid (fst (carry_forward (sample_layer [sample_entry 7 ''ana'' ''admin''])
      [''mallory''] (sample_layer [sample_entry 7 ''mallory'' ADVERSARY]))) 7
   \<and> overrides_of 7 (snd (carry_forward (sample_layer [sample_entry 7 ''ana'' ''admin''])
      [''mallory''] (sample_layer [sample_entry 7 ''mallory'' ADVERSARY]))) = [sample_entry 7 ''ana'' ''admin'']"
proof -
  let ?file = "sample_layer [sample_entry 7 ''ana'' ''admin'']" and ?old = "sample_layer [sample_entry 7 ''mallory'' ADVERSARY]"
  obtain out carried where cf: "carry_forward ?file [''mallory''] ?old = (out, carried)" by fastforce
  have inv: "bt_inv (il_aliases ?file)" "bt_inv (il_aliases ?old)" by (simp_all add: sample_layer_def)
  have claim: "''mallory'' \<in> set [''mallory'']" "bt_get (claims ?old) ''mallory'' = Some 7"
    and free: "\<not> contains_uid ?file 7"
    by (simp_all add: claims_def claim_subject_def sample_layer_def sample_entry_def subject_key_def
        contains_uid_def ADVERSARY_def)
  note kept = carry_forward_keeps_containment [OF inv cf, where n = "''mallory''" and u = 7 and v = 7]
  have "contains_uid out 7" using kept claim by blast
  moreover have "7 \<in> set (map ca_uid carried)"
  proof (rule ccontr)
    assume "7 \<notin> set (map ca_uid carried)"
    then have eq: "filter (\<lambda>e. ie_uid e = 7) (il_subjects out) = filter (\<lambda>e. ie_uid e = 7) (il_subjects ?file)"
      using kept by blast
    obtain s where "s \<in> set (filter (\<lambda>e. ie_uid e = 7) (il_subjects out))" "ie_role s = ADVERSARY"
      using \<open>contains_uid out 7\<close> by (auto simp: contains_uid_iff)
    with free show False unfolding eq by (auto simp: contains_uid_iff)
  qed
  ultimately show ?thesis using kept free cf by (auto simp: sample_layer_def sample_entry_def)
qed

end
