(* ===== verification/PolicySource.thy ===== *)
theory PolicySource
  imports Decide Identity
begin

text \<open>
  A loaded policy source (\<open>crates/maknae-authz-basic/src/lib.rs\<close>: the two parsed files with the
  account lookups, the resolved subjects and the identity layer they declare) and subject
  resolution by hops over a graph (\<open>binding.rs\<close>: \<open>GraphBindings\<close>). The account database \<open>nss\<close>, the
  digest, and how the standard library renders a path that is not UTF-8 (\<open>lossy\<close>) or a debug-quoted
  key (\<open>dbg\<close>) are arguments.
\<close>

section \<open>Error texts\<close>

definition backticked :: "string \<Rightarrow> string" where
  "backticked s = ''`'' @ s @ ''`''"

fun role_rule_error_display :: "role_rule_error \<Rightarrow> string" where
  "role_rule_error_display (role_rule_error.UnknownRole k) = ''bindings names unknown role '' @ quoted k"
| "role_rule_error_display (Duplicate n) = ''identity '' @ quoted n @ '' listed twice in one role''"
| "role_rule_error_display (UidOutsideAdversary k) =
     ''role '' @ quoted k @ '' lists a uid entry; '' @ backticked ''uid:'' @ '' entries are accepted under adversary only''"

text \<open>\<open>shown\<close> keeps the first 64 characters of a key; a UTF-8 continuation byte starts none.\<close>

fun take_scalars :: "nat \<Rightarrow> string \<Rightarrow> string" where
  "take_scalars n [] = []"
| "take_scalars n (c # cs) =
     (if 128 \<le> (of_char c :: nat) \<and> (of_char c :: nat) < 192 then c # take_scalars n cs
      else case n of 0 \<Rightarrow> [] | Suc k \<Rightarrow> c # take_scalars k cs)"

definition shown :: "string \<Rightarrow> string" where
  "shown s = take_scalars 64 s"

definition show_word :: "'a::len word \<Rightarrow> string" where
  "show_word w = show_nat (unat w)"

fun graph_error_display :: "(string \<Rightarrow> string) \<Rightarrow> graph_error \<Rightarrow> string" where
  "graph_error_display dbg (UnknownNodeKind k) = ''unknown node kind '' @ show_word k"
| "graph_error_display dbg (UnknownEdgeKind k) = ''unknown edge kind '' @ show_word k"
| "graph_error_display dbg (DuplicateNodeId i) = ''duplicate node id '' @ show_word i"
| "graph_error_display dbg (DuplicateEdgeId i) = ''duplicate edge id '' @ show_word i"
| "graph_error_display dbg (DuplicateKey kind key) =
     ''duplicate key '' @ dbg (shown key) @ '' for node kind '' @ show_word kind"
| "graph_error_display dbg (EmptyKey i) = ''node '' @ show_word i @ '' has an empty key''"
| "graph_error_display dbg EmptyLabel = ''record has an empty label''"
| "graph_error_display dbg SpaceMismatch = ''record space differs from the graph space''"
| "graph_error_display dbg (DanglingEdge i) = ''edge '' @ show_word i @ '' names a node that does not exist''"
| "graph_error_display dbg (ForbiddenTriple from edge to) =
     ''edge kind '' @ show_word edge @ '' is not permitted from node kind '' @ show_word from
       @ '' to node kind '' @ show_word to"
| "graph_error_display dbg (ForbiddenTarget i) =
     ''edge '' @ show_word i @ '' targets a node no edge of its kind may reach''"
| "graph_error_display dbg (CompiledProvenance i) =
     ''node '' @ show_word i @ '' has a provenance its kind does not allow''"
| "graph_error_display dbg (CompiledEdgeProvenance i) =
     ''edge '' @ show_word i @ '' has a provenance edges do not allow''"
| "graph_error_display dbg (CompiledMismatch kind key) =
     ''compiled node '' @ dbg (shown key) @ '' of kind '' @ show_word kind @ '' disagrees with the binary''"
| "graph_error_display dbg (CompiledMissing kind key) =
     ''compiled node '' @ dbg (shown key) @ '' of kind '' @ show_word kind @ '' is missing''"
| "graph_error_display dbg GraphExpansionLimit = ''graph string references expand past the decode limit''"

fun identity_error_display :: "(string \<Rightarrow> string) \<Rightarrow> identity_error \<Rightarrow> string" where
  "identity_error_display dbg (IGraph e) = ''identity layer: '' @ graph_error_display dbg e"
| "identity_error_display dbg (BadAttr node attr) =
     ''identity layer: node '' @ show_word node @ '' lacks a valid '' @ backticked attr @ '' attribute''"
| "identity_error_display dbg (BaselineAttr node attr) =
     ''baseline: node '' @ show_word node @ '' lacks a valid '' @ backticked attr @ '' attribute''"
| "identity_error_display dbg (BaselineAmbiguous node what) =
     ''baseline: node '' @ show_word node @ '' is ambiguous: '' @ what"
| "identity_error_display dbg (SyncAttr node attr) =
     ''sync base: node '' @ show_word node @ '' lacks a valid '' @ backticked attr @ '' attribute''"
| "identity_error_display dbg (SyncAmbiguous node what) =
     ''sync base: node '' @ show_word node @ '' is ambiguous: '' @ what"
| "identity_error_display dbg (identity_error.UnknownRole r) =
     ''identity layer: role '' @ backticked r @ '' is not compiled in''"
| "identity_error_display dbg (Ambiguous node what) =
     ''identity layer: node '' @ show_word node @ '' is ambiguous: '' @ what"
| "identity_error_display dbg (LabelMismatch key) =
     ''identity layer: compiled node '' @ backticked key @ '' is labelled differently from the layer''"
| "identity_error_display dbg (Alias name) =
     ''identity layer: adversary name '' @ backticked name @ '' does not name one contained subject''"

fun compile_error_display :: "compile_error \<Rightarrow> string" where
  "compile_error_display (CeIdentity m) = ''snapshot identity refused: '' @ m"
| "compile_error_display (CeGraph m) = ''snapshot graph refused: '' @ m"
| "compile_error_display (CePolicy m) = ''snapshot policy refused: '' @ m"

fun authz_basic_error_display :: "authz_basic_error \<Rightarrow> string" where
  "authz_basic_error_display (AbLoad m) = ''authz policy load refused: '' @ m"
| "authz_basic_error_display (AbBindings m) = ''authz bindings invalid: '' @ m"
| "authz_basic_error_display (AbSubjectLookup m) = ''authz subjects: '' @ m"
| "authz_basic_error_display (AbUnknownRole k) = ''authz roles: unknown role '' @ backticked k"
| "authz_basic_error_display (AbRoleNotSupportedYet k) =
     ''authz roles: role '' @ backticked k @ '' takes no grants (guest and adversary are structural)''"
| "authz_basic_error_display (AbUnknownActionTerm t) =
     ''authz roles: '' @ backticked t @ '' is not a grantable action term (grantable: ''
       @ join_with '', '' GRANTABLE_ACTIONS @ '')''"
| "authz_basic_error_display (AbTermNotGrantableForRole role t) =
     ''authz roles: '' @ backticked t @ '' is not grantable to role '' @ backticked role @ '' (admin: ''
       @ join_with '', '' GRANTABLE_ACTIONS @ ''; user: session.prompt)''"
| "authz_basic_error_display (AbUnknownAction a) =
     ''authz subjects: '' @ backticked a @ '' names no action family or term''"
| "authz_basic_error_display (AbUngrantableAction a) =
     ''authz subjects: '' @ backticked a @ '' is a kernel or liveness action and no list may name it''"
| "authz_basic_error_display (AbDuplicateSubjectUid uid a b) =
     ''authz subjects: '' @ backticked a @ '' and '' @ backticked b @ '' resolve to the same uid '' @ show_u32 uid"
| "authz_basic_error_display (AbCompile e) = ''authz '' @ compile_error_display e"

section \<open>Policy sources\<close>

record policy_paths =
  pp_authz :: rpath
  pp_bindings :: rpath

type_synonym nss_lookup = "string \<Rightarrow> int + u32 option"

record policy_source =
  ps_policy :: authz_policy
  ps_bindings :: bindings
  ps_lookups :: lookups
  ps_lookup :: nss_lookup
  ps_resolved :: resolved
  ps_subjects :: subject_grants
  ps_principal :: principal
  ps_paths :: policy_paths
  ps_policy_source :: string
  ps_identity_source :: string

definition lookup_from :: "u32 option \<Rightarrow> lookup" where
  "lookup_from r = (case r of None \<Rightarrow> Absent | Some u \<Rightarrow> Found u)"

definition classify :: "nss_lookup \<Rightarrow> string \<Rightarrow> lookup" where
  "classify nss name = (case nss name of Inl errno \<Rightarrow> Failed errno | Inr r \<Rightarrow> lookup_from r)"

definition path_utf8 :: "(rpath \<Rightarrow> string) \<Rightarrow> rpath \<Rightarrow> authz_basic_error + string" where
  "path_utf8 lossy p =
     (case p of
        Utf8 s \<Rightarrow> Inr s
      | NonUtf8 _ \<Rightarrow> Inl (AbLoad (''policy path '' @ lossy p @ '' is not UTF-8'')))"

definition from_lookups ::
  "(rpath \<Rightarrow> string) \<Rightarrow> authz_policy \<Rightarrow> bindings \<Rightarrow> lookups \<Rightarrow> nss_lookup \<Rightarrow> principal \<Rightarrow> policy_paths
    \<Rightarrow> authz_basic_error + policy_source" where
  "from_lookups lossy pol b ls nss prin paths =
     res_bind (path_utf8 lossy (pp_authz paths)) (\<lambda>policy_source.
     res_bind (path_utf8 lossy (pp_bindings paths)) (\<lambda>identity_source.
     res_bind (map_err (\<lambda>e. AbBindings (role_rule_error_display e)) (resolve_subjects b (found ls))) (\<lambda>res.
     res_bind (validate_grants (action_grants pol)) (\<lambda>_.
     res_bind (validate_destinations (destinations pol)) (\<lambda>_.
     res_bind (validate_subjects pol ls) (\<lambda>subs.
     Inr \<lparr>ps_policy = pol, ps_bindings = b, ps_lookups = ls, ps_lookup = nss, ps_resolved = res,
          ps_subjects = subs, ps_principal = prin, ps_paths = paths,
          ps_policy_source = policy_source, ps_identity_source = identity_source\<rparr>))))))"

definition from_parts ::
  "(rpath \<Rightarrow> string) \<Rightarrow> authz_policy \<Rightarrow> bindings \<Rightarrow> uid_map \<Rightarrow> nss_lookup \<Rightarrow> principal \<Rightarrow> policy_paths
    \<Rightarrow> authz_basic_error + policy_source" where
  "from_parts lossy pol b uids nss prin paths =
     from_lookups lossy pol b (bt_of_list (map (\<lambda>(n, u). (n, Some u)) uids)) nss prin paths"

definition with_bindings_resolved ::
  "(rpath \<Rightarrow> string) \<Rightarrow> policy_source \<Rightarrow> bindings \<Rightarrow> lookups \<Rightarrow> authz_basic_error + policy_source" where
  "with_bindings_resolved lossy src b ls =
     from_lookups lossy (ps_policy src) b ls (ps_lookup src) (ps_principal src) (ps_paths src)"

definition with_bindings ::
  "(rpath \<Rightarrow> string) \<Rightarrow> policy_source \<Rightarrow> bindings \<Rightarrow> authz_basic_error + policy_source" where
  "with_bindings lossy src b =
     res_bind (resolve_uid_map_with (ps_policy src) b (classify (ps_lookup src)))
       (with_bindings_resolved lossy src b)"

definition with_live_bindings_using ::
  "(rpath \<Rightarrow> string) \<Rightarrow> policy_source \<Rightarrow> bindings \<Rightarrow> (string \<Rightarrow> lookup) \<Rightarrow> authz_basic_error + policy_source" where
  "with_live_bindings_using lossy src b look =
     res_bind (resolve_uid_map_with (ps_policy src) b
         (\<lambda>n. case bt_get (ps_lookups src) n of None \<Rightarrow> look n | Some r \<Rightarrow> lookup_from r))
       (with_bindings_resolved lossy src b)"

definition with_live_bindings ::
  "(rpath \<Rightarrow> string) \<Rightarrow> policy_source \<Rightarrow> bindings \<Rightarrow> authz_basic_error + policy_source" where
  "with_live_bindings lossy src b = with_live_bindings_using lossy src b (classify (ps_lookup src))"

definition answered :: "policy_source \<Rightarrow> string \<Rightarrow> bool" where
  "answered src name \<longleftrightarrow> bt_get (ps_lookups src) name \<noteq> None"

definition unresolved_adversaries :: "policy_source \<Rightarrow> string list" where
  "unresolved_adversaries src =
     List.map_filter (\<lambda>p. case p of PUnresolvedAdversary name \<Rightarrow> Some name | _ \<Rightarrow> None)
       (problems (ps_resolved src))"

definition source_identity_layer :: "policy_source \<Rightarrow> string \<Rightarrow> bytes option \<Rightarrow> identity_layer" where
  "source_identity_layer src label bindings_sha256 =
     with_claims
       \<lparr>il_source = ps_identity_source src, il_label = label, il_bindings_sha256 = bindings_sha256,
        il_subjects = map (\<lambda>(uid, role, name). \<lparr>ie_uid = uid, ie_name = name, ie_role = role_key role\<rparr>)
                        (subjects (ps_resolved src)),
        il_aliases = []\<rparr>
       (adversary_names (ps_resolved src))"

definition section_digests :: "(bytes \<Rightarrow> bytes) \<Rightarrow> policy_source \<Rightarrow> (string, bytes) btree" where
  "section_digests digest src =
     (let out = bt_of_list (map (\<lambda>(k, v). (k, digest (as_bytes v))) (sections (ps_policy src)))
      in (case b_section (ps_bindings src) of
            None \<Rightarrow> out
          | Some b \<Rightarrow> bt_insert ''bindings'' (digest (as_bytes b)) out))"

section \<open>Resolution over a graph\<close>

record graph_bindings =
  gb_graph :: graph
  gb_explicit :: bool

definition graph_bindings_new :: "graph \<Rightarrow> string \<Rightarrow> graph_bindings" where
  "graph_bindings_new g source =
     \<lparr>gb_graph = g, gb_explicit = (graph_lookup g SECTION (bindings_section_key source) \<noteq> None)\<rparr>"

definition bound_role_of :: "graph \<Rightarrow> node_id \<Rightarrow> role option" where
  "bound_role_of g nid =
     (case out_edges g nid BINDS of
        [] \<Rightarrow> None
      | e # _ \<Rightarrow> (case graph_node g (e_to e) of None \<Rightarrow> None | Some r \<Rightarrow> role_from_key (n_key r)))"

definition graph_role_for :: "graph_bindings \<Rightarrow> u32 \<Rightarrow> u32 \<Rightarrow> resolution" where
  "graph_role_for gb uid principal_uid =
     (if \<not> gb_explicit gb then if uid = principal_uid then RRole Admin else NoRole
      else (case graph_lookup (gb_graph gb) SUBJECT (subject_key uid) of
              None \<Rightarrow> NoRole
            | Some s \<Rightarrow>
                if out_edges (gb_graph gb) (n_id s) CONTAINED \<noteq> [] then RRole Adversary
                else (case bound_role_of (gb_graph gb) (n_id s) of None \<Rightarrow> NoRole | Some r \<Rightarrow> RRole r)))"

definition as_subject_bindings :: "graph_bindings \<Rightarrow> subject_binding list option" where
  "as_subject_bindings gb =
     (if \<not> gb_explicit gb then None
      else
        let role_at = (\<lambda>s. if out_edges (gb_graph gb) (n_id s) CONTAINED \<noteq> [] then Some ADVERSARY
                            else map_option role_key (bound_role_of (gb_graph gb) (n_id s)));
            out = fold (\<lambda>s out. case role_at s of
                           Some role \<Rightarrow> bt_entry role [] (\<lambda>ms. ms @ [n_key s]) out
                         | None \<Rightarrow> out)
                    (nodes_of_kind SUBJECT (gb_graph gb)) []
        in Some (map (\<lambda>(role, members). \<lparr>sb_role = role, sb_members = sort members\<rparr>) out))"

datatype subject_state =
    SsBound string
  | SsContained
  | SsCarriedForward
  | SsUnbound "string list"
  | SsUnresolved string

record listed_subject =
  ls_uid :: "u32 option"
  ls_names :: "string list"
  ls_state :: subject_state

definition carried_for :: "u32 \<Rightarrow> identity_problem \<Rightarrow> bool" where
  "carried_for uid p = (case p of PCarriedForward u _ _ \<Rightarrow> u = uid | _ \<Rightarrow> False)"

definition listed_node :: "graph \<Rightarrow> identity_problem list \<Rightarrow> node_record \<Rightarrow> listed_subject option" where
  "listed_node g ps s =
     (case bt_get (n_attrs s) ATTR_UID of
        Some (GU64 u) \<Rightarrow>
          if \<not> u < 2 ^ 32 then None
          else
            let uid = ucast u;
                name = (case bt_get (n_attrs s) ATTR_NAME of
                          Some (GStr n) \<Rightarrow> if n \<noteq> subject_key uid then [n] else []
                        | _ \<Rightarrow> []);
                claimed = sort (claim_names s);
                carried = filter (carried_for uid) ps
            in if carried \<noteq> []
               then Some \<lparr>ls_uid = Some uid,
                          ls_names = fold push_unique (concat (map problem_names carried)) claimed,
                          ls_state = SsCarriedForward\<rparr>
               else if out_edges g (n_id s) CONTAINED \<noteq> []
               then Some \<lparr>ls_uid = Some uid, ls_names = claimed, ls_state = SsContained\<rparr>
               else map_option (\<lambda>role. \<lparr>ls_uid = Some uid, ls_names = name, ls_state = SsBound (role_key role)\<rparr>)
                      (bound_role_of g (n_id s))
      | _ \<Rightarrow> None)"

fun listed_problem :: "identity_problem \<Rightarrow> listed_subject option" where
  "listed_problem (PUnresolved role name) =
     Some \<lparr>ls_uid = None, ls_names = [name], ls_state = SsUnresolved role\<rparr>"
| "listed_problem (PUnresolvedAdversary name) =
     Some \<lparr>ls_uid = None, ls_names = [name], ls_state = SsUnresolved ADVERSARY\<rparr>"
| "listed_problem (PUnbound uid names roles) =
     Some \<lparr>ls_uid = Some uid, ls_names = names, ls_state = SsUnbound roles\<rparr>"
| "listed_problem _ = None"

definition listed_subject_entries :: "graph_bindings \<Rightarrow> identity_problem list \<Rightarrow> listed_subject list option" where
  "listed_subject_entries gb ps =
     (if \<not> gb_explicit gb then None
      else Some (sort_key (\<lambda>l. (ls_uid l = None, ls_uid l, ls_names l))
             (List.map_filter (listed_node (gb_graph gb) ps) (nodes_of_kind SUBJECT (gb_graph gb))
               @ List.map_filter listed_problem ps)))"

section \<open>The roles a layer assigns\<close>

definition layer_role :: "identity_layer \<Rightarrow> u32 \<Rightarrow> u32 \<Rightarrow> resolution" where
  "layer_role l uid principal_uid =
     (if il_bindings_sha256 l = None then if uid = principal_uid then RRole Admin else NoRole
      else (case List.find (\<lambda>s. ie_uid s = uid) (il_subjects l) of
              None \<Rightarrow> NoRole
            | Some s \<Rightarrow> (case role_from_key (ie_role s) of None \<Rightarrow> NoRole | Some r \<Rightarrow> RRole r)))"

lemma subject_uid_attr_key: "subject_uid_attr n = Inr uid \<Longrightarrow> n_key n = subject_key uid"
  by (auto simp: subject_uid_attr_def split: option.splits graph_attr.splits if_splits)

lemma subject_key_inj [simp]: "subject_key u = subject_key v \<longleftrightarrow> u = v"
  by (simp add: subject_key_def)

definition entry_of_node :: "graph \<Rightarrow> node_record \<Rightarrow> identity_entry \<Rightarrow> bool" where
  "entry_of_node g n s \<longleftrightarrow> n_key n = subject_key (ie_uid s) \<and> graph_role_key g (n_id n) = Some (ie_role s)"

lemma extract_subject_Inr:
  assumes "extract_subject g source n st = Inr st'"
  shows "length (out_edges g (n_id n) BINDS) \<le> 1"
    "(\<exists>s. es_subjects st' = es_subjects st @ [s] \<and> entry_of_node g n s)
     \<or> (es_subjects st' = es_subjects st \<and> graph_role_key g (n_id n) = None)"
proof -
  obtain uid where uid: "subject_uid_attr n = Inr uid"
    using assms by (auto simp: extract_subject_def elim!: res_bind_InrE)
  have ok: "source \<noteq> None" "\<not> length (out_edges g (n_id n) BINDS) > 1"
    using assms by (auto simp: extract_subject_def uid split: if_splits)
  then show "length (out_edges g (n_id n) BINDS) \<le> 1" by simp
  obtain name aliases where st': "st' = (case graph_role_key g (n_id n) of
        Some role \<Rightarrow> st\<lparr>es_aliases := aliases,
          es_subjects := es_subjects st @ [\<lparr>ie_uid = uid, ie_name = name, ie_role = role\<rparr>]\<rparr>
      | None \<Rightarrow> st\<lparr>es_aliases := aliases, es_unbound := es_unbound st @ [uid]\<rparr>)"
    using assms unfolding extract_subject_def uid res_bind_simps if_not_P [OF ok(1)] if_not_P [OF ok(2)]
    by (elim res_bind_InrE) (rule that, drule sum.inject(2) [THEN iffD1], erule sym)
  show "(\<exists>s. es_subjects st' = es_subjects st @ [s] \<and> entry_of_node g n s)
     \<or> (es_subjects st' = es_subjects st \<and> graph_role_key g (n_id n) = None)"
  proof (cases "graph_role_key g (n_id n)")
    case (Some r)
    then have "entry_of_node g n \<lparr>ie_uid = uid, ie_name = name, ie_role = r\<rparr>"
      using subject_uid_attr_key [OF uid] by (simp add: entry_of_node_def)
    with Some show ?thesis by (simp add: st')
  qed (simp add: st')
qed

lemma extract_subjects_Inr:
  assumes "fold_res (extract_subject g source) ns st = Inr st'"
  shows "\<And>n. n \<in> set ns \<Longrightarrow> length (out_edges g (n_id n) BINDS) \<le> 1"
    and "\<And>s. s \<in> set (es_subjects st') \<Longrightarrow> s \<in> set (es_subjects st) \<or> (\<exists>n\<in>set ns. entry_of_node g n s)"
    and "\<And>n. n \<in> set ns \<Longrightarrow> graph_role_key g (n_id n) \<noteq> None \<Longrightarrow> \<exists>s\<in>set (es_subjects st'). entry_of_node g n s"
    and "set (es_subjects st) \<subseteq> set (es_subjects st')"
proof -
  have "(\<forall>n\<in>set ns. length (out_edges g (n_id n) BINDS) \<le> 1)
    \<and> (\<forall>s\<in>set (es_subjects st'). s \<in> set (es_subjects st) \<or> (\<exists>n\<in>set ns. entry_of_node g n s))
    \<and> (\<forall>n\<in>set ns. graph_role_key g (n_id n) \<noteq> None \<longrightarrow> (\<exists>s\<in>set (es_subjects st'). entry_of_node g n s))
    \<and> set (es_subjects st) \<subseteq> set (es_subjects st')"
    using assms
  proof (induction ns arbitrary: st)
    case (Cons n ns)
    then obtain st1 where s1: "extract_subject g source n st = Inr st1"
      and rest: "fold_res (extract_subject g source) ns st1 = Inr st'" by auto
    note one = extract_subject_Inr [OF s1] and ih = Cons.IH [OF rest]
    show ?case
    proof (intro conjI ballI impI)
      show "length (out_edges g (n_id m) BINDS) \<le> 1" if "m \<in> set (n # ns)" for m
        using that one(1) ih by auto
      show "s \<in> set (es_subjects st) \<or> (\<exists>m\<in>set (n # ns). entry_of_node g m s)" if "s \<in> set (es_subjects st')" for s
      proof -
        from ih that have "s \<in> set (es_subjects st1) \<or> (\<exists>m\<in>set ns. entry_of_node g m s)" by blast
        then show ?thesis using one(2) by auto
      qed
      show "\<exists>s\<in>set (es_subjects st'). entry_of_node g m s"
        if "m \<in> set (n # ns)" "graph_role_key g (n_id m) \<noteq> None" for m
      proof (cases "m = n")
        case True
        with that(2) one(2) obtain s where "es_subjects st1 = es_subjects st @ [s]" "entry_of_node g m s" by metis
        with ih show ?thesis by (intro bexI [of _ s]) auto
      next
        case False
        with that ih show ?thesis by simp
      qed
      show "set (es_subjects st) \<subseteq> set (es_subjects st')" using one(2) ih by auto
    qed
  qed simp
  then show "\<And>n. n \<in> set ns \<Longrightarrow> length (out_edges g (n_id n) BINDS) \<le> 1"
    and "\<And>s. s \<in> set (es_subjects st') \<Longrightarrow> s \<in> set (es_subjects st) \<or> (\<exists>n\<in>set ns. entry_of_node g n s)"
    and "\<And>n. n \<in> set ns \<Longrightarrow> graph_role_key g (n_id n) \<noteq> None \<Longrightarrow> \<exists>s\<in>set (es_subjects st'). entry_of_node g n s"
    and "set (es_subjects st) \<subseteq> set (es_subjects st')"
    by blast+
qed

lemma identity_extract_Inr:
  assumes "identity_extract g = Inr x"
  obtains vocabulary source st where
    "fold_res extract_source (nodes_of_kind CONFIG_SOURCE g) (None, None) = Inr (vocabulary, source)"
    "fold_res (extract_subject g source) (nodes_of_kind SUBJECT g)
       \<lparr>es_subjects = [], es_aliases = [], es_unbound = []\<rparr> = Inr st"
    "il_source (ex_layer x) = (case source of Some n \<Rightarrow> n_key n | None \<Rightarrow> [])"
    "il_label (ex_layer x) = (case source of Some n \<Rightarrow> n_label n | None \<Rightarrow> [])"
    "section_digest g (il_source (ex_layer x)) = Inr (il_bindings_sha256 (ex_layer x))"
    "il_subjects (ex_layer x) = sort_key ie_uid (es_subjects st)"
    "il_aliases (ex_layer x) = es_aliases st"
  using assms unfolding identity_extract_def Let_def
  by (auto elim!: res_bind_InrE split: prod.splits option.splits intro!: that)

text \<open>The containment of a subject and then its binding, as one role key.\<close>

lemma graph_role_for_key:
  assumes "gb_explicit gb" "graph_lookup (gb_graph gb) SUBJECT (subject_key uid) = Some n"
  shows "graph_role_for gb uid p
    = (case graph_role_key (gb_graph gb) (n_id n) of
         None \<Rightarrow> NoRole
       | Some k \<Rightarrow> (case role_from_key k of None \<Rightarrow> NoRole | Some r \<Rightarrow> RRole r))"
  using assms
  by (auto simp: graph_role_for_def graph_role_key_def bound_role_of_def ADVERSARY_def role_from_key_def
      split: list.split option.split)

lemma graph_role_for_layer:
  assumes "graph_ok sc compiled g" "identity_extract g = Inr x"
  shows "graph_role_for (graph_bindings_new g (il_source (ex_layer x))) uid p = layer_role (ex_layer x) uid p"
proof -
  let ?gb = "graph_bindings_new g (il_source (ex_layer x))" and ?l = "ex_layer x"
  obtain vocabulary source st where st: "fold_res (extract_subject g source) (nodes_of_kind SUBJECT g)
       \<lparr>es_subjects = [], es_aliases = [], es_unbound = []\<rparr> = Inr st"
    and digest: "section_digest g (il_source ?l) = Inr (il_bindings_sha256 ?l)"
    and subs: "il_subjects ?l = sort_key ie_uid (es_subjects st)"
    using identity_extract_Inr [OF assms(2)] by metis
  note ex = extract_subjects_Inr [OF st]
  have explicit: "gb_explicit ?gb \<longleftrightarrow> il_bindings_sha256 ?l \<noteq> None"
    using digest
    by (auto simp: graph_bindings_new_def section_digest_def split: option.splits elim!: res_bind_InrE dest: sym)
  have node: "graph_lookup g SUBJECT (subject_key uid) = Some n \<longleftrightarrow> n \<in> set (nodes_of_kind SUBJECT g) \<and> n_key n = subject_key uid" for n
    using graph_lookup_iff [OF assms(1)] by (auto simp: nodes_of_kind_def)
  show ?thesis
  proof (cases "gb_explicit ?gb")
    case False
    then show ?thesis using explicit by (simp add: graph_role_for_def layer_role_def)
  next
    case True
    show ?thesis
    proof (cases "graph_lookup g SUBJECT (subject_key uid)")
      case None
      have "List.find (\<lambda>s. ie_uid s = uid) (il_subjects ?l) = None"
      proof (rule ccontr)
        assume "List.find (\<lambda>s. ie_uid s = uid) (il_subjects ?l) \<noteq> None"
        then obtain s where "s \<in> set (es_subjects st)" "ie_uid s = uid" by (auto simp: find_None_iff subs)
        with ex(2) [of s] obtain n where "n \<in> set (nodes_of_kind SUBJECT g)" "n_key n = subject_key uid"
          by (auto simp: entry_of_node_def)
        with node None show False by force
      qed
      with None True explicit show ?thesis by (simp add: graph_role_for_def layer_role_def graph_bindings_new_def)
    next
      case (Some n)
      with node have n: "n \<in> set (nodes_of_kind SUBJECT g)" "n_key n = subject_key uid" by auto
      have role: "graph_role_key g (n_id n) = Some (ie_role s)" if "s \<in> set (il_subjects ?l)" "ie_uid s = uid" for s
      proof -
        from that ex(2) [of s] obtain m where m: "m \<in> set (nodes_of_kind SUBJECT g)" "entry_of_node g m s"
          by (auto simp: subs)
        then have "graph_lookup g SUBJECT (subject_key uid) = Some m" using node that by (simp add: entry_of_node_def)
        with Some m(2) show ?thesis by (simp add: entry_of_node_def)
      qed
      have "gb_graph ?gb = g" by (simp add: graph_bindings_new_def)
      note key = graph_role_for_key [OF True, unfolded this, OF Some]
      show ?thesis
      proof (cases "List.find (\<lambda>s. ie_uid s = uid) (il_subjects ?l)")
        case None
        have "graph_role_key g (n_id n) = None"
        proof (rule ccontr)
          assume "graph_role_key g (n_id n) \<noteq> None"
          with ex(3) n obtain s where "s \<in> set (es_subjects st)" "entry_of_node g n s" by blast
          with n(2) None show False by (auto simp: find_None_iff subs entry_of_node_def)
        qed
        with None True explicit show ?thesis by (simp add: key layer_role_def)
      next
        case (Some s)
        then have "s \<in> set (il_subjects ?l)" "ie_uid s = uid" by (auto simp: find_Some_iff)
        with Some True explicit show ?thesis by (auto simp: key layer_role_def role)
      qed
    qed
  qed
qed

end
