(* ===== verification/Snapshot.thy ===== *)
theory Snapshot
  imports PolicySource
begin

text \<open>
  The compiled snapshot of \<open>maknae-authz-basic\<close>: \<open>vocabulary.rs\<close> (the compiled terms and classes),
  \<open>snapshot.rs\<close> (the compiler from the persisted identity graph, the policy source and the vocabulary to
  one graph with a rule index) and the authorizer state of \<open>lib.rs\<close> that decides on an installed
  snapshot.  The compiler's counters are 64-bit words; the index and the id table, which the code only
  fills and reads, are function maps.

  The lemmas show that the snapshot's graph gives every uid exactly the role of the declared layer, and
  that each rule a decision cites is a node of that graph declared by the section the citation names.
\<close>

section \<open>The compiled vocabulary\<close>

definition ACTION_TERMS :: "string list" where
  "ACTION_TERMS =
     [''liveness.ping'',
      ''admin.whoami'', ''admin.status'', ''admin.config.show'', ''admin.audit.tail'', ''admin.policy.reload'',
      ''admin.subject.list'', ''admin.subject.bind'', ''admin.subject.unbind'', ''admin.contain'', ''admin.release'',
      ''admin.credential.rotate'', ''admin.provider.list'', ''admin.provider.set'', ''admin.provider.disable'',
      ''admin.session.list'', ''admin.session.terminate'',
      ''admin.baseline.show'', ''admin.baseline.accept'',
      ''session.new'', ''session.resume'', ''session.close'', ''session.delete'', ''session.list'', ''session.fork'',
      ''session.prompt'', ''session.cancel'', ''session.set_config_option'', ''session.set_mode'', ''session.load'',
      ''session.update'', ''session.request_permission'', ''session.elicit.create'', ''session.elicit.complete'',
      ''session.compact'',
      ''fs.read'', ''fs.write'', ''fs.delete'', ''fs.move'', ''fs.list'', ''fs.stat'', ''fs.mkdir'', ''fs.link'',
      ''fs.chmod'', ''fs.chown'',
      ''terminal.create'', ''terminal.output'', ''terminal.wait_for_exit'', ''terminal.kill'', ''terminal.release'',
      ''terminal.input'',
      ''mcp.connect'', ''mcp.disconnect'', ''mcp.message'', ''mcp.tool.call'', ''mcp.resource.read'',
      ''mcp.prompt.get'', ''mcp.sampling.create'']"

definition KERNEL_TERMS :: "string list" where
  "KERNEL_TERMS = [''kernel.contain'', ''kernel.session.terminate'']"

definition CLASSES :: "string list" where
  "CLASSES = [''liveness'', ''admin'', ''session'', ''fs'', ''terminal'', ''mcp'', ''kernel'']"

definition ATTR_CLASS :: string where "ATTR_CLASS = ''class''"

fun class_key :: "action_class \<Rightarrow> string" where
  "class_key Liveness = ''liveness''"
| "class_key CAdmin = ''admin''"
| "class_key CSession = ''session''"
| "class_key CFs = ''fs''"
| "class_key CTerminal = ''terminal''"
| "class_key CMcp = ''mcp''"
| "class_key CKernel = ''kernel''"

definition class_name :: "string \<Rightarrow> string option" where
  "class_name t = map_option class_key (class_of t)"

text \<open>\<open>expect\<close> panics on a term without a class.\<close>

definition term_node :: "string \<Rightarrow> string \<Rightarrow> compiled_node outcome" where
  "term_node label t =
     (case class_name t of
        None \<Rightarrow> Panics
      | Some c \<Rightarrow> Returns \<lparr>cn_kind = TERM_KIND, cn_key = t, cn_label = label, cn_attrs = [(ATTR_CLASS, GStr c)]\<rparr>)"

fun term_nodes :: "string \<Rightarrow> string list \<Rightarrow> compiled_node list outcome" where
  "term_nodes label [] = Returns []"
| "term_nodes label (t # ts) =
     (case term_node label t of
        Panics \<Rightarrow> Panics
      | Returns n \<Rightarrow> (case term_nodes label ts of Panics \<Rightarrow> Panics | Returns ns \<Rightarrow> Returns (n # ns)))"

definition compiled_vocabulary :: "string \<Rightarrow> compiled_set outcome" where
  "compiled_vocabulary label =
     (case term_nodes label (ACTION_TERMS @ KERNEL_TERMS) of
        Panics \<Rightarrow> Panics
      | Returns ts \<Rightarrow>
          Returns (persisted_compiled_set label @ ts
            @ map (\<lambda>c. \<lparr>cn_kind = CLASS, cn_key = c, cn_label = label, cn_attrs = []\<rparr>) CLASSES))"

section \<open>The compiler\<close>

definition ATTR_ENTRY :: string where "ATTR_ENTRY = ''entry''"
definition ATTR_EFFECT :: string where "ATTR_EFFECT = ''effect''"
definition ATTR_TERM :: string where "ATTR_TERM = ''term''"
definition ATTR_DESTINATION :: string where "ATTR_DESTINATION = ''destination''"

record snapshot =
  sn_graph :: graph
  sn_persisted :: graph
  sn_loaded :: loaded_policy
  sn_roles :: graph_bindings
  sn_index :: "cited \<Rightarrow> rule_citation option"
  sn_sections :: "(string, bytes) btree"
  sn_problems :: "identity_problem list"

definition snapshot_revision :: "snapshot \<Rightarrow> u64" where
  "snapshot_revision s = g_revision (sn_persisted s)"

definition snapshot_subjects :: "snapshot \<Rightarrow> subject_binding list option" where
  "snapshot_subjects s = as_subject_bindings (sn_roles s)"

definition subject_entries :: "snapshot \<Rightarrow> listed_subject list option" where
  "subject_entries s = listed_subject_entries (sn_roles s) (sn_problems s)"

definition cite :: "snapshot \<Rightarrow> cited \<Rightarrow> rule_citation option" where
  "cite s c = sn_index s c"

definition policy_sha256 :: "(bytes \<Rightarrow> bytes) \<Rightarrow> snapshot \<Rightarrow> string" where
  "policy_sha256 digest s =
     hex (digest (as_bytes (concat (map (\<lambda>(name, d). name @ ''='' @ hex d @ [CHR 10]) (sn_sections s)))))"

record compiler =
  cp_nodes :: "node_record list"
  cp_edges :: "edge_record list"
  cp_node :: u64
  cp_edge :: u64
  cp_label :: string
  cp_revision :: u64
  cp_source_id :: node_id
  cp_source :: string
  cp_ids :: "node_kind \<times> string \<Rightarrow> node_id option"
  cp_index :: "cited \<Rightarrow> rule_citation option"

definition seeded :: "compiler \<Rightarrow> provenance" where
  "seeded c = \<lparr>pv_kind = PSeed, pv_transition = cp_revision c\<rparr>"

definition cp_add_node :: "node_kind \<Rightarrow> string \<Rightarrow> graph_attrs \<Rightarrow> compiler \<Rightarrow> node_id \<times> compiler" where
  "cp_add_node kind key attrs c =
     (let nid = cp_node c + 1
      in (nid, c\<lparr>cp_node := nid,
                 cp_nodes := cp_nodes c @ [\<lparr>n_id = nid, n_space = KernelSpace, n_kind = kind, n_key = key,
                   n_label = cp_label c, n_provenance = seeded c, n_revision = cp_revision c, n_attrs = attrs\<rparr>]\<rparr>))"

definition cp_add_edge :: "node_id \<Rightarrow> edge_kind \<Rightarrow> node_id \<Rightarrow> compiler \<Rightarrow> compiler" where
  "cp_add_edge from kind to c =
     (let eid = cp_edge c + 1
      in c\<lparr>cp_edge := eid,
           cp_edges := cp_edges c @ [\<lparr>e_id = eid, e_space = KernelSpace, e_from = from, e_to = to, e_kind = kind,
             e_label = cp_label c, e_provenance = seeded c, e_revision = cp_revision c, e_attrs = []\<rparr>]\<rparr>)"

definition id_of :: "compiler \<Rightarrow> node_kind \<Rightarrow> string \<Rightarrow> compile_error + node_id" where
  "id_of c kind key =
     ok_or (CePolicy (backticked key @ '' is not in the compiled vocabulary'')) (cp_ids c (kind, key))"

definition cp_section ::
  "string \<Rightarrow> (string, bytes) btree \<Rightarrow> string \<Rightarrow> compiler \<Rightarrow> compile_error + ((node_id \<times> string) \<times> compiler)" where
  "cp_section name digests parent c =
     (case bt_get digests parent of
        None \<Rightarrow> Inl (CePolicy (''no digest for section '' @ backticked parent))
      | Some d \<Rightarrow>
          (let key = cp_source c @ ''#'' @ name;
               (nid, c') = cp_add_node SECTION key [(ATTR_SHA256, GStr (hex d))] c
           in Inr ((nid, key), cp_add_edge nid PART_OF (cp_source_id c') c')))"

definition cp_rule ::
  "string \<Rightarrow> graph_attrs \<Rightarrow> node_id \<times> string \<Rightarrow> cited \<Rightarrow> compiler \<Rightarrow> node_id \<times> compiler" where
  "cp_rule key attrs sec cited c =
     (let (nid, c1) = cp_add_node RULE key attrs c;
          c2 = cp_add_edge nid DECLARED_BY (fst sec) c1
      in (nid, if cp_index c2 cited = None
               then c2\<lparr>cp_index := (cp_index c2)(cited \<mapsto>
                      \<lparr>rc_node = nid, rc_key = key, rc_section = snd sec\<rparr>)\<rparr>
               else c2))"

fun effect_attrs :: "effect \<Rightarrow> edge_kind \<times> string" where
  "effect_attrs EAllow = (PERMITS, ''allow'')"
| "effect_attrs EDeny = (DENIES, ''deny'')"

definition permissions_declared ::
  "string option \<Rightarrow> string list \<Rightarrow> string list \<Rightarrow> compile_error + bool" where
  "permissions_declared canonical dn al =
     (if canonical \<noteq> None then Inr True
      else if dn = [] \<and> al = [] then Inr False
      else Inl (CePolicy (show_nat (length dn) @ '' deny and '' @ show_nat (length al)
                @ '' allow permissions entries without a permissions section'')))"

definition role_of :: "string \<Rightarrow> compile_error + role" where
  "role_of key = ok_or (CePolicy (backticked key @ '' is not a role'')) (role_from_key key)"

definition static_role :: "string \<Rightarrow> compile_error + string" where
  "static_role key = res_bind (role_of key) (\<lambda>r. Inr (role_key r))"

text \<open>\<open>compile\<close>, loop by loop.  A rule's entry attributes are inserted in key order.\<close>

definition effect_entries :: "'a list \<Rightarrow> 'a list \<Rightarrow> (effect \<times> nat \<times> 'a) list" where
  "effect_entries dn al =
     map (\<lambda>(i, x). (EDeny, i, x)) (enumerate 0 dn) @ map (\<lambda>(i, x). (EAllow, i, x)) (enumerate 0 al)"

definition entry_attrs :: "string \<Rightarrow> string \<Rightarrow> effect \<Rightarrow> graph_attrs" where
  "entry_attrs name v effect =
     bt_insert ATTR_EFFECT (GStr (snd (effect_attrs effect))) (bt_insert name (GStr v) [])"

definition add_compiled :: "compiled_node \<Rightarrow> compiler \<Rightarrow> compiler" where
  "add_compiled cn c =
     (if cp_ids c (cn_kind cn, cn_key cn) \<noteq> None then c
      else
        (let nid = cp_node c + 1
         in c\<lparr>cp_node := nid,
              cp_nodes := cp_nodes c @ [\<lparr>n_id = nid, n_space = KernelSpace, n_kind = cn_kind cn, n_key = cn_key cn,
                n_label = cn_label cn, n_provenance = \<lparr>pv_kind = PCompiled, pv_transition = 0\<rparr>, n_revision = 0,
                n_attrs = cn_attrs cn\<rparr>],
              cp_ids := (cp_ids c)((cn_kind cn, cn_key cn) \<mapsto> nid)\<rparr>))"

definition add_member :: "compiled_node \<Rightarrow> compiler \<Rightarrow> compile_error + compiler" where
  "add_member t c =
     (let cls = (case bt_get (cn_attrs t) ATTR_CLASS of Some (GStr s) \<Rightarrow> s | _ \<Rightarrow> [])
      in res_bind (id_of c TERM_KIND (cn_key t)) (\<lambda>from.
         res_bind (map_err (\<lambda>_. CeGraph (''term '' @ backticked (cn_key t) @ '' names no compiled class''))
                    (id_of c CLASS cls)) (\<lambda>to.
         Inr (cp_add_edge from MEMBER_OF to c))))"

definition add_permission ::
  "node_id \<Rightarrow> node_id \<Rightarrow> node_id \<times> string \<Rightarrow> effect \<times> nat \<times> string \<Rightarrow> compiler \<Rightarrow> compile_error + compiler" where
  "add_permission admin user sec x c =
     (case x of (effect, i, entry) \<Rightarrow>
        let (edge, word) = effect_attrs effect;
            (nid, c') = cp_rule (''rule:permissions:'' @ word @ '':'' @ show_nat i)
              (entry_attrs ATTR_ENTRY entry effect) sec (CPath effect entry) c
        in Inr (cp_add_edge user edge nid (cp_add_edge admin edge nid c')))"

definition compile_permissions ::
  "authz_policy \<Rightarrow> (string, bytes) btree \<Rightarrow> node_id \<Rightarrow> node_id \<Rightarrow> compiler \<Rightarrow> compile_error + compiler" where
  "compile_permissions pol digests admin user c =
     res_bind (permissions_declared (bt_get (sections pol) ''permissions'') (deny_sources pol) (allow_sources pol))
       (\<lambda>declared.
          if declared then
            res_bind (cp_section ''permissions'' digests ''permissions'' c) (\<lambda>(sec, c).
              fold_res (add_permission admin user sec)
                (effect_entries (deny_sources pol) (allow_sources pol)) c)
          else Inr c)"

definition add_match :: "node_id \<Rightarrow> string \<Rightarrow> compiler \<Rightarrow> compile_error + compiler" where
  "add_match nid t c = res_bind (id_of c TERM_KIND t) (\<lambda>tid. Inr (cp_add_edge nid MATCHES tid c))"

definition add_grant ::
  "string \<Rightarrow> string \<Rightarrow> node_id \<Rightarrow> node_id \<times> string \<Rightarrow> effect \<times> nat \<times> action_pattern \<Rightarrow> compiler
    \<Rightarrow> compile_error + compiler" where
  "add_grant role rkey role_id sec x c =
     (case x of (effect, i, entry) \<Rightarrow>
        res_bind (role_of role) (\<lambda>r.
        res_bind (map_err (\<lambda>e. CePolicy (authz_basic_error_display e)) (role_terms role r entry)) (\<lambda>terms.
          let (edge, word) = effect_attrs effect;
              written = action_pattern_source entry;
              (nid, c') = cp_rule (''rule:roles.'' @ role @ '':'' @ word @ '':'' @ show_nat i)
                (entry_attrs ATTR_TERM written effect) sec (CGrant rkey written effect) c
          in res_bind (fold_res (add_match nid) terms c') (\<lambda>c''. Inr (cp_add_edge role_id edge nid c'')))))"

definition compile_role ::
  "(string, bytes) btree \<Rightarrow> string \<times> raw_action_grants \<Rightarrow> compiler \<Rightarrow> compile_error + compiler" where
  "compile_role digests rg c =
     (case rg of (role, grants) \<Rightarrow>
        res_bind (static_role role) (\<lambda>rkey.
        res_bind (id_of c ROLE rkey) (\<lambda>role_id.
        res_bind (cp_section (''roles.'' @ role) digests ''roles'' c) (\<lambda>(sec, c).
          fold_res (add_grant role rkey role_id sec) (effect_entries (ag_deny grants) (ag_allow grants)) c))))"

definition add_destination ::
  "string \<Rightarrow> string \<Rightarrow> node_id \<Rightarrow> node_id \<times> string \<Rightarrow> nat \<times> string \<Rightarrow> compiler \<Rightarrow> compile_error + compiler" where
  "add_destination role rkey role_id sec x c =
     (case x of (i, d) \<Rightarrow>
        let (nid, c') = cp_rule (''rule:destinations.'' @ role @ '':allow:'' @ show_nat i)
              [(ATTR_DESTINATION, GStr d)] sec (CDestination rkey d) c
        in Inr (cp_add_edge role_id PERMITS nid c'))"

definition compile_destinations ::
  "(string, bytes) btree \<Rightarrow> string \<times> string list \<Rightarrow> compiler \<Rightarrow> compile_error + compiler" where
  "compile_destinations digests rd c =
     (case rd of (role, allowed) \<Rightarrow>
        res_bind (static_role role) (\<lambda>rkey.
        res_bind (id_of c ROLE rkey) (\<lambda>role_id.
        res_bind (cp_section (''destinations.'' @ role) digests ''destinations'' c) (\<lambda>(sec, c).
          fold_res (add_destination role rkey role_id sec) (enumerate 0 allowed) c))))"

definition add_subject_rule ::
  "string \<Rightarrow> node_id \<times> string \<Rightarrow> effect \<times> nat \<times> string \<Rightarrow> compiler \<Rightarrow> compile_error + compiler" where
  "add_subject_rule name sec x c =
     (case x of (effect, i, entry) \<Rightarrow>
        Inr (snd (cp_rule (''rule:subjects.'' @ name @ ''.permissions:'' @ snd (effect_attrs effect) @ '':'' @ show_nat i)
          (entry_attrs ATTR_ENTRY entry effect) sec (CSubjectPath name effect entry) c)))"

definition limited_subjects :: "authz_policy \<Rightarrow> (string \<times> subject_permissions) list" where
  "limited_subjects pol =
     List.map_filter (\<lambda>(name, entry). map_option (Pair name) (s_permissions entry)) (policy_subjects pol)"

definition compile_subjects ::
  "authz_policy \<Rightarrow> (string, bytes) btree \<Rightarrow> compiler \<Rightarrow> compile_error + compiler" where
  "compile_subjects pol digests c =
     (if limited_subjects pol = [] then Inr c
      else
        res_bind (cp_section ''subjects'' digests ''subjects'' c) (\<lambda>(sec, c).
          fold_res (\<lambda>(name, ps).
              fold_res (add_subject_rule name sec) (effect_entries (sp_deny_sources ps) (sp_allow_sources ps)))
            (limited_subjects pol) c))"

definition name_listed_under :: "bindings \<Rightarrow> string \<Rightarrow> (string \<times> string) list" where
  "name_listed_under b name =
     (case b_roles b of
        None \<Rightarrow> []
      | Some m \<Rightarrow>
          map (\<lambda>r. (name, role_key r))
            (List.map_filter (\<lambda>(role, _). role_from_key role)
              (filter (\<lambda>(_, entries). list_ex (\<lambda>e. render_entry e = name) entries) m)))"

fun first_some :: "('a \<Rightarrow> 'b option) \<Rightarrow> 'a list \<Rightarrow> 'b option" where
  "first_some f [] = None"
| "first_some f (x # xs) = (case f x of Some y \<Rightarrow> Some y | None \<Rightarrow> first_some f xs)"

definition folded_overrides ::
  "identity_problem list \<Rightarrow> bindings \<Rightarrow> u32 \<Rightarrow> (string \<times> string) list option" where
  "folded_overrides ps b uid =
     first_some (\<lambda>p. case p of
         PUnbound u names _ \<Rightarrow> if u = uid then Some (concat (map (name_listed_under b) names)) else None
       | _ \<Rightarrow> None) ps"

definition carried_problem ::
  "identity_problem list \<Rightarrow> carried list \<Rightarrow> bindings \<Rightarrow> identity_problem \<Rightarrow> identity_problem" where
  "carried_problem ps cs b p =
     (case p of
        PUnresolvedAdversary name \<Rightarrow>
          (case List.find (\<lambda>c. ca_name c = name) cs of
             Some c \<Rightarrow>
               (let first = map_option ca_name (List.find (\<lambda>f. ca_uid f = ca_uid c) cs);
                    fold = (if first = Some (ca_name c) then folded_overrides ps b (ca_uid c) else None)
                in PCarriedForward (ca_uid c) (ca_name c)
                     (List.map_filter (\<lambda>e. map_option (\<lambda>r. (ie_name e, role_key r)) (role_from_key (ie_role e)))
                        (ca_overrides c)
                      @ (case fold of None \<Rightarrow> [] | Some xs \<Rightarrow> xs)))
           | None \<Rightarrow> p)
      | _ \<Rightarrow> p)"

definition carried_problems ::
  "identity_problem list \<Rightarrow> carried list \<Rightarrow> bindings \<Rightarrow> identity_problem list" where
  "carried_problems ps cs b =
     map (carried_problem ps cs b)
       (filter (\<lambda>p. \<not> (case p of PUnbound uid _ _ \<Rightarrow> list_ex (\<lambda>c. ca_uid c = uid) cs | _ \<Rightarrow> False)) ps)"

text \<open>The compiler's start: the persisted records, their ids, and the policy's source node.\<close>

definition max_or_0 :: "u64 list \<Rightarrow> u64" where
  "max_or_0 xs = fold max xs 0"

definition ids_of_nodes :: "node_record list \<Rightarrow> node_kind \<times> string \<Rightarrow> node_id option" where
  "ids_of_nodes ns = fold (\<lambda>n m. m((n_kind n, n_key n) \<mapsto> n_id n)) ns Map.empty"

definition compiler_start :: "graph \<Rightarrow> string \<Rightarrow> string \<Rightarrow> compiler" where
  "compiler_start persisted label source =
     (let c = \<lparr>cp_nodes = g_nodes persisted, cp_edges = g_edges persisted,
               cp_node = max_or_0 (map n_id (g_nodes persisted)), cp_edge = max_or_0 (map e_id (g_edges persisted)),
               cp_label = label, cp_revision = g_revision persisted, cp_source_id = 0, cp_source = source,
               cp_ids = ids_of_nodes (g_nodes persisted), cp_index = Map.empty\<rparr>;
          (sid, c') = cp_add_node CONFIG_SOURCE source [] c
      in c'\<lparr>cp_source_id := sid\<rparr>)"

definition compile_rules ::
  "graph \<Rightarrow> string \<Rightarrow> policy_source \<Rightarrow> compiled_set \<Rightarrow> (string, bytes) btree \<Rightarrow> destination_grants
    \<Rightarrow> compile_error + compiler" where
  "compile_rules persisted label src vocabulary digests dests =
     (let c = fold add_compiled vocabulary (compiler_start persisted label (ps_policy_source src));
          pol = ps_policy src
      in res_bind (fold_res add_member (filter (\<lambda>n. cn_kind n = TERM_KIND) vocabulary) c) (\<lambda>c.
         res_bind (id_of c ROLE ''admin'') (\<lambda>admin.
         res_bind (id_of c ROLE ''user'') (\<lambda>user.
         res_bind (compile_permissions pol digests admin user c) (\<lambda>c.
         res_bind (fold_res (compile_role digests) (action_grants pol) c) (\<lambda>c.
         res_bind (fold_res (compile_destinations digests) dests c) (\<lambda>c.
         compile_subjects pol digests c)))))))"

definition finish_snapshot ::
  "(string \<Rightarrow> string) \<Rightarrow> graph \<Rightarrow> policy_source \<Rightarrow> compiled_set \<Rightarrow> (string, bytes) btree \<Rightarrow> identity_layer
    \<Rightarrow> carried list \<Rightarrow> action_grant_table \<Rightarrow> destination_grants \<Rightarrow> compiler
    \<Rightarrow> (compile_error + snapshot) outcome" where
  "finish_snapshot dbg persisted src vocabulary digests declared cs grants dests c =
     (case build (fold builder_edge (cp_edges c) (fold builder_node (cp_nodes c)
             (builder_new KernelSpace (g_revision persisted)))) SCHEMA vocabulary of
        Panics \<Rightarrow> Panics
      | Returns (Inl e) \<Rightarrow> Returns (Inl (CeGraph (graph_error_display dbg e)))
      | Returns (Inr g) \<Rightarrow>
          (let gb = graph_bindings_new g (il_source declared)
           in Returns (Inr
             \<lparr>sn_graph = g, sn_persisted = persisted,
              sn_loaded = \<lparr>lp_policy = ps_policy src, lp_role_for = graph_role_for gb,
                lp_action_grants = grants, lp_destinations = dests, lp_subjects = ps_subjects src\<rparr>,
              sn_roles = gb, sn_index = cp_index c, sn_sections = digests,
              sn_problems = carried_problems (problems (ps_resolved src)) cs (ps_bindings src)\<rparr>)))"

definition compile_ready ::
  "graph \<Rightarrow> policy_source \<Rightarrow> compiled_set \<Rightarrow> (string, bytes) btree \<Rightarrow> identity_layer \<Rightarrow> identity_layer
    \<Rightarrow> compile_error + (action_grant_table \<times> destination_grants \<times> compiler)" where
  "compile_ready persisted src vocabulary digests stored declared =
     (if stored \<noteq> declared
      then Inl (CeIdentity (''the persisted identity layer differs from the one '' @ il_source declared @ '' declares''))
      else
        res_bind (map_err (\<lambda>e. CePolicy (authz_basic_error_display e)) (validate_grants (action_grants (ps_policy src))))
          (\<lambda>grants.
        res_bind (map_err (\<lambda>e. CePolicy (authz_basic_error_display e)) (validate_destinations (destinations (ps_policy src))))
          (\<lambda>dests.
        if ids_of_nodes (g_nodes persisted) (CONFIG_SOURCE, il_source declared) = None
        then Inl (CeIdentity ''no bindings source node'')
        else
          res_bind (compile_rules persisted (il_label stored) src vocabulary digests dests)
            (\<lambda>c. Inr (grants, dests, c)))))"

definition compile ::
  "(string \<Rightarrow> string) \<Rightarrow> graph \<Rightarrow> policy_source \<Rightarrow> compiled_set \<Rightarrow> (string, bytes) btree
    \<Rightarrow> (compile_error + snapshot) outcome" where
  "compile dbg persisted src vocabulary digests =
     (case identity_extract persisted of
        Inl e \<Rightarrow> Returns (Inl (CeIdentity (identity_error_display dbg e)))
      | Inr stored \<Rightarrow>
          (let (declared, cs) = carry_forward
                 (source_identity_layer src (il_label (ex_layer stored)) (bt_get digests ''bindings''))
                 (unresolved_adversaries src) (ex_layer stored)
           in (case compile_ready persisted src vocabulary digests (ex_layer stored) declared of
                 Inl e \<Rightarrow> Returns (Inl e)
               | Inr (grants, dests, c) \<Rightarrow>
                   finish_snapshot dbg persisted src vocabulary digests declared cs grants dests c)))"

section \<open>The authorizer over a snapshot\<close>

definition cited_on :: "snapshot \<Rightarrow> cited_decision \<Rightarrow> decided" where
  "cited_on s d =
     \<lparr>d_verdict = cd_verdict d, d_role = cd_role d, d_rule = Option.bind (cd_cited d) (cite s)\<rparr>"

record basic_authorizer =
  ba_principal :: principal
  ba_paths :: policy_paths
  ba_digest :: "bytes \<Rightarrow> bytes"
  ba_snapshot :: snapshot

definition from_snapshot :: "principal \<Rightarrow> policy_paths \<Rightarrow> (bytes \<Rightarrow> bytes) \<Rightarrow> snapshot \<Rightarrow> basic_authorizer" where
  "from_snapshot prin paths digest s =
     \<lparr>ba_principal = prin, ba_paths = paths, ba_digest = digest, ba_snapshot = s\<rparr>"

definition install :: "snapshot \<Rightarrow> basic_authorizer \<Rightarrow> basic_authorizer" where
  "install s ba = ba\<lparr>ba_snapshot := s\<rparr>"

definition install_principal :: "bool \<Rightarrow> principal \<Rightarrow> basic_authorizer \<Rightarrow> string + basic_authorizer" where
  "install_principal holds prin ba =
     (if \<not> holds then Inl ''the principal is installed only in this baseline's live turn''
      else Inr (ba\<lparr>ba_principal := prin\<rparr>))"

definition decide_on :: "snapshot \<Rightarrow> principal \<Rightarrow> request \<Rightarrow> decided" where
  "decide_on s prin req = cited_on s (decide_loaded_cited (sn_loaded s) prin req)"

definition basic_decide_cited :: "basic_authorizer \<Rightarrow> request \<Rightarrow> decided" where
  "basic_decide_cited ba req = decide_on (ba_snapshot ba) (ba_principal ba) req"

definition basic_decide_cited_all :: "basic_authorizer \<Rightarrow> request list \<Rightarrow> decided list" where
  "basic_decide_cited_all ba reqs = map (decide_on (ba_snapshot ba) (ba_principal ba)) reqs"

definition candidate_decide_cited :: "snapshot \<Rightarrow> principal \<Rightarrow> request \<Rightarrow> decided" where
  "candidate_decide_cited s prin req = cited_on s (decide_loaded_cited (sn_loaded s) prin req)"

definition basic_authorizer_of :: "basic_authorizer \<Rightarrow> authorizer" where
  "basic_authorizer_of ba =
     \<lparr>a_decide_cited = (\<lambda>req. Returns (basic_decide_cited ba req)),
      a_decide_cited_all = (\<lambda>reqs. Returns (basic_decide_cited_all ba reqs)),
      a_subjects = Returns (snapshot_subjects (ba_snapshot ba)),
      a_backend_name = Returns ''maknae-authz-basic''\<rparr>"

section \<open>What the compiler adds\<close>

definition index_ok :: "compiler \<Rightarrow> bool" where
  "index_ok c \<longleftrightarrow> (\<forall>k r. cp_index c k = Some r \<longrightarrow>
     (\<exists>n \<in> set (cp_nodes c). \<exists>s \<in> set (cp_nodes c). \<exists>e \<in> set (cp_edges c).
        n_kind n = RULE \<and> n_id n = rc_node r \<and> n_key n = rc_key r
        \<and> n_kind s = SECTION \<and> n_key s = rc_section r
        \<and> e_kind e = DECLARED_BY \<and> e_from e = n_id n \<and> e_to e = n_id s))"

definition sec_of :: "compiler \<Rightarrow> node_id \<times> string \<Rightarrow> bool" where
  "sec_of c sec \<longleftrightarrow> (\<exists>s \<in> set (cp_nodes c). n_kind s = SECTION \<and> n_id s = fst sec \<and> n_key s = snd sec)"

definition foreign_node :: "node_record \<Rightarrow> bool" where
  "foreign_node n \<longleftrightarrow> n_kind n \<noteq> SUBJECT \<and> (n_kind n = SECTION \<longrightarrow> (\<forall>source. n_key n \<noteq> bindings_section_key source))"

definition foreign_edge :: "edge_record \<Rightarrow> bool" where
  "foreign_edge e \<longleftrightarrow> e_kind e \<noteq> BINDS \<and> e_kind e \<noteq> CONTAINED"

definition grows :: "compiler \<Rightarrow> compiler \<Rightarrow> bool" where
  "grows c c' \<longleftrightarrow>
     (\<exists>ns es. cp_nodes c' = cp_nodes c @ ns \<and> cp_edges c' = cp_edges c @ es
        \<and> list_all foreign_node ns \<and> list_all foreign_edge es)
     \<and> cp_index c \<subseteq>\<^sub>m cp_index c' \<and> (index_ok c \<longrightarrow> index_ok c')"

lemma grows_refl [simp]: "grows c c" by (simp add: grows_def)

lemma grows_trans [trans]: "grows a b \<Longrightarrow> grows b c \<Longrightarrow> grows a c"
  unfolding grows_def by (elim conjE exE) (auto intro: map_le_trans)

lemma grows_sub: "grows c c' \<Longrightarrow> set (cp_nodes c) \<subseteq> set (cp_nodes c')" "grows c c' \<Longrightarrow> set (cp_edges c) \<subseteq> set (cp_edges c')"
  by (auto simp: grows_def)

lemma sec_of_mono: "grows c c' \<Longrightarrow> sec_of c sec \<Longrightarrow> sec_of c' sec"
  unfolding sec_of_def by (meson grows_sub(1) subsetD)

lemma index_mono: "grows c c' \<Longrightarrow> cp_index c k \<noteq> None \<Longrightarrow> cp_index c' k \<noteq> None"
  by (auto simp: grows_def map_le_def dom_def)

lemma index_ok_mono:
  assumes "index_ok c" "cp_index c' = cp_index c" "set (cp_nodes c) \<subseteq> set (cp_nodes c')"
    "set (cp_edges c) \<subseteq> set (cp_edges c')"
  shows "index_ok c'"
  unfolding index_ok_def
proof (intro allI impI)
  fix k r assume "cp_index c' k = Some r"
  with assms(1,2) obtain n s e where "n \<in> set (cp_nodes c)" "s \<in> set (cp_nodes c)" "e \<in> set (cp_edges c)"
    "n_kind n = RULE \<and> n_id n = rc_node r \<and> n_key n = rc_key r \<and> n_kind s = SECTION \<and> n_key s = rc_section r
     \<and> e_kind e = DECLARED_BY \<and> e_from e = n_id n \<and> e_to e = n_id s" unfolding index_ok_def by metis
  with assms(3,4) show "\<exists>n \<in> set (cp_nodes c'). \<exists>s \<in> set (cp_nodes c'). \<exists>e \<in> set (cp_edges c').
        n_kind n = RULE \<and> n_id n = rc_node r \<and> n_key n = rc_key r
        \<and> n_kind s = SECTION \<and> n_key s = rc_section r
        \<and> e_kind e = DECLARED_BY \<and> e_from e = n_id n \<and> e_to e = n_id s" by (meson subsetD)
qed

lemma growsI:
  assumes "cp_nodes c' = cp_nodes c @ ns" "cp_edges c' = cp_edges c @ es" "list_all foreign_node ns"
    "list_all foreign_edge es" "cp_index c' = cp_index c"
  shows "grows c c'"
  using assms index_ok_mono [of c c'] by (auto simp: grows_def)

lemma grows_add_edge: "kind \<noteq> BINDS \<Longrightarrow> kind \<noteq> CONTAINED \<Longrightarrow> grows c (cp_add_edge from kind to c)"
  by (rule growsI [where ns = "[]"]) (auto simp: cp_add_edge_def Let_def foreign_edge_def)

lemma grows_add_node:
  assumes "kind \<noteq> SUBJECT" "kind = SECTION \<Longrightarrow> \<forall>source. key \<noteq> bindings_section_key source"
    "cp_add_node kind key attrs c = (nid, c')"
  shows "grows c c'" "\<exists>n \<in> set (cp_nodes c'). n_kind n = kind \<and> n_id n = nid \<and> n_key n = key"
  using assms
  by (auto simp: cp_add_node_def Let_def foreign_node_def intro!: growsI [where es = "[]"])

lemma growing_kinds:
  "PART_OF \<noteq> BINDS" "PART_OF \<noteq> CONTAINED" "DECLARED_BY \<noteq> BINDS" "DECLARED_BY \<noteq> CONTAINED"
  "MEMBER_OF \<noteq> BINDS" "MEMBER_OF \<noteq> CONTAINED" "MATCHES \<noteq> BINDS" "MATCHES \<noteq> CONTAINED"
  "PERMITS \<noteq> BINDS" "PERMITS \<noteq> CONTAINED" "DENIES \<noteq> BINDS" "DENIES \<noteq> CONTAINED"
  "RULE \<noteq> SUBJECT" "RULE \<noteq> SECTION" "SECTION \<noteq> SUBJECT" "CONFIG_SOURCE \<noteq> SUBJECT" "CONFIG_SOURCE \<noteq> SECTION"
  "ROLE \<noteq> SUBJECT" "ROLE \<noteq> SECTION" "TERM_KIND \<noteq> SUBJECT" "TERM_KIND \<noteq> SECTION" "CLASS \<noteq> SUBJECT" "CLASS \<noteq> SECTION"
  by (simp_all add: kind_defs)

lemma effect_edge: "fst (effect_attrs e) \<noteq> BINDS" "fst (effect_attrs e) \<noteq> CONTAINED"
  by (cases e; simp add: growing_kinds)+

text \<open>Section names the compiler uses never spell the bindings section.\<close>

lemma section_key_foreign:
  assumes "2 \<le> length name" "take 2 (rev name) \<noteq> ''sg''"
  shows "source @ ''#'' @ name \<noteq> bindings_section_key s"
proof
  assume "source @ ''#'' @ name = bindings_section_key s"
  then have "take 2 (rev (source @ ''#'' @ name)) = take 2 (rev (bindings_section_key s))" by simp
  with assms show False by (simp add: bindings_section_key_def)
qed

lemma cp_section_grows:
  assumes "cp_section name digests parent c = Inr (sec, c')" "2 \<le> length name" "take 2 (rev name) \<noteq> ''sg''"
  shows "grows c c'" "sec_of c' sec"
proof -
  let ?key = "cp_source c @ ''#'' @ name"
  from assms(1) obtain d nid c1 where
    n: "cp_add_node SECTION ?key [(ATTR_SHA256, GStr (hex d))] c = (nid, c1)"
    and sec: "sec = (nid, ?key)" and c': "c' = cp_add_edge nid PART_OF (cp_source_id c1) c1"
    by (auto simp: cp_section_def Let_def split: option.splits prod.splits)
  note node = grows_add_node [OF growing_kinds(15) _ n] and key = section_key_foreign [OF assms(2,3)]
  have e: "grows c1 c'" unfolding c' by (rule grows_add_edge) (simp_all add: growing_kinds)
  show "grows c c'" using node(1) key e by (blast intro: grows_trans)
  have "sec_of c1 sec" using node(2) key by (auto simp: sec_of_def sec)
  then show "sec_of c' sec" by (rule sec_of_mono [OF e])
qed

lemma cp_rule_grows:
  assumes "cp_rule key attrs sec cited c = (nid, c')" "sec_of c sec"
  shows "grows c c'" "cp_index c' cited \<noteq> None"
proof -
  obtain c1 where n: "cp_add_node RULE key attrs c = (nid, c1)"
    and c': "c' = (let c2 = cp_add_edge nid DECLARED_BY (fst sec) c1 in
       if cp_index c2 cited = None
       then c2\<lparr>cp_index := (cp_index c2)(cited \<mapsto> \<lparr>rc_node = nid, rc_key = key, rc_section = snd sec\<rparr>)\<rparr>
       else c2)"
    using assms(1) by (auto simp: cp_rule_def Let_def split: prod.splits)
  define c2 where "c2 = cp_add_edge nid DECLARED_BY (fst sec) c1"
  note node = grows_add_node [OF growing_kinds(13) _ n]
  have 1: "grows c c1" using node(1) growing_kinds(14) by blast
  have "grows c1 c2" unfolding c2_def by (rule grows_add_edge) (simp_all add: growing_kinds)
  with 1 have 2: "grows c c2" by (rule grows_trans)
  have 3: "grows c2 c'"
  proof (cases "cp_index c2 cited")
    case None
    then have c'2: "c' = c2\<lparr>cp_index := (cp_index c2)(cited \<mapsto> \<lparr>rc_node = nid, rc_key = key, rc_section = snd sec\<rparr>)\<rparr>"
      by (simp add: c' Let_def flip: c2_def)
    obtain n where "n \<in> set (cp_nodes c1)" "n_kind n = RULE \<and> n_id n = nid \<and> n_key n = key"
      using node(2) growing_kinds(14) by blast
    moreover obtain s where "s \<in> set (cp_nodes c2)" "n_kind s = SECTION \<and> n_id s = fst sec \<and> n_key s = snd sec"
      using sec_of_mono [OF 2 assms(2)] by (auto simp: sec_of_def)
    moreover have "\<exists>e \<in> set (cp_edges c2). e_kind e = DECLARED_BY \<and> e_from e = nid \<and> e_to e = fst sec"
      by (auto simp: c2_def cp_add_edge_def Let_def)
    moreover have "set (cp_nodes c1) \<subseteq> set (cp_nodes c2)" by (simp add: c2_def cp_add_edge_def Let_def)
    ultimately have "index_ok c2 \<longrightarrow> index_ok c'"
      unfolding index_ok_def c'2 by (auto 0 4)
    with None show ?thesis by (auto simp: grows_def c'2 map_le_def)
  next
    case (Some r)
    then show ?thesis by (simp add: c' Let_def flip: c2_def)
  qed
  with 2 show "grows c c'" by (rule grows_trans)
  show "cp_index c' cited \<noteq> None" by (simp add: c' Let_def)
qed

text \<open>Loops: each step grows, and each step's citation stays indexed.\<close>

lemma fold_res_grows:
  assumes "fold_res f xs c = Inr c'"
    "\<And>x c1 c2. x \<in> set xs \<Longrightarrow> grows c c1 \<Longrightarrow> f x c1 = Inr c2 \<Longrightarrow> grows c1 c2"
  shows "grows c c'"
  using assms
proof (induction xs arbitrary: c)
  case (Cons x xs)
  then obtain c1 where 1: "f x c = Inr c1" and r: "fold_res f xs c1 = Inr c'" by auto
  have g: "grows c c1" using Cons.prems(2) [of x c c1] 1 by simp
  have "grows c1 c'"
  proof (rule Cons.IH [OF r])
    fix y a b assume "y \<in> set xs" "grows c1 a" "f y a = Inr b"
    then show "grows a b" using Cons.prems(2) [of y a b] grows_trans [OF g] by simp
  qed
  with g show ?case by (rule grows_trans)
qed simp

lemma fold_res_index:
  assumes "fold_res f xs c = Inr c'"
    "\<And>x c1 c2. x \<in> set xs \<Longrightarrow> grows c c1 \<Longrightarrow> f x c1 = Inr c2 \<Longrightarrow> grows c1 c2 \<and> K x \<subseteq> dom (cp_index c2)"
  shows "grows c c'" "\<And>x. x \<in> set xs \<Longrightarrow> K x \<subseteq> dom (cp_index c')"
proof -
  show "grows c c'" by (rule fold_res_grows [OF assms(1)]) (use assms(2) in blast)
  have "\<forall>x\<in>set xs. K x \<subseteq> dom (cp_index c')"
    using assms
  proof (induction xs arbitrary: c)
    case (Cons x xs)
    then obtain c1 where 1: "f x c = Inr c1" and r: "fold_res f xs c1 = Inr c'" by auto
    have g: "grows c c1" "K x \<subseteq> dom (cp_index c1)" using Cons.prems(2) [of x c c1] 1 by simp_all
    have step: "grows a b \<and> K y \<subseteq> dom (cp_index b)" if "y \<in> set xs" "grows c1 a" "f y a = Inr b" for y a b
      using that Cons.prems(2) [of y a b] grows_trans [OF g(1)] by simp
    have "grows c1 c'" by (rule fold_res_grows [OF r]) (use step in blast)
    then have "dom (cp_index c1) \<subseteq> dom (cp_index c')" by (auto simp: grows_def dest: map_le_implies_dom_le)
    with g(2) Cons.IH [OF r] step show ?case by auto
  qed simp
  then show "\<And>x. x \<in> set xs \<Longrightarrow> K x \<subseteq> dom (cp_index c')" by blast
qed

lemma add_compiled_grows:
  assumes "cn_kind cn \<in> {ROLE, TERM_KIND, CLASS}"
  shows "grows c (add_compiled cn c)"
proof (cases "cp_ids c (cn_kind cn, cn_key cn)")
  case None
  have "cn_kind cn \<noteq> SUBJECT" "cn_kind cn \<noteq> SECTION" using assms growing_kinds by auto
  with None show ?thesis
    by (intro growsI [where es = "[]"]) (auto simp: add_compiled_def Let_def foreign_node_def)
qed (simp add: add_compiled_def)

lemma fold_compiled_grows:
  "list_all (\<lambda>cn. cn_kind cn \<in> {ROLE, TERM_KIND, CLASS}) cns \<Longrightarrow> grows c (fold add_compiled cns c)"
  by (induction cns arbitrary: c) (auto intro: grows_trans add_compiled_grows)

lemma add_member_grows: "add_member t c = Inr c' \<Longrightarrow> grows c c'"
  by (auto simp: add_member_def Let_def growing_kinds elim!: res_bind_InrE intro!: grows_add_edge)

lemma add_match_grows: "add_match nid t c = Inr c' \<Longrightarrow> grows c c'"
  by (auto simp: add_match_def growing_kinds elim!: res_bind_InrE intro!: grows_add_edge)

lemma enumerate_iff: "(\<exists>i. (i, x) \<in> set (enumerate k xs)) \<longleftrightarrow> x \<in> set xs"
proof -
  have "set xs = snd ` set (enumerate k xs)" by (simp flip: set_map)
  then show ?thesis by force
qed

lemma effect_entries_iff:
  "(\<exists>i. (effect, i, x) \<in> set (effect_entries dn al))
     \<longleftrightarrow> (effect = EDeny \<and> x \<in> set dn) \<or> (effect = EAllow \<and> x \<in> set al)"
  using enumerate_iff [of x 0 dn] enumerate_iff [of x 0 al]
  by (cases effect) (auto simp: effect_entries_def image_iff)

lemma add_permission_grows:
  assumes "add_permission admin user sec (effect, i, entry) c = Inr c'" "sec_of c sec"
  shows "grows c c' \<and> {CPath effect entry} \<subseteq> dom (cp_index c')"
proof -
  obtain nid c1 where r: "cp_rule (''rule:permissions:'' @ snd (effect_attrs effect) @ '':'' @ show_nat i)
      (entry_attrs ATTR_ENTRY entry effect) sec (CPath effect entry) c = (nid, c1)" by fastforce
  have c': "c' = cp_add_edge user (fst (effect_attrs effect)) nid (cp_add_edge admin (fst (effect_attrs effect)) nid c1)"
    using assms(1) r by (cases "effect_attrs effect") (simp add: add_permission_def)
  have "grows c1 c'" unfolding c' by (intro grows_trans [OF grows_add_edge grows_add_edge] effect_edge)
  with cp_rule_grows [OF r assms(2)] show ?thesis by (auto intro: grows_trans dest: index_mono)
qed

lemma compile_permissions_grows:
  assumes "compile_permissions pol digests admin user c = Inr c'"
  shows "grows c c'"
    "(effect = EDeny \<and> x \<in> set (deny_sources pol)) \<or> (effect = EAllow \<and> x \<in> set (allow_sources pol))
      \<Longrightarrow> cp_index c' (CPath effect x) \<noteq> None"
proof -
  obtain declared where d: "permissions_declared (bt_get (sections pol) ''permissions'') (deny_sources pol)
      (allow_sources pol) = Inr declared"
    using assms by (auto simp: compile_permissions_def elim!: res_bind_InrE)
  have "grows c c' \<and> (\<forall>x effect. (effect = EDeny \<and> x \<in> set (deny_sources pol)) \<or> (effect = EAllow \<and> x \<in> set (allow_sources pol))
      \<longrightarrow> cp_index c' (CPath effect x) \<noteq> None)"
  proof (cases declared)
    case True
    then obtain sec c1 where s: "cp_section ''permissions'' digests ''permissions'' c = Inr (sec, c1)"
      and f: "fold_res (add_permission admin user sec) (effect_entries (deny_sources pol) (allow_sources pol)) c1 = Inr c'"
      using assms d by (auto simp: compile_permissions_def elim!: res_bind_InrE)
    note sec = cp_section_grows [OF s, simplified]
    have step: "grows a b \<and> (case e of (effect, i, x) \<Rightarrow> {CPath effect x}) \<subseteq> dom (cp_index b)"
      if "e \<in> set (effect_entries (deny_sources pol) (allow_sources pol))" "grows c1 a"
        "add_permission admin user sec e a = Inr b" for e a b
      using add_permission_grows [OF _ sec_of_mono [OF that(2) sec(2)], of admin user "fst e" "fst (snd e)" "snd (snd e)" b]
        that(3) by (simp add: split_beta)
    note all_loop = fold_res_index [where K = "\<lambda>(effect, i, x). {CPath effect x}", OF f]
    have all: "grows c1 c'" by (rule all_loop(1), erule (2) step)
    have indexed: "(\<lambda>(effect, i, x). {CPath effect x}) e \<subseteq> dom (cp_index c')" if "e \<in> set (effect_entries (deny_sources pol) (allow_sources pol))" for e
      by (rule all_loop(2) [OF _ that], erule (2) step)
    show ?thesis
    proof (intro conjI allI impI)
      show "grows c c'" using sec(1) all by (rule grows_trans)
      fix x effect
      assume "(effect = EDeny \<and> x \<in> set (deny_sources pol)) \<or> (effect = EAllow \<and> x \<in> set (allow_sources pol))"
      then obtain i where "(effect, i, x) \<in> set (effect_entries (deny_sources pol) (allow_sources pol))"
        using effect_entries_iff by metis
      from indexed [OF this] show "cp_index c' (CPath effect x) \<noteq> None" by auto
    qed
  next
    case False
    with assms d show ?thesis
      by (auto simp: compile_permissions_def permissions_declared_def split: if_splits)
  qed
  then show "grows c c'"
    "(effect = EDeny \<and> x \<in> set (deny_sources pol)) \<or> (effect = EAllow \<and> x \<in> set (allow_sources pol))
      \<Longrightarrow> cp_index c' (CPath effect x) \<noteq> None" by blast+
qed

lemma role_named:
  assumes "static_role role = Inr rkey"
  shows "rkey = role" "take 2 (rev (pre @ role)) \<noteq> ''sg''" "2 \<le> length (pre @ role)"
proof -
  from assms obtain r where r: "role = role_key r" and k: "rkey = role_key r"
    by (auto simp: static_role_def role_of_def role_from_key_Some_iff ok_or_def split: option.splits elim!: res_bind_InrE)
  show "rkey = role" using r k by simp
  show "take 2 (rev (pre @ role)) \<noteq> ''sg''" "2 \<le> length (pre @ role)" unfolding r by (cases r; simp)+
qed

lemma add_grant_grows:
  assumes "add_grant role rkey role_id sec (effect, i, entry) c = Inr c'" "sec_of c sec"
  shows "grows c c' \<and> {CGrant rkey (action_pattern_source entry) effect} \<subseteq> dom (cp_index c')"
proof -
  obtain nid c1 where r: "cp_rule (''rule:roles.'' @ role @ '':'' @ snd (effect_attrs effect) @ '':'' @ show_nat i)
      (entry_attrs ATTR_TERM (action_pattern_source entry) effect) sec
      (CGrant rkey (action_pattern_source entry) effect) c = (nid, c1)" by fastforce
  obtain ts c2 where m: "fold_res (add_match nid) ts c1 = Inr c2"
    and c': "c' = cp_add_edge role_id (fst (effect_attrs effect)) nid c2"
    using assms(1) r by (cases "effect_attrs effect") (auto simp: add_grant_def elim!: res_bind_InrE)
  have "grows c1 c2" by (rule fold_res_grows [OF m]) (rule add_match_grows)
  moreover have "grows c2 c'" unfolding c' by (intro grows_add_edge effect_edge)
  ultimately have "grows c1 c'" by (rule grows_trans)
  with cp_rule_grows [OF r assms(2)] show ?thesis by (auto intro: grows_trans dest: index_mono)
qed

lemma compile_role_grows:
  assumes "compile_role digests (role, grants) c = Inr c'"
  shows "grows c c' \<and> {CGrant role (action_pattern_source p) effect | effect p.
      (effect = EDeny \<and> p \<in> set (ag_deny grants)) \<or> (effect = EAllow \<and> p \<in> set (ag_allow grants))}
      \<subseteq> dom (cp_index c')"
proof -
  let ?es = "effect_entries (ag_deny grants) (ag_allow grants)"
  from assms obtain rkey role_id sec c1 where k: "static_role role = Inr rkey"
    and s: "cp_section (''roles.'' @ role) digests ''roles'' c = Inr (sec, c1)"
    and f: "fold_res (add_grant role rkey role_id sec) ?es c1 = Inr c'"
    by (auto simp: compile_role_def elim!: res_bind_InrE)
  note sec = cp_section_grows [OF s role_named(3,2) [OF k]]
  have step: "grows a b \<and> (case e of (effect, i, p) \<Rightarrow> {CGrant role (action_pattern_source p) effect}) \<subseteq> dom (cp_index b)"
    if "e \<in> set ?es" "grows c1 a" "add_grant role rkey role_id sec e a = Inr b" for e a b
    using add_grant_grows [OF _ sec_of_mono [OF that(2) sec(2)], of role rkey role_id "fst e" "fst (snd e)" "snd (snd e)" b]
      that(3) role_named(1) [OF k] by (simp add: split_beta)
  note all_loop = fold_res_index [where K = "\<lambda>(effect, i, p). {CGrant role (action_pattern_source p) effect}", OF f]
  have all: "grows c1 c'" by (rule all_loop(1), erule (2) step)
  have indexed: "(\<lambda>(effect, i, p). {CGrant role (action_pattern_source p) effect}) e \<subseteq> dom (cp_index c')" if "e \<in> set (?es)" for e
    by (rule all_loop(2) [OF _ that], erule (2) step)
  have "cp_index c' (CGrant role (action_pattern_source p) effect) \<noteq> None"
    if "(effect = EDeny \<and> p \<in> set (ag_deny grants)) \<or> (effect = EAllow \<and> p \<in> set (ag_allow grants))" for effect p
  proof -
    from that obtain i where "(effect, i, p) \<in> set ?es" using effect_entries_iff by metis
    from indexed [OF this] show ?thesis by auto
  qed
  moreover have "grows c c'" using sec(1) all by (rule grows_trans)
  ultimately show ?thesis by blast
qed

lemma compile_destinations_grows:
  assumes "compile_destinations digests (role, allowed) c = Inr c'"
  shows "grows c c' \<and> CDestination role ` set allowed \<subseteq> dom (cp_index c')"
proof -
  from assms obtain rkey role_id sec c1 where k: "static_role role = Inr rkey"
    and s: "cp_section (''destinations.'' @ role) digests ''destinations'' c = Inr (sec, c1)"
    and f: "fold_res (add_destination role rkey role_id sec) (enumerate 0 allowed) c1 = Inr c'"
    by (auto simp: compile_destinations_def elim!: res_bind_InrE)
  note sec = cp_section_grows [OF s role_named(3,2) [OF k]]
  have step: "grows a b \<and> {CDestination role (snd e)} \<subseteq> dom (cp_index b)"
    if "e \<in> set (enumerate 0 allowed)" "grows c1 a" "add_destination role rkey role_id sec e a = Inr b" for e a b
  proof -
    obtain i d where e: "e = (i, d)" by fastforce
    obtain nid a1 where r: "cp_rule (''rule:destinations.'' @ role @ '':allow:'' @ show_nat i)
        [(ATTR_DESTINATION, GStr d)] sec (CDestination rkey d) a = (nid, a1)" by fastforce
    have b: "b = cp_add_edge role_id PERMITS nid a1" using that(3) r by (simp add: add_destination_def e)
    have "grows a1 b" unfolding b by (rule grows_add_edge) (simp_all add: growing_kinds)
    with cp_rule_grows [OF r sec_of_mono [OF that(2) sec(2)]] role_named(1) [OF k] e show ?thesis
      by (auto intro: grows_trans dest: index_mono)
  qed
  note all_loop = fold_res_index [where K = "\<lambda>e. {CDestination role (snd e)}", OF f]
  have all: "grows c1 c'" by (rule all_loop(1), erule (2) step)
  have indexed: "(\<lambda>e. {CDestination role (snd e)}) e \<subseteq> dom (cp_index c')" if "e \<in> set (enumerate 0 allowed)" for e
    by (rule all_loop(2) [OF _ that], erule (2) step)
  have "cp_index c' (CDestination role d) \<noteq> None" if "d \<in> set allowed" for d
  proof -
    from that obtain i where "(i, d) \<in> set (enumerate 0 allowed)" using enumerate_iff by metis
    from indexed [OF this] show ?thesis by auto
  qed
  moreover have "grows c c'" using sec(1) all by (rule grows_trans)
  ultimately show ?thesis by blast
qed

lemma add_subject_rule_grows:
  assumes "add_subject_rule name sec (effect, i, entry) c = Inr c'" "sec_of c sec"
  shows "grows c c' \<and> {CSubjectPath name effect entry} \<subseteq> dom (cp_index c')"
  using assms(1) cp_rule_grows [OF surjective_pairing assms(2)]
  by (auto simp: add_subject_rule_def)

lemma compile_subjects_grows:
  assumes "compile_subjects pol digests c = Inr c'"
  shows "grows c c'"
    "(name, ps) \<in> set (limited_subjects pol) \<Longrightarrow>
      (effect = EDeny \<and> x \<in> set (sp_deny_sources ps)) \<or> (effect = EAllow \<and> x \<in> set (sp_allow_sources ps))
      \<Longrightarrow> cp_index c' (CSubjectPath name effect x) \<noteq> None"
proof -
  let ?K = "\<lambda>(name, ps). {CSubjectPath name effect x | effect x.
      (effect = EDeny \<and> x \<in> set (sp_deny_sources ps)) \<or> (effect = EAllow \<and> x \<in> set (sp_allow_sources ps))}"
  have "grows c c' \<and> (\<forall>nps \<in> set (limited_subjects pol). ?K nps \<subseteq> dom (cp_index c'))"
  proof (cases "limited_subjects pol = []")
    case True
    with assms show ?thesis by (simp add: compile_subjects_def)
  next
    case False
    then obtain sec c1 where s: "cp_section ''subjects'' digests ''subjects'' c = Inr (sec, c1)"
      and f: "fold_res (\<lambda>(name, ps). fold_res (add_subject_rule name sec)
            (effect_entries (sp_deny_sources ps) (sp_allow_sources ps))) (limited_subjects pol) c1 = Inr c'"
      using assms by (auto simp: compile_subjects_def elim!: res_bind_InrE)
    note sec = cp_section_grows [OF s, simplified]
    have step: "grows a b \<and> ?K nps \<subseteq> dom (cp_index b)"
      if "nps \<in> set (limited_subjects pol)" "grows c1 a"
        "(\<lambda>(name, ps). fold_res (add_subject_rule name sec)
            (effect_entries (sp_deny_sources ps) (sp_allow_sources ps))) nps a = Inr b" for nps a b
    proof -
      obtain name ps where nps: "nps = (name, ps)" by fastforce
      let ?es = "effect_entries (sp_deny_sources ps) (sp_allow_sources ps)"
      have r: "fold_res (add_subject_rule name sec) ?es a = Inr b" using that(3) by (simp add: nps)
      have inner: "grows a1 b1 \<and> (case e of (effect, i, x) \<Rightarrow> {CSubjectPath name effect x}) \<subseteq> dom (cp_index b1)"
        if "e \<in> set ?es" "grows a a1" "add_subject_rule name sec e a1 = Inr b1" for e a1 b1
        using add_subject_rule_grows [OF _ sec_of_mono [OF grows_trans [OF \<open>grows c1 a\<close> that(2)] sec(2)],
            of name "fst e" "fst (snd e)" "snd (snd e)" b1] that(3) by (simp add: split_beta)
      note inner_all_loop = fold_res_index [where K = "\<lambda>(effect, i, x). {CSubjectPath name effect x}", OF r]
      have inner_all: "grows a b" by (rule inner_all_loop(1), erule (2) inner)
      have inner_indexed: "(\<lambda>(effect, i, x). {CSubjectPath name effect x}) e \<subseteq> dom (cp_index b)" if "e \<in> set (?es)" for e
        by (rule inner_all_loop(2) [OF _ that], erule (2) inner)
      have "cp_index b (CSubjectPath name effect x) \<noteq> None"
        if "(effect = EDeny \<and> x \<in> set (sp_deny_sources ps)) \<or> (effect = EAllow \<and> x \<in> set (sp_allow_sources ps))" for effect x
      proof -
        from that obtain i where "(effect, i, x) \<in> set ?es" using effect_entries_iff by metis
        from inner_indexed [OF this] show ?thesis by auto
      qed
      with inner_all show ?thesis by (auto simp: nps)
    qed
    note all_loop = fold_res_index [where K = ?K, OF f]
    have all: "grows c1 c'" by (rule all_loop(1), erule (2) step)
    have indexed: "?K e \<subseteq> dom (cp_index c')" if "e \<in> set (limited_subjects pol)" for e
      by (rule all_loop(2) [OF _ that], erule (2) step)
    have "grows c c'" using sec(1) all by (rule grows_trans)
    with indexed show ?thesis by blast
  qed
  then have g: "grows c c'" and k: "\<And>nps. nps \<in> set (limited_subjects pol) \<Longrightarrow> ?K nps \<subseteq> dom (cp_index c')" by simp_all
  from g show "grows c c'" .
  show "cp_index c' (CSubjectPath name effect x) \<noteq> None" if "(name, ps) \<in> set (limited_subjects pol)"
    "(effect = EDeny \<and> x \<in> set (sp_deny_sources ps)) \<or> (effect = EAllow \<and> x \<in> set (sp_allow_sources ps))"
    using k [OF that(1)] that(2) by auto
qed

section \<open>The whole compilation\<close>

lemma compiler_start_simps:
  "cp_nodes (compiler_start g label source) = g_nodes g @ [\<lparr>n_id = max_or_0 (map n_id (g_nodes g)) + 1,
     n_space = KernelSpace, n_kind = CONFIG_SOURCE, n_key = source, n_label = label,
     n_provenance = \<lparr>pv_kind = PSeed, pv_transition = g_revision g\<rparr>, n_revision = g_revision g, n_attrs = []\<rparr>]"
  "cp_edges (compiler_start g label source) = g_edges g"
  "cp_index (compiler_start g label source) = Map.empty"
  by (simp_all add: compiler_start_def cp_add_node_def Let_def seeded_def)

lemma compile_rules_grows:
  assumes "compile_rules g label src vocabulary digests dests = Inr c"
    "list_all (\<lambda>cn. cn_kind cn \<in> {ROLE, TERM_KIND, CLASS}) vocabulary"
  shows "grows (compiler_start g label (ps_policy_source src)) c"
    "(effect = EDeny \<and> x \<in> set (deny_sources (ps_policy src))) \<or> (effect = EAllow \<and> x \<in> set (allow_sources (ps_policy src)))
      \<Longrightarrow> cp_index c (CPath effect x) \<noteq> None"
    "(role, grants) \<in> set (action_grants (ps_policy src)) \<Longrightarrow>
      (effect = EDeny \<and> p \<in> set (ag_deny grants)) \<or> (effect = EAllow \<and> p \<in> set (ag_allow grants))
      \<Longrightarrow> cp_index c (CGrant role (action_pattern_source p) effect) \<noteq> None"
    "(role, allowed) \<in> set dests \<Longrightarrow> d \<in> set allowed \<Longrightarrow> cp_index c (CDestination role d) \<noteq> None"
    "(name, ps) \<in> set (limited_subjects (ps_policy src)) \<Longrightarrow>
      (effect = EDeny \<and> x \<in> set (sp_deny_sources ps)) \<or> (effect = EAllow \<and> x \<in> set (sp_allow_sources ps))
      \<Longrightarrow> cp_index c (CSubjectPath name effect x) \<noteq> None"
proof -
  let ?c0 = "compiler_start g label (ps_policy_source src)" and ?pol = "ps_policy src"
  let ?KR = "\<lambda>(role, grants). {CGrant role (action_pattern_source p) effect | effect p.
      (effect = EDeny \<and> p \<in> set (ag_deny grants)) \<or> (effect = EAllow \<and> p \<in> set (ag_allow grants))}"
  let ?KD = "\<lambda>(role, allowed). CDestination role ` set allowed"
  obtain c1 admin user c2 c3 c4 where
    m: "fold_res add_member (filter (\<lambda>n. cn_kind n = TERM_KIND) vocabulary) (fold add_compiled vocabulary ?c0) = Inr c1"
    and p: "compile_permissions ?pol digests admin user c1 = Inr c2"
    and r: "fold_res (compile_role digests) (action_grants ?pol) c2 = Inr c3"
    and d: "fold_res (compile_destinations digests) dests c3 = Inr c4"
    and s: "compile_subjects ?pol digests c4 = Inr c"
    using assms(1) unfolding compile_rules_def Let_def by (elim res_bind_InrE) (rule that)
  have g1: "grows ?c0 c1"
    by (rule grows_trans [OF fold_compiled_grows [OF assms(2)]], rule fold_res_grows [OF m], erule add_member_grows)
  have role: "grows a b \<and> ?KR rg \<subseteq> dom (cp_index b)" if "compile_role digests rg a = Inr b" for rg a b
    using that compile_role_grows [of digests "fst rg" "snd rg" a b] by (simp add: split_beta)
  have dest: "grows a b \<and> ?KD rd \<subseteq> dom (cp_index b)" if "compile_destinations digests rd a = Inr b" for rd a b
    using that compile_destinations_grows [of digests "fst rd" "snd rd" a b] by (simp add: split_beta)
  note gp = compile_permissions_grows [OF p] and gs = compile_subjects_grows [OF s]
  have g3: "grows c2 c3" by (rule fold_res_index(1) [where K = ?KR, OF r]) (rule role)
  have g4: "grows c3 c4" by (rule fold_res_index(1) [where K = ?KD, OF d]) (rule dest)
  have g4c: "grows c3 c" using g4 gs(1) by (rule grows_trans)
  have g3c: "grows c2 c" using g3 g4c by (rule grows_trans)
  show "grows ?c0 c" using g1 grows_trans [OF gp(1) g3c] by (rule grows_trans)
  show "cp_index c (CPath effect x) \<noteq> None"
    if "(effect = EDeny \<and> x \<in> set (deny_sources ?pol)) \<or> (effect = EAllow \<and> x \<in> set (allow_sources ?pol))"
    using index_mono [OF g3c gp(2) [OF that]] .
  show "cp_index c (CGrant role (action_pattern_source p) effect) \<noteq> None"
    if "(role, grants) \<in> set (action_grants ?pol)"
      "(effect = EDeny \<and> p \<in> set (ag_deny grants)) \<or> (effect = EAllow \<and> p \<in> set (ag_allow grants))"
  proof -
    have "?KR (role, grants) \<subseteq> dom (cp_index c3)"
      by (rule fold_res_index(2) [where K = ?KR, OF r _ that(1)]) (rule role)
    with that(2) have "cp_index c3 (CGrant role (action_pattern_source p) effect) \<noteq> None" by auto
    then show ?thesis by (rule index_mono [OF g4c])
  qed
  show "cp_index c (CDestination role d) \<noteq> None" if "(role, allowed) \<in> set dests" "d \<in> set allowed"
  proof -
    have "?KD (role, allowed) \<subseteq> dom (cp_index c4)"
      by (rule fold_res_index(2) [where K = ?KD, OF d _ that(1)]) (rule dest)
    with that(2) have "cp_index c4 (CDestination role d) \<noteq> None" by auto
    then show ?thesis by (rule index_mono [OF gs(1)])
  qed
  show "cp_index c (CSubjectPath name effect x) \<noteq> None"
    if "(name, ps) \<in> set (limited_subjects ?pol)"
      "(effect = EDeny \<and> x \<in> set (sp_deny_sources ps)) \<or> (effect = EAllow \<and> x \<in> set (sp_allow_sources ps))"
    using gs(2) [OF that] .
qed

lemma start_grown:
  assumes "grows (compiler_start g label source) c"
  obtains ns es where "cp_nodes c = g_nodes g @ ns" "cp_edges c = g_edges g @ es"
    "list_all foreign_node ns" "list_all foreign_edge es" "index_ok c"
proof -
  let ?c0 = "compiler_start g label source"
  from assms obtain ns es where c: "cp_nodes c = cp_nodes ?c0 @ ns" "cp_edges c = cp_edges ?c0 @ es"
    "list_all foreign_node ns" "list_all foreign_edge es" and ok: "index_ok ?c0 \<longrightarrow> index_ok c"
    unfolding grows_def by blast
  have "index_ok ?c0" by (simp add: index_ok_def compiler_start_simps)
  with ok have "index_ok c" by simp
  then show thesis
    using c that [OF c(1) [unfolded compiler_start_simps append_assoc] c(2) [unfolded compiler_start_simps]]
      growing_kinds by (simp add: foreign_node_def)
qed

lemma fold_builder_node [simp]:
  "b_nodes (fold builder_node ns b) = b_nodes b @ ns \<and> b_edges (fold builder_node ns b) = b_edges b
   \<and> b_space (fold builder_node ns b) = b_space b"
  by (induction ns arbitrary: b) (simp_all add: builder_node_def)

lemma fold_builder_edge [simp]:
  "b_nodes (fold builder_edge es b) = b_nodes b \<and> b_edges (fold builder_edge es b) = b_edges b @ es
   \<and> b_space (fold builder_edge es b) = b_space b"
  by (induction es arbitrary: b) (simp_all add: builder_edge_def)

lemma compileE:
  assumes "compile dbg persisted src vocabulary digests = Returns (Inr s)"
  obtains stored cs c where
    "identity_extract persisted = Inr stored"
    "carry_forward (source_identity_layer src (il_label (ex_layer stored)) (bt_get digests ''bindings''))
       (unresolved_adversaries src) (ex_layer stored) = (ex_layer stored, cs)"
    "compile_rules persisted (il_label (ex_layer stored)) src vocabulary digests (lp_destinations (sn_loaded s)) = Inr c"
    "build (fold builder_edge (cp_edges c) (fold builder_node (cp_nodes c)
       (builder_new KernelSpace (g_revision persisted)))) SCHEMA vocabulary = Returns (Inr (sn_graph s))"
    "lp_role_for (sn_loaded s) = graph_role_for (graph_bindings_new (sn_graph s) (il_source (ex_layer stored)))"
    "sn_index s = cp_index c" "lp_policy (sn_loaded s) = ps_policy src" "lp_subjects (sn_loaded s) = ps_subjects src"
    "validate_grants (action_grants (ps_policy src)) = Inr (lp_action_grants (sn_loaded s))"
    "validate_destinations (destinations (ps_policy src)) = Inr (lp_destinations (sn_loaded s))"
proof -
  from assms obtain stored where x: "identity_extract persisted = Inr stored"
    by (auto simp: compile_def split: sum.splits)
  obtain declared cs where cf: "carry_forward (source_identity_layer src (il_label (ex_layer stored))
      (bt_get digests ''bindings'')) (unresolved_adversaries src) (ex_layer stored) = (declared, cs)" by fastforce
  from assms obtain grants dests c where
    r: "compile_ready persisted src vocabulary digests (ex_layer stored) declared = Inr (grants, dests, c)"
    and f: "finish_snapshot dbg persisted src vocabulary digests declared cs grants dests c = Returns (Inr s)"
    by (auto simp: compile_def x cf split: sum.splits)
  from r have d: "declared = ex_layer stored" by (auto simp: compile_ready_def split: if_splits)
  from r have parts: "validate_grants (action_grants (ps_policy src)) = Inr grants"
    "validate_destinations (destinations (ps_policy src)) = Inr dests"
    "compile_rules persisted (il_label (ex_layer stored)) src vocabulary digests dests = Inr c"
    by (auto simp: compile_ready_def map_err_def split: if_splits sum.splits elim!: res_bind_InrE)
  from f obtain g where b: "build (fold builder_edge (cp_edges c) (fold builder_node (cp_nodes c)
       (builder_new KernelSpace (g_revision persisted)))) SCHEMA vocabulary = Returns (Inr g)"
    by (auto simp: finish_snapshot_def split: outcome.splits sum.splits)
  have s: "sn_graph s = g" "sn_index s = cp_index c" "lp_destinations (sn_loaded s) = dests"
    "lp_action_grants (sn_loaded s) = grants" "lp_policy (sn_loaded s) = ps_policy src"
    "lp_subjects (sn_loaded s) = ps_subjects src"
    "lp_role_for (sn_loaded s) = graph_role_for (graph_bindings_new g (il_source declared))"
    using f by (auto simp: finish_snapshot_def b Let_def)
  show thesis
    by (rule that [OF x cf [unfolded d]]) (simp_all add: parts b s d)
qed

section \<open>Roles of the compiled graph\<close>

lemma mset_singleton_eq: "mset xs = mset ys \<Longrightarrow> length ys \<le> 1 \<Longrightarrow> xs = ys"
  by (cases ys) auto

lemma option_eq_SomeI: "(\<And>x. a = Some x \<longleftrightarrow> b = Some x) \<Longrightarrow> a = b"
  by (cases a; cases b) auto

text \<open>A graph that adds only foreign nodes and edges to another gives every uid the same role.\<close>

lemma foreign_growth_keeps_roles:
  assumes ok: "graph_ok sc compiled g" "graph_ok sc' compiled' g'"
    and nodes: "mset (g_nodes g') = mset (g_nodes g @ ns)" "list_all foreign_node ns"
    and edges: "mset (g_edges g') = mset (g_edges g @ es)" "list_all foreign_edge es"
    and small: "length (g_edges g') < 2 ^ 32"
    and one: "\<And>n. n \<in> set (nodes_of_kind SUBJECT g) \<Longrightarrow> length (out_edges g (n_id n) BINDS) \<le> 1"
  shows "graph_role_for (graph_bindings_new g' source) uid p = graph_role_for (graph_bindings_new g source) uid p"
proof -
  have set_nodes: "set (g_nodes g') = set (g_nodes g) \<union> set ns"
    using arg_cong [OF nodes(1), of set_mset] by simp
  have look: "graph_lookup g' k key = graph_lookup g k key" if "\<And>n. n \<in> set ns \<Longrightarrow> \<not> (n_kind n = k \<and> n_key n = key)" for k key
  proof (rule option_eq_SomeI)
    show "graph_lookup g' k key = Some n \<longleftrightarrow> graph_lookup g k key = Some n" for n
      unfolding graph_lookup_iff [OF ok(1)] graph_lookup_iff [OF ok(2)] set_nodes using that [of n] by blast
  qed
  have subj: "graph_lookup g' SUBJECT key = graph_lookup g SUBJECT key" for key
    using nodes(2) by (intro look) (auto simp: list_all_iff foreign_node_def)
  have sect: "graph_lookup g' SECTION (bindings_section_key source) = graph_lookup g SECTION (bindings_section_key source)"
    using nodes(2) by (intro look) (auto simp: list_all_iff foreign_node_def)
  have "length (g_edges g') = length (g_edges g @ es)" using edges(1) by (rule mset_eq_length)
  with small have small': "length (g_edges g) < 2 ^ 32" by simp
  have out: "mset (out_edges g' nid k) = mset (out_edges g nid k)" if "k = BINDS \<or> k = CONTAINED" for nid k
  proof -
    have "filter (\<lambda>e. e_from e = nid \<and> e_kind e = k) es = []"
      using edges(2) that by (auto simp: filter_empty_conv list_all_iff foreign_edge_def)
    moreover have "mset (filter (\<lambda>e. e_from e = nid \<and> e_kind e = k) (g_edges g'))
        = mset (filter (\<lambda>e. e_from e = nid \<and> e_kind e = k) (g_edges g @ es))"
      by (simp only: mset_filter edges(1))
    ultimately show ?thesis
      unfolding out_edges_eq [OF ok(1) small'] out_edges_eq [OF ok(2) small] by simp
  qed
  have key: "graph_role_key g' (n_id n) = graph_role_key g (n_id n)" if n: "graph_lookup g SUBJECT (subject_key uid) = Some n" for n
  proof -
    have "n \<in> set (nodes_of_kind SUBJECT g)" using n by (simp add: graph_lookup_iff [OF ok(1)] nodes_of_kind_def)
    then have b: "out_edges g' (n_id n) BINDS = out_edges g (n_id n) BINDS"
      using out [of BINDS] one by (intro mset_singleton_eq) simp_all
    have c: "out_edges g' (n_id n) CONTAINED = [] \<longleftrightarrow> out_edges g (n_id n) CONTAINED = []"
      using out [of CONTAINED "n_id n"] by (metis mset_zero_iff)
    have t: "graph_node g' (e_to e) = graph_node g (e_to e)" if "out_edges g (n_id n) BINDS = e # rest" for e rest
    proof -
      have "e \<in> set (g_edges g)" using that out_edges_eq [OF ok(1) small', of "n_id n" BINDS]
        by (metis filter_is_subset list.set_intros(1) subsetD)
      then obtain m where m: "m \<in> set (g_nodes g)" "n_id m = e_to e" using graph_edge_ends [OF ok(1)] by metis
      then have "graph_node g (e_to e) = Some m" "graph_node g' (e_to e) = Some m"
        by (simp_all add: graph_node_iff [OF ok(1)] graph_node_iff [OF ok(2)] set_nodes)
      then show ?thesis by simp
    qed
    show ?thesis unfolding graph_role_key_def b c by (auto simp: t split: list.splits)
  qed
  show ?thesis
  proof (cases "gb_explicit (graph_bindings_new g source)")
    case False
    then show ?thesis using sect by (simp add: graph_role_for_def graph_bindings_new_def)
  next
    case True
    then have True': "gb_explicit (graph_bindings_new g' source)" using sect by (simp add: graph_bindings_new_def)
    have gb: "gb_graph (graph_bindings_new h source) = h" for h by (simp add: graph_bindings_new_def)
    show ?thesis
    proof (cases "graph_lookup g SUBJECT (subject_key uid)")
      case None
      then show ?thesis using True True' subj by (simp add: graph_role_for_def gb)
    next
      case (Some n)
      with subj show ?thesis
        using graph_role_for_key [OF True] graph_role_for_key [OF True'] key by (simp add: gb)
    qed
  qed
qed

lemma compile_roles:
  assumes c: "compile dbg persisted src vocabulary digests = Returns (Inr s)"
    and ok: "graph_ok SCHEMA compiled persisted"
    and kinds: "list_all (\<lambda>cn. cn_kind cn \<in> {ROLE, TERM_KIND, CLASS}) vocabulary"
    and stored: "identity_extract persisted = Inr x"
  shows "lp_role_for (sn_loaded s) uid p = layer_role (ex_layer x) uid p"
    "ex_layer x = fst (carry_forward
       (source_identity_layer src (il_label (ex_layer x)) (bt_get digests ''bindings''))
       (unresolved_adversaries src) (ex_layer x))"
proof -
  from compileE [OF c] stored obtain cs cc where
    cf: "carry_forward (source_identity_layer src (il_label (ex_layer x)) (bt_get digests ''bindings''))
       (unresolved_adversaries src) (ex_layer x) = (ex_layer x, cs)"
    and r: "compile_rules persisted (il_label (ex_layer x)) src vocabulary digests (lp_destinations (sn_loaded s)) = Inr cc"
    and b: "build (fold builder_edge (cp_edges cc) (fold builder_node (cp_nodes cc)
       (builder_new KernelSpace (g_revision persisted)))) SCHEMA vocabulary = Returns (Inr (sn_graph s))"
    and roles: "lp_role_for (sn_loaded s) = graph_role_for (graph_bindings_new (sn_graph s) (il_source (ex_layer x)))"
    by (metis sum.inject(2))
  obtain ns es where n: "cp_nodes cc = g_nodes persisted @ ns" "cp_edges cc = g_edges persisted @ es"
    "list_all foreign_node ns" "list_all foreign_edge es"
    using start_grown [OF compile_rules_grows(1) [OF r kinds]] by metis
  note built = build_ok [OF b]
  obtain vocab source st where "fold_res (extract_subject persisted source) (nodes_of_kind SUBJECT persisted)
       \<lparr>es_subjects = [], es_aliases = [], es_unbound = []\<rparr> = Inr st"
    using identity_extract_Inr [OF stored] by metis
  note one = extract_subjects_Inr(1) [OF this]
  have "lp_role_for (sn_loaded s) uid p
    = graph_role_for (graph_bindings_new persisted (il_source (ex_layer x))) uid p"
    unfolding roles
    by (rule foreign_growth_keeps_roles [OF ok built(1) _ n(3) _ n(4) built(6) one])
      (use built(4,5) n(1,2) in \<open>simp_all add: builder_new_def\<close>)
  then show "lp_role_for (sn_loaded s) uid p = layer_role (ex_layer x) uid p"
    by (simp add: graph_role_for_layer [OF ok stored])
  show "ex_layer x = fst (carry_forward (source_identity_layer src (il_label (ex_layer x)) (bt_get digests ''bindings''))
       (unresolved_adversaries src) (ex_layer x))" by (simp add: cf)
qed

end
