(* ===== verification/SnapshotSite.thy ===== *)
theory SnapshotSite
  imports Snapshot
begin

text \<open>
  What a compiled snapshot guarantees its clients: the roles it resolves are those of the declared
  identity layer, a contained subject is refused on the installed path, and every rule a decision cites
  is a node of the snapshot's graph.  The second half is a small site (one policy entry, one contained
  uid, one bound account) compiled step by step, on which the theorems are applied.
\<close>

section \<open>The vocabulary the compiler is given\<close>

text \<open>The binary's vocabulary always builds and holds only roles, terms and classes.\<close>

lemma term_nodes_returns:
  "list_all (\<lambda>t. class_name t \<noteq> None) ts \<Longrightarrow>
     \<exists>ns. term_nodes label ts = Returns ns \<and> list_all (\<lambda>cn. cn_kind cn = TERM_KIND) ns \<and> map cn_key ns = ts"
  by (induction ts) (auto simp: term_node_def split: option.splits)

lemma compiled_vocabulary_returns:
  fixes label :: string
  shows "\<exists>v. compiled_vocabulary label = Returns v \<and> list_all (\<lambda>cn. cn_kind cn \<in> {ROLE, TERM_KIND, CLASS}) v"
proof -
  have "list_all (\<lambda>t. class_name t \<noteq> None) (ACTION_TERMS @ KERNEL_TERMS)" by code_simp
  from term_nodes_returns [OF this, of label] obtain ns
    where "term_nodes label (ACTION_TERMS @ KERNEL_TERMS) = Returns ns" "list_all (\<lambda>cn. cn_kind cn = TERM_KIND) ns" by blast
  then show ?thesis
    by (auto simp: compiled_vocabulary_def persisted_compiled_set_def list_all_iff)
qed

section \<open>What a decision cites\<close>

definition perms_inv :: "subject_permissions option \<Rightarrow> bool" where
  "perms_inv perms \<longleftrightarrow> (case perms of None \<Rightarrow> True | Some sp \<Rightarrow> permissions_inv sp)"

lemma two_phase_sources:
  assumes "policy_inv pol" "perms_inv perms" "two_phase dh ah (flatten denies) allows = Inr m"
    "lists pol perms = (denies, allows)"
  shows "m = DenyMatch x \<Longrightarrow> x \<in> set (deny_sources pol) \<or> (\<exists>sp. perms = Some sp \<and> x \<in> set (sp_deny_sources sp))"
    "m = AllowMatch x \<Longrightarrow> x \<in> set (case perms of None \<Rightarrow> allow_sources pol | Some sp \<Rightarrow> sp_allow_sources sp)"
proof -
  have parse: "sources_parse (sources l) (patterns l)" if "l \<in> set (allows # flatten denies)" for l
    using that assms(1,2,4)
    by (auto simp: lists_def Let_def flatten_def List.map_filter_simps policy_inv_def permissions_inv_def perms_inv_def
        split: option.splits)
  show "x \<in> set (deny_sources pol) \<or> (\<exists>sp. perms = Some sp \<and> x \<in> set (sp_deny_sources sp))" if "m = DenyMatch x"
  proof -
    from that assms(3) have "scan_lists dh ''deny'' (flatten denies) = Inr (Some x)"
      by (auto simp: two_phase_def simp del: scan_lists.simps elim!: res_bind_InrE split: option.splits)
    from scan_lists_cites [OF this] parse obtain l where "l \<in> set (flatten denies)" "x \<in> set (sources l)" by auto
    with assms(4) show ?thesis
      by (auto simp: lists_def Let_def flatten_def List.map_filter_simps split: option.splits)
  qed
  show "x \<in> set (case perms of None \<Rightarrow> allow_sources pol | Some sp \<Rightarrow> sp_allow_sources sp)" if "m = AllowMatch x"
  proof -
    from that assms(3) have "scan_lists ah ''allow'' [allows] = Inr (Some x)"
      by (auto simp: two_phase_def simp del: scan_lists.simps elim!: res_bind_InrE split: option.splits)
    from scan_lists_cites [OF this] parse have "x \<in> set (sources allows)" by auto
    with assms(4) show ?thesis by (auto simp: lists_def Let_def split: option.splits)
  qed
qed

lemma evaluate_scope_sources:
  assumes "policy_inv pol" "perms_inv perms" "evaluate_scope pol scope perms path home = Inr m"
  shows "m = DenyMatch x \<Longrightarrow> x \<in> set (deny_sources pol) \<or> (\<exists>sp. perms = Some sp \<and> x \<in> set (sp_deny_sources sp))"
    "m = AllowMatch x \<Longrightarrow> x \<in> set (case perms of None \<Rightarrow> allow_sources pol | Some sp \<Rightarrow> sp_allow_sources sp)"
proof -
  obtain denies allows where ls: "lists pol perms = (denies, allows)" by fastforce
  have "m = NoMatch \<or> (\<exists>dh ah. two_phase dh ah (flatten denies) allows = Inr m)"
    using assms(3)
    by (auto simp: evaluate_scope_def evaluate3_floored_def evaluate_write_subtree_floored_def ls Let_def
        split: fs_scope.splits if_splits option.splits)
  then show "m = DenyMatch x \<Longrightarrow> x \<in> set (deny_sources pol) \<or> (\<exists>sp. perms = Some sp \<and> x \<in> set (sp_deny_sources sp))"
    "m = AllowMatch x \<Longrightarrow> x \<in> set (case perms of None \<Rightarrow> allow_sources pol | Some sp \<Rightarrow> sp_allow_sources sp)"
    using two_phase_sources [OF assms(1,2) _ ls, of _ _ m x] by auto
qed

text \<open>The written entries a decision over \<open>lp\<close> may cite.\<close>

fun listed_citation :: "loaded_policy \<Rightarrow> subject_entry option \<Rightarrow> cited \<Rightarrow> bool" where
  "listed_citation lp entry (CPath effect x) =
     (x \<in> set (case effect of EDeny \<Rightarrow> deny_sources (lp_policy lp) | EAllow \<Rightarrow> allow_sources (lp_policy lp)))"
| "listed_citation lp entry (CGrant role x effect) =
     (\<exists>al dn. bt_get (lp_action_grants lp) role = Some (al, dn)
        \<and> (\<exists>t. (t, x) \<in> set (case effect of EDeny \<Rightarrow> dn | EAllow \<Rightarrow> al)))"
| "listed_citation lp entry (CDestination role d) =
     (\<exists>l. bt_get (lp_destinations lp) role = Some l \<and> d \<in> set l)"
| "listed_citation lp entry (CSubjectPath name effect x) =
     (\<exists>e sp. entry = Some e \<and> se_name e = name \<and> se_permissions e = Some sp
        \<and> x \<in> set (case effect of EDeny \<Rightarrow> sp_deny_sources sp | EAllow \<Rightarrow> sp_allow_sources sp))"

lemma find_grant_mem: "find_grant gs act = Some x \<Longrightarrow> \<exists>t. (t, x) \<in> set gs"
  by (auto simp: find_grant_def find_Some_iff) (metis nth_mem)

lemma evaluate3_action_listed:
  "evaluate3_action (lp_action_grants lp) role act = DenyMatch x \<Longrightarrow> listed_citation lp entry (CGrant role x EDeny)"
  "evaluate3_action (lp_action_grants lp) role act = AllowMatch x \<Longrightarrow> listed_citation lp entry (CGrant role x EAllow)"
  by (auto simp: evaluate3_action_def split: option.splits dest: find_grant_mem)

lemma decide_prompt_cites: "snd (decide_prompt lp req role entry) = Some c \<Longrightarrow> listed_citation lp entry c"
  using evaluate3_action_listed(1) [of lp role "''session.prompt''" _ entry]
  by (auto simp: decide_prompt_def destination_allows_def list_ex_iff
      split: match3.splits option.splits attr_value.splits if_splits)

lemma decide_admin_cites: "snd (decide_admin lp act) = Some c \<Longrightarrow> listed_citation lp entry c"
  using evaluate3_action_listed [of lp "''admin''" act _ entry]
  by (auto simp: decide_admin_def split: match3.splits if_splits)

lemma decide_fs_cites:
  assumes "policy_inv (lp_policy lp)" "\<And>e. entry = Some e \<Longrightarrow> perms_inv (se_permissions e)"
    "snd (decide_fs lp req role scope entry) = Some c"
  shows "listed_citation lp entry c"
proof -
  define flr where "flr = Option.bind entry (\<lambda>e. map_option (Pair (se_name e)) (se_permissions e))"
  obtain path home m where ev: "evaluate_scope (lp_policy lp) scope (map_option snd flr) path home = Inr m"
    and out: "(\<exists>x. m = AllowMatch x \<and> c = (case flr of Some (name, _) \<Rightarrow> CSubjectPath name EAllow x | None \<Rightarrow> CPath EAllow x))
      \<or> (\<exists>x. m = DenyMatch x \<and> c = (case flr of
            Some (name, _) \<Rightarrow> if x \<notin> set (deny_sources (lp_policy lp)) then CSubjectPath name EDeny x else CPath EDeny x
          | None \<Rightarrow> CPath EDeny x))"
    using assms(3)
    by (auto simp: decide_fs_def Let_def flr_def [symmetric] split: option.splits attr_value.splits sum.splits match3.splits if_splits)
  have inv: "perms_inv (map_option snd flr)"
    using assms(2) by (cases entry) (auto simp: flr_def perms_inv_def split: option.splits)
  note src = evaluate_scope_sources [OF assms(1) inv ev]
  show ?thesis
  proof (cases flr)
    case None
    with out src show ?thesis by (auto split: if_splits)
  next
    case (Some np)
    then obtain e where e: "entry = Some e" "se_permissions e = Some (snd np)" "se_name e = fst np"
      by (cases entry) (auto simp: flr_def)
    from out show ?thesis
    proof (elim disjE exE conjE)
      fix x assume m: "m = AllowMatch x"
        and "c = (case flr of Some (name, _) \<Rightarrow> CSubjectPath name EAllow x | None \<Rightarrow> CPath EAllow x)"
      then have "c = CSubjectPath (fst np) EAllow x" by (simp add: Some split_beta)
      with src(2) [OF m] e Some show ?thesis by simp
    next
      fix x assume m: "m = DenyMatch x"
        and c: "c = (case flr of
            Some (name, _) \<Rightarrow> if x \<notin> set (deny_sources (lp_policy lp)) then CSubjectPath name EDeny x else CPath EDeny x
          | None \<Rightarrow> CPath EDeny x)"
      show ?thesis
      proof (cases "x \<in> set (deny_sources (lp_policy lp))")
        case True
        with c show ?thesis by (simp add: Some split_beta)
      next
        case False
        with c have "c = CSubjectPath (fst np) EDeny x" by (simp add: Some split_beta)
        with src(1) [OF m] e Some False show ?thesis by simp
      qed
    qed
  qed
qed

lemma decide_role_cites:
  assumes "policy_inv (lp_policy lp)" "\<And>e. bt_get (lp_subjects lp) uid = Some e \<Longrightarrow> perms_inv (se_permissions e)"
    "snd (decide_role lp req uid role) = Some c"
  shows "listed_citation lp (bt_get (lp_subjects lp) uid) c"
  using assms(3) decide_fs_cites [OF assms(1,2)] decide_prompt_cites decide_admin_cites
  by (auto simp: decide_role_def Let_def split: if_splits option.splits sum.splits)

lemma decide_loaded_cites:
  assumes "policy_inv (lp_policy lp)"
    "\<And>uid e. bt_get (lp_subjects lp) uid = Some e \<Longrightarrow> perms_inv (se_permissions e)"
    "cd_cited (decide_loaded_cited lp prin req) = Some c"
  obtains uid where "listed_citation lp (bt_get (lp_subjects lp) uid) c"
proof -
  obtain uid role where "snd (decide_role lp req uid role) = Some c"
    using assms(3)
    by (auto simp: decide_loaded_cited_def undecided_def split: option.splits if_splits resolution.splits prod.splits)
      (metis snd_conv)
  from decide_role_cites [OF assms(1) assms(2) this] show thesis by (rule that)
qed

text \<open>Each table entry a decision reads goes back to an entry the compiler wrote a rule for.\<close>

lemma check_grants_source:
  assumes "check_grants key role entries = Inr gs" "(t, x) \<in> set gs"
  shows "\<exists>p\<in>set entries. x = action_pattern_source p"
proof -
  obtain gss where gss: "collect_res (\<lambda>p. res_bind (role_terms key role p)
         (\<lambda>ts. Inr (map (\<lambda>t. (t, action_pattern_source p)) ts))) entries = Inr gss" "gs = concat gss"
    using assms(1) by (auto simp: check_grants_def elim!: res_bind_InrE)
  then obtain g where g: "g \<in> set gss" "(t, x) \<in> set g" using assms(2) by auto
  from collect_res_mem [OF gss(1) g(1)] obtain p where "p \<in> set entries" "\<exists>ts. g = map (\<lambda>t. (t, action_pattern_source p)) ts"
    by (auto elim!: res_bind_InrE)
  with g(2) show ?thesis by auto
qed

lemma validate_grants_source:
  assumes "validate_grants raw = Inr g" "bt_get g key = Some (al, dn)"
    "(t, x) \<in> set (case effect of EDeny \<Rightarrow> dn | EAllow \<Rightarrow> al)"
  shows "\<exists>grants p. (key, grants) \<in> set raw \<and> x = action_pattern_source p
    \<and> ((effect = EDeny \<and> p \<in> set (ag_deny grants)) \<or> (effect = EAllow \<and> p \<in> set (ag_allow grants)))"
proof -
  obtain kvs where kvs: "collect_res validate_role raw = Inr kvs" "g = bt_of_list kvs"
    using assms(1) by (auto simp: validate_grants_def res_bind_Inr_iff)
  have "(key, (al, dn)) \<in> set kvs"
    using assms(2) kvs(2) map_of_SomeD [of "rev kvs" key "(al, dn)"] by (simp add: bt_get_of_list)
  from collect_res_mem [OF kvs(1) this] obtain k grants where kg: "(k, grants) \<in> set raw"
    "validate_role (k, grants) = Inr (key, (al, dn))" by auto
  then obtain r where "k = key" "check_grants key r (ag_allow grants) = Inr al" "check_grants key r (ag_deny grants) = Inr dn"
    by (auto simp: validate_role_def res_bind_Inr_iff)
  with kg(1) assms(3) check_grants_source show ?thesis by (cases effect) fastforce+
qed

lemma subject_entry_source:
  assumes "validate_subjects pol ls = Inr g" "bt_get g uid = Some e" "policy_inv pol"
  shows "perms_inv (se_permissions e)"
    "se_permissions e = Some sp \<Longrightarrow> (se_name e, sp) \<in> set (limited_subjects pol)"
proof -
  from validate_subjects_loop_get [OF assms(1) [unfolded validate_subjects_def], of uid e] assms(2)
  obtain n s where ns: "(n, s) \<in> set (policy_subjects pol)" "subject_entry_of n s = Inr e" by auto
  then have e: "se_name e = n" "se_permissions e = s_permissions s"
    by (auto simp: subject_entry_of_def elim!: res_bind_InrE)
  with ns(1) assms(3) show "perms_inv (se_permissions e)"
    by (fastforce simp: policy_inv_def perms_inv_def split: option.splits)
  show "(se_name e, sp) \<in> set (limited_subjects pol)" if "se_permissions e = Some sp"
    using that e ns(1) by (force simp: limited_subjects_def List.map_filter_def)
qed

lemma from_lookups_parts:
  assumes "from_lookups lossy pol b ls nss prin paths = Inr src"
  shows "ps_policy src = pol" "validate_subjects pol ls = Inr (ps_subjects src)"
  using assms by (auto simp: from_lookups_def elim!: res_bind_InrE)

text \<open>
  C37. No citation dangles: on a snapshot compiled from a parsed policy with a vocabulary of roles,
  terms and classes (as the binary's is), whatever rule a decision cites is indexed, its record names a rule node of the snapshot's graph under that very key, and
  the graph holds the section node the record names with a declared-by edge from the rule to it.
\<close>

theorem decisions_cite_declared_rules:
  assumes "parse_policy load ft body = Inr pol"
    and src: "from_lookups lossy pol b ls nss prin paths = Inr src"
    and c: "compile dbg persisted src vocabulary digests = Returns (Inr s)"
    and kinds: "list_all (\<lambda>cn. cn_kind cn \<in> {ROLE, TERM_KIND, CLASS}) vocabulary"
    and cited: "cd_cited (decide_loaded_cited (sn_loaded s) prin' req) = Some k"
  shows "\<exists>r n sec. cite s k = Some r \<and> d_rule (decide_on s prin' req) = Some r
     \<and> graph_node (sn_graph s) (rc_node r) = Some n \<and> n_kind n = RULE \<and> n_key n = rc_key r
     \<and> graph_lookup (sn_graph s) SECTION (rc_section r) = Some sec
     \<and> (\<exists>e \<in> set (g_edges (sn_graph s)). e_kind e = DECLARED_BY \<and> e_from e = n_id n \<and> e_to e = n_id sec)"
proof -
  let ?lp = "sn_loaded s"
  have inv: "policy_inv pol" using assms(1) by (rule parse_policy_inv_core)
  note parts = from_lookups_parts [OF src]
  obtain stored :: extracted and cc where
    r: "compile_rules persisted (il_label (ex_layer stored)) src vocabulary digests (lp_destinations ?lp) = Inr cc"
    and b: "build (fold builder_edge (cp_edges cc) (fold builder_node (cp_nodes cc)
       (builder_new KernelSpace (g_revision persisted)))) SCHEMA vocabulary = Returns (Inr (sn_graph s))"
    and s: "sn_index s = cp_index cc" "lp_policy ?lp = ps_policy src" "lp_subjects ?lp = ps_subjects src"
    and g: "validate_grants (action_grants (ps_policy src)) = Inr (lp_action_grants ?lp)"
    by (rule compileE [OF c]) (rule that)
  note s = s [unfolded parts(1)] and g = g [unfolded parts(1)]
  note rules = compile_rules_grows [OF r kinds, unfolded parts(1)]
  obtain uid where listed: "listed_citation ?lp (bt_get (ps_subjects src) uid) k"
  proof (rule decide_loaded_cites [OF _ _ cited])
    show "policy_inv (lp_policy ?lp)" using inv s by simp
    show "perms_inv (se_permissions e)" if "bt_get (lp_subjects ?lp) uid = Some e" for uid e
      by (rule subject_entry_source(1) [OF parts(2) that [unfolded s] inv])
  qed (use s that in simp)
  have "cp_index cc k \<noteq> None"
  proof (cases k)
    case (CPath effect x)
    with listed s rules(2) [of effect x] show ?thesis by (cases effect) auto
  next
    case (CGrant role x effect)
    with listed obtain al dn t where "bt_get (lp_action_grants ?lp) role = Some (al, dn)"
      "(t, x) \<in> set (case effect of EDeny \<Rightarrow> dn | EAllow \<Rightarrow> al)" by auto
    from validate_grants_source [OF g this] CGrant rules(3) show ?thesis by auto
  next
    case (CDestination role d)
    with listed rules(4) show ?thesis by (auto dest: map_of_SomeD)
  next
    case (CSubjectPath name effect x)
    with listed obtain e sp where e: "bt_get (ps_subjects src) uid = Some e" "se_name e = name" "se_permissions e = Some sp"
      "x \<in> set (case effect of EDeny \<Rightarrow> sp_deny_sources sp | EAllow \<Rightarrow> sp_allow_sources sp)" by auto
    with subject_entry_source(2) [OF parts(2) e(1) inv, of sp] rules(5) [of name sp effect x] CSubjectPath
    show ?thesis by (cases effect) auto
  qed
  then obtain rc where rc: "cp_index cc k = Some rc" by blast
  have "index_ok cc" using start_grown [OF rules(1)] by metis
  with rc obtain n sec e where m: "n \<in> set (cp_nodes cc)" "sec \<in> set (cp_nodes cc)" "e \<in> set (cp_edges cc)"
    "n_kind n = RULE" "n_id n = rc_node rc" "n_key n = rc_key rc" "n_kind sec = SECTION" "n_key sec = rc_section rc"
    "e_kind e = DECLARED_BY" "e_from e = n_id n" "e_to e = n_id sec" unfolding index_ok_def by metis
  note built = build_ok [OF b]
  have sets: "set (g_nodes (sn_graph s)) = set (cp_nodes cc)" "set (g_edges (sn_graph s)) = set (cp_edges cc)"
    using arg_cong [OF built(4), of set_mset] arg_cong [OF built(5), of set_mset] by (simp_all add: builder_new_def)
  have "graph_node (sn_graph s) (rc_node rc) = Some n" "graph_lookup (sn_graph s) SECTION (rc_section rc) = Some sec"
    using m by (simp_all add: graph_node_iff [OF built(1)] graph_lookup_iff [OF built(1)] sets)
  with m rc cited show ?thesis
    by (intro exI [of _ rc] exI [of _ n] exI [of _ sec])
      (auto simp: cite_def s decide_on_def cited_on_def sets)
qed

text \<open>
  C36. A snapshot enforces exactly the identity layer its source declares: when compilation over a
  built graph succeeds, with a vocabulary of roles, terms and classes, the stored layer is the declared one with its unresolved adversaries carried
  forward, and the compiled graph resolves every uid to the role that layer gives it, containment
  first, whatever rules, sections and vocabulary the compiler added.
\<close>

theorem snapshot_roles_refine_layer:
  assumes "compile dbg persisted src vocabulary digests = Returns (Inr s)"
    and "build b SCHEMA compiled = Returns (Inr persisted)"
    and "list_all (\<lambda>cn. cn_kind cn \<in> {ROLE, TERM_KIND, CLASS}) vocabulary"
  shows "\<exists>x. identity_extract persisted = Inr x
     \<and> ex_layer x = fst (carry_forward
         (source_identity_layer src (il_label (ex_layer x)) (bt_get digests ''bindings''))
         (unresolved_adversaries src) (ex_layer x))
     \<and> (\<forall>uid p. lp_role_for (sn_loaded s) uid p = layer_role (ex_layer x) uid p)"
proof -
  obtain x where x: "identity_extract persisted = Inr x" by (rule compileE [OF assms(1)])
  note roles = compile_roles [OF assms(1) build_ok(1) [OF assms(2)] assms(3) x]
  show ?thesis using x roles by blast
qed

text \<open>
  C38. The production path never permits a contained subject: on the authorizer with a snapshot
  installed that was compiled over a built graph (with a vocabulary of roles, terms and classes), a
  uid that the stored identity layer lists as adversary is refused every action outside the
  kernel's own, with the containment reason, whatever the policy grants it. The layer must come from
  a bindings file, that is, carry its digest: without one the only role is the principal's.
\<close>

theorem installed_snapshot_contains:
  assumes "compile dbg persisted src vocabulary digests = Returns (Inr s)"
    and "build b SCHEMA compiled = Returns (Inr persisted)"
    and "list_all (\<lambda>cn. cn_kind cn \<in> {ROLE, TERM_KIND, CLASS}) vocabulary"
    and "identity_extract persisted = Inr x" "il_bindings_sha256 (ex_layer x) \<noteq> None"
    and "List.find (\<lambda>e. ie_uid e = uid) (il_subjects (ex_layer x)) = Some e" "ie_role e = ADVERSARY"
    and "subject_uid req = Some uid" "class_of (action req) \<noteq> Some CKernel"
  shows "basic_decide_cited (install s ba) req
    = \<lparr>d_verdict = Deny ''subject contained: role=adversary'', d_role = Some ''adversary'', d_rule = None\<rparr>"
proof -
  have "lp_role_for (sn_loaded s) uid p = RRole Adversary" for p
    using compile_roles(1) [OF assms(1) build_ok(1) [OF assms(2)] assms(3,4), of uid p] assms(5-7)
    by (auto simp: layer_role_def ADVERSARY_def role_from_key_def)
  with assms(8,9) show ?thesis
    by (simp add: basic_decide_cited_def install_def decide_on_def cited_on_def decide_loaded_cited_def
        decide_role_def Let_def)
qed

section \<open>A sample site\<close>

lemma build_graph_sorted:
  assumes "sorted (map n_id ns)" "distinct (map n_id ns)" "list_all (\<lambda>n. check_node space sc compiled n = Inr ()) ns"
    "length ns \<le> 100" "distinct (map key_of (key_entries ns))"
    "list_all (\<lambda>c. check_compiled sc (key_entries ns) c = Inr ()) compiled"
    "sorted (map e_id es)" "distinct (map e_id es)" "length es \<le> 100"
    "list_all (\<lambda>e. check_edge space sc ns e = Inr ()) es"
  shows "build_graph (fold builder_edge es (fold builder_node ns (builder_new space revision))) sc compiled
    = Returns (Inr (assemble space revision sc ns es))"
proof -
  have "b_revision (fold builder_edge es (fold builder_node ns (builder_new space revision))) = revision"
  proof -
    have "b_revision (fold builder_node ns b) = b_revision b" for b
      by (induction ns arbitrary: b) (simp_all add: builder_node_def)
    moreover have "b_revision (fold builder_edge es b) = b_revision b" for b
      by (induction es arbitrary: b) (simp_all add: builder_edge_def)
    ultimately show ?thesis by (simp add: builder_new_def)
  qed
  moreover have "sort_key n_id ns = ns" "sort_key e_id es = es"
    using assms(1,7) by (simp_all add: sorted_sort_id sort_key_id_if_sorted)
  ultimately show ?thesis unfolding build_graph_iff nodes_ok_def edges_ok_def
    using assms by (simp add: builder_new_def list_all_iff)
qed

definition json_str :: "string \<Rightarrow> string" where
  "json_str s = CHR 0x22 # s @ [CHR 0x22]"

lemma build_sorted:
  assumes "sorted (map n_id ns)" "distinct (map n_id ns)" "list_all (\<lambda>n. check_node space sc compiled n = Inr ()) ns"
    "length ns \<le> 100" "distinct (map key_of (key_entries ns))"
    "list_all (\<lambda>c. check_compiled sc (key_entries ns) c = Inr ()) compiled"
    "sorted (map e_id es)" "distinct (map e_id es)" "length es \<le> 100"
    "list_all (\<lambda>e. check_edge space sc ns e = Inr ()) es"
    and small: "sum_list (map (\<lambda>n. length (n_attrs n)) ns) + sum_list (map (\<lambda>e. length (e_attrs e)) es) \<le> 100"
    "sum_list (map (\<lambda>n. length (n_key n) + length (n_label n) + attrs_bytes_len (n_attrs n)) ns)
       + sum_list (map (\<lambda>e. length (e_label e) + attrs_bytes_len (e_attrs e)) es) \<le> 4 * (176 + 76 * length ns)"
  shows "build (fold builder_edge es (fold builder_node ns (builder_new space revision))) sc compiled
    = Returns (Inr (assemble space revision sc ns es))"
proof -
  note bg = build_graph_sorted [OF assms(1-10), of revision]
  have "sum_list (map f (sort_key k es)) = sum_list (map f es)" for f :: "edge_record \<Rightarrow> nat" and k :: "edge_record \<Rightarrow> nat option \<times> u16 \<times> u64 \<times> u64"
    by (metis mset_map mset_sort sum_mset_sum_list)
  then have "\<exists>enc. build_encoded (fold builder_edge es (fold builder_node ns (builder_new space revision))) sc compiled
      = Returns (Inr (assemble space revision sc ns es, enc))"
    using assms(4,9) small by (intro build_encoded_small [OF bg]) (simp_all add: attr_total_def reference_bytes_def)
  then show ?thesis by (simp add: build_iff)
qed

definition site_policy :: authz_policy where
  "site_policy =
     \<lparr>allow = [PRead \<lparr>anchor = Root, segments = [Comp ''srv'', DoubleStar]\<rparr>], deny = [],
      action_grants = [], destinations = [], policy_subjects = [], allow_sources = [''Read(/srv/**)''],
      deny_sources = [],
      sections = [(''permissions'', CHR ''{'' # json_str ''allow'' @ '':['' @ json_str ''Read(/srv/**)'' @ '']}''),
                  (''schema_version'', ''1'')]\<rparr>"

lemma site_policy_parses:
  "parse_policy (\<lambda>_. Inr (VMap [(''schema_version'', VInt 1),
      (''permissions'', VMap [(''allow'', VSeq [VStr ''Read(/srv/**)''])])])) (\<lambda>_. ''0'') ''x'' = Inr site_policy"
  by code_simp

definition site_bindings :: bindings where
  "site_bindings =
     \<lparr>b_roles = Some [(''adversary'', [Uid 7]), (''user'', [Name ''bob''])], b_section = Some [], b_missing = False\<rparr>"

definition site_source :: policy_source where
  "site_source =
     \<lparr>ps_policy = site_policy, ps_bindings = site_bindings, ps_lookups = [(''bob'', Some 9)],
      ps_lookup = (\<lambda>_. Inr None),
      ps_resolved = \<lparr>subjects = [(7, Adversary, ''uid:7''), (9, User, ''bob'')], problems = [], adversary_names = []\<rparr>,
      ps_subjects = [], ps_principal = sample_principal,
      ps_paths = \<lparr>pp_authz = Utf8 ''/a'', pp_bindings = Utf8 ''/b''\<rparr>,
      ps_policy_source = ''/a'', ps_identity_source = ''/b''\<rparr>"

lemma site_source_from:
  "from_lookups (\<lambda>_. []) site_policy site_bindings [(''bob'', Some 9)] (\<lambda>_. Inr None) sample_principal
     \<lparr>pp_authz = Utf8 ''/a'', pp_bindings = Utf8 ''/b''\<rparr> = Inr site_source"
proof -
  have "resolve_subjects site_bindings (found [(''bob'', Some 9)])
      = Inr \<lparr>subjects = [(7, Adversary, ''uid:7''), (9, User, ''bob'')], problems = [], adversary_names = []\<rparr>" by code_simp
  then show ?thesis
    by (simp add: from_lookups_def path_utf8_def site_source_def site_policy_def validate_grants_def
        validate_destinations_def validate_subjects_def bt_of_list_def)
qed

definition site_digests :: "(string, bytes) btree" where
  "site_digests = [(''bindings'', replicate 32 0), (''permissions'', replicate 32 0)]"

definition site_vocabulary :: compiled_set where
  "site_vocabulary = map (\<lambda>r. \<lparr>cn_kind = ROLE, cn_key = r, cn_label = ''U'', cn_attrs = []\<rparr>) [''admin'', ''user'']"

definition site_node :: "u64 \<Rightarrow> node_kind \<Rightarrow> string \<Rightarrow> graph_attrs \<Rightarrow> node_record" where
  "site_node nid kind key attrs =
     \<lparr>n_id = nid, n_space = KernelSpace, n_kind = kind, n_key = key, n_label = ''U'',
      n_provenance = \<lparr>pv_kind = if kind = ROLE then PCompiled else PRootFile,
                      pv_transition = if kind = ROLE then 0 else 1\<rparr>,
      n_revision = if kind = ROLE then 0 else 1, n_attrs = attrs\<rparr>"

definition site_edge :: "u64 \<Rightarrow> u64 \<Rightarrow> edge_kind \<Rightarrow> u64 \<Rightarrow> edge_record" where
  "site_edge eid from kind to =
     \<lparr>e_id = eid, e_space = KernelSpace, e_from = from, e_to = to, e_kind = kind, e_label = ''U'',
      e_provenance = \<lparr>pv_kind = PRootFile, pv_transition = 1\<rparr>, e_revision = 1, e_attrs = []\<rparr>"

definition site_nodes :: "node_record list" where
  "site_nodes =
     [site_node 1 CONFIG_SOURCE ''/b'' [], site_node 2 ROLE ''admin'' [], site_node 3 ROLE ''user'' [],
      site_node 4 SECTION ''/b#bindings'' [(ATTR_SHA256, GStr (replicate 64 CHR ''0''))],
      site_node 5 SUBJECT ''uid:7'' [(ATTR_NAME, GStr ''uid:7''), (ATTR_UID, GU64 7)],
      site_node 6 CONTAINMENT ''/b#bindings.adversary'' [],
      site_node 7 SUBJECT ''uid:9'' [(ATTR_NAME, GStr ''bob''), (ATTR_UID, GU64 9)]]"

definition site_edges :: "edge_record list" where
  "site_edges =
     [site_edge 1 4 PART_OF 1, site_edge 2 5 CONTAINED 6, site_edge 3 5 DECLARED_BY 4, site_edge 4 6 DECLARED_BY 4,
      site_edge 5 7 BINDS 3, site_edge 6 7 DECLARED_BY 4]"

definition site_persisted :: graph where
  "site_persisted = assemble KernelSpace 1 SCHEMA site_nodes site_edges"

lemma site_built:
  "build (fold builder_edge site_edges (fold builder_node site_nodes (builder_new KernelSpace 1))) SCHEMA
     site_vocabulary = Returns (Inr site_persisted)"
  unfolding site_persisted_def by (rule build_sorted) code_simp+

definition site_layer :: identity_layer where
  "site_layer =
     \<lparr>il_source = ''/b'', il_label = ''U'', il_bindings_sha256 = Some (replicate 32 0),
      il_subjects = [\<lparr>ie_uid = 7, ie_name = ''uid:7'', ie_role = ''adversary''\<rparr>,
                     \<lparr>ie_uid = 9, ie_name = ''bob'', ie_role = ''user''\<rparr>], il_aliases = []\<rparr>"

lemma site_extracted:
  "identity_extract site_persisted = Inr \<lparr>ex_layer = site_layer, ex_vocabulary_sha256 = None, ex_unbound = [],
     ex_baseline = None, ex_sync = None\<rparr>"
  by code_simp

lemma hex_zeros: "hex (replicate n 0) = replicate (2 * n) CHR ''0''"
proof -
  have "char_of (48 :: nat) = CHR ''0''" by code_simp
  then show ?thesis by (induction n) (simp_all add: hex_def hex_char_def)
qed

definition site_rule_nodes :: "node_record list" where
  "site_rule_nodes =
     [\<lparr>n_id = 8, n_space = KernelSpace, n_kind = CONFIG_SOURCE, n_key = ''/a'', n_label = ''U'',
       n_provenance = \<lparr>pv_kind = PSeed, pv_transition = 1\<rparr>, n_revision = 1, n_attrs = []\<rparr>,
      \<lparr>n_id = 9, n_space = KernelSpace, n_kind = SECTION, n_key = ''/a#permissions'', n_label = ''U'',
       n_provenance = \<lparr>pv_kind = PSeed, pv_transition = 1\<rparr>, n_revision = 1,
       n_attrs = [(ATTR_SHA256, GStr (replicate 64 CHR ''0''))]\<rparr>,
      \<lparr>n_id = 10, n_space = KernelSpace, n_kind = RULE, n_key = ''rule:permissions:allow:0'', n_label = ''U'',
       n_provenance = \<lparr>pv_kind = PSeed, pv_transition = 1\<rparr>, n_revision = 1,
       n_attrs = [(ATTR_EFFECT, GStr ''allow''), (ATTR_ENTRY, GStr ''Read(/srv/**)'')]\<rparr>]"

definition site_rule_edges :: "edge_record list" where
  "site_rule_edges =
     map (\<lambda>(eid, from, kind, to). \<lparr>e_id = eid, e_space = KernelSpace, e_from = from, e_to = to, e_kind = kind,
        e_label = ''U'', e_provenance = \<lparr>pv_kind = PSeed, pv_transition = 1\<rparr>, e_revision = 1, e_attrs = []\<rparr>)
       [(7, 9, PART_OF, 8), (8, 10, DECLARED_BY, 9), (9, 2, PERMITS, 10), (10, 3, PERMITS, 10)]"

definition site_all_nodes :: "node_record list" where
  "site_all_nodes = site_nodes @ site_rule_nodes"

definition site_all_edges :: "edge_record list" where
  "site_all_edges = site_edges @ site_rule_edges"

lemma site_ids:
  "ids_of_nodes site_nodes (CONFIG_SOURCE, ''/b'') = Some 1"
  "ids_of_nodes site_nodes (ROLE, ''admin'') = Some 2" "ids_of_nodes site_nodes (ROLE, ''user'') = Some 3"
  by (simp_all add: ids_of_nodes_def site_nodes_def site_node_def kind_defs)

lemma site_max_ids: "max_or_0 (map n_id site_nodes) = 7" "max_or_0 (map e_id site_edges) = 6" by (simp_all add: site_nodes_def site_edges_def site_node_def site_edge_def max_or_0_def)
lemma site_edges_sorted: "sorted (map (out_key site_nodes) site_edges)"
  by code_simp
lemma site_records: "g_edges site_persisted = site_edges" "g_nodes site_persisted = site_nodes"
  using site_edges_sorted by (simp_all add: site_persisted_def sort_key_id_if_sorted)
lemma site_start:
  "cp_ids (compiler_start site_persisted ''U'' ''/a'') = ids_of_nodes site_nodes"
  "cp_node (compiler_start site_persisted ''U'' ''/a'') = 8" "cp_edge (compiler_start site_persisted ''U'' ''/a'') = 6"
  "cp_label (compiler_start site_persisted ''U'' ''/a'') = ''U''" "cp_revision (compiler_start site_persisted ''U'' ''/a'') = 1"
  "cp_source_id (compiler_start site_persisted ''U'' ''/a'') = 8" "cp_source (compiler_start site_persisted ''U'' ''/a'') = ''/a''"
  "g_revision site_persisted = 1"
proof -
  show r: "g_revision site_persisted = 1" by (simp add: site_persisted_def)
  show "cp_ids (compiler_start site_persisted ''U'' ''/a'') = ids_of_nodes site_nodes"
  "cp_node (compiler_start site_persisted ''U'' ''/a'') = 8" "cp_edge (compiler_start site_persisted ''U'' ''/a'') = 6"
  "cp_label (compiler_start site_persisted ''U'' ''/a'') = ''U''" "cp_revision (compiler_start site_persisted ''U'' ''/a'') = 1"
  "cp_source_id (compiler_start site_persisted ''U'' ''/a'') = 8" "cp_source (compiler_start site_persisted ''U'' ''/a'') = ''/a''"
  by (simp_all add: compiler_start_def cp_add_node_def Let_def site_records site_max_ids r)
qed
lemma site_vocabulary_present: "fold add_compiled site_vocabulary (compiler_start site_persisted ''U'' ''/a'') = compiler_start site_persisted ''U'' ''/a''"
  by (simp add: site_vocabulary_def add_compiled_def site_start(1) site_ids)
lemma site_rules:
  "\<exists>c. compile_rules site_persisted ''U'' site_source site_vocabulary site_digests [] = Inr c
     \<and> cp_nodes c = site_all_nodes \<and> cp_edges c = site_all_edges"
proof -
  define c0 where "c0 = compiler_start site_persisted ''U'' ''/a''"
  note st = site_start [folded c0_def] and ns = compiler_start_simps [of site_persisted "''U''" "''/a''", folded c0_def, unfolded site_records site_max_ids site_start(8)]
  have z: "show_nat 0 = ''0''" by code_simp
  define c1 where "c1 = snd (projr (cp_section ''permissions'' site_digests ''permissions'' c0))"
  have s: "cp_section ''permissions'' site_digests ''permissions'' c0 = Inr ((9, ''/a#permissions''), c1)"
    by (simp add: c1_def cp_section_def site_digests_def cp_add_node_def cp_add_edge_def Let_def st)
  have c1: "cp_node c1 = 9" "cp_edge c1 = 7" "cp_label c1 = ''U''" "cp_revision c1 = 1"
    "cp_nodes c1 = cp_nodes c0 @ [site_rule_nodes ! 1]" "cp_edges c1 = cp_edges c0 @ [site_rule_edges ! 0]"
    by (simp_all add: c1_def cp_section_def site_digests_def cp_add_node_def cp_add_edge_def Let_def st seeded_def
        site_rule_nodes_def site_rule_edges_def hex_zeros)
  define c2 where "c2 = projr (add_permission 2 3 (9, ''/a#permissions'') (EAllow, 0, ''Read(/srv/**)'') c1)"
  have a: "add_permission 2 3 (9, ''/a#permissions'') (EAllow, 0, ''Read(/srv/**)'') c1 = Inr c2"
    by (simp add: c2_def add_permission_def Let_def split_beta)
  have c2: "cp_nodes c2 = cp_nodes c1 @ [site_rule_nodes ! 2]" "cp_edges c2 = cp_edges c1 @ drop 1 site_rule_edges"
    by (simp_all add: c2_def add_permission_def cp_rule_def cp_add_node_def cp_add_edge_def Let_def c1 seeded_def
        entry_attrs_def ATTR_ENTRY_def ATTR_EFFECT_def site_rule_nodes_def site_rule_edges_def z)
  have terms: "filter (\<lambda>n. cn_kind n = TERM_KIND) site_vocabulary = []" by (simp add: site_vocabulary_def kind_defs)
  have roles: "id_of c0 ROLE ''admin'' = Inr 2" "id_of c0 ROLE ''user'' = Inr 3" by (simp_all add: id_of_def st site_ids)
  have perms: "compile_permissions site_policy site_digests 2 3 c0 = Inr c2"
    using s a by (simp add: compile_permissions_def permissions_declared_def site_policy_def effect_entries_def)
  have subs: "compile_subjects site_policy site_digests c2 = Inr c2"
    by (simp add: compile_subjects_def limited_subjects_def site_policy_def)
  have src: "ps_policy site_source = site_policy" "ps_policy_source site_source = ''/a''" "action_grants site_policy = []"
    by (simp_all add: site_source_def site_policy_def)
  have "compile_rules site_persisted ''U'' site_source site_vocabulary site_digests [] = Inr c2"
    by (simp add: compile_rules_def src site_vocabulary_present [folded c0_def] terms roles perms subs Let_def flip: c0_def)
  moreover have "cp_nodes c2 = site_all_nodes" "cp_edges c2 = site_all_edges"
    unfolding c2 c1 ns by (simp_all add: site_all_nodes_def site_all_edges_def site_rule_nodes_def site_rule_edges_def)
  ultimately show ?thesis by blast
qed
lemma site_snapshot_built: "build (fold builder_edge site_all_edges (fold builder_node site_all_nodes
       (builder_new KernelSpace 1))) SCHEMA site_vocabulary = Returns (Inr (assemble KernelSpace 1 SCHEMA site_all_nodes site_all_edges))"
  by (rule build_sorted) code_simp+
lemma site_declared: "carry_forward (source_identity_layer site_source ''U'' (bt_get site_digests ''bindings''))
       (unresolved_adversaries site_source) site_layer = (site_layer, [])"
  by code_simp
lemma site_compiles:
  obtains s where "compile dbg site_persisted site_source site_vocabulary site_digests = Returns (Inr s)"
    "sn_graph s = assemble KernelSpace 1 SCHEMA site_all_nodes site_all_edges"
    "lp_policy (sn_loaded s) = site_policy" "lp_subjects (sn_loaded s) = []"
proof -
  obtain c where c: "compile_rules site_persisted ''U'' site_source site_vocabulary site_digests [] = Inr c"
    "cp_nodes c = site_all_nodes" "cp_edges c = site_all_edges" using site_rules by blast
  have v: "validate_grants (action_grants (ps_policy site_source)) = Inr []"
    "validate_destinations (destinations (ps_policy site_source)) = Inr []"
    by (simp_all add: validate_grants_def validate_destinations_def site_source_def site_policy_def bt_of_list_def)
  have r: "compile_ready site_persisted site_source site_vocabulary site_digests site_layer site_layer = Inr ([], [], c)"
    using c(1) by (simp add: compile_ready_def v site_records site_ids site_layer_def)
  let ?s = "\<lparr>sn_graph = assemble KernelSpace 1 SCHEMA site_all_nodes site_all_edges,
      sn_persisted = site_persisted,
      sn_loaded = \<lparr>lp_policy = site_policy,
        lp_role_for = graph_role_for (graph_bindings_new (assemble KernelSpace 1 SCHEMA site_all_nodes site_all_edges) ''/b''),
        lp_action_grants = [], lp_destinations = [], lp_subjects = []\<rparr>,
      sn_roles = graph_bindings_new (assemble KernelSpace 1 SCHEMA site_all_nodes site_all_edges) ''/b'',
      sn_index = cp_index c, sn_sections = site_digests, sn_problems = []\<rparr>"
  have lab: "il_label site_layer = ''U''" "il_source site_layer = ''/b''" by (simp_all add: site_layer_def)
  have sp: "ps_policy site_source = site_policy" "ps_subjects site_source = []" "problems (ps_resolved site_source) = []"
    by (simp_all add: site_source_def)
  have "compile dbg site_persisted site_source site_vocabulary site_digests = Returns (Inr ?s)"
    using site_declared
    by (simp add: compile_def site_extracted r finish_snapshot_def c(2,3) site_snapshot_built site_start(8) carried_problems_def
      Let_def lab sp)
  then show thesis by (rule that) simp_all
qed
lemma site_kinds: "list_all (\<lambda>cn. cn_kind cn \<in> {ROLE, TERM_KIND, CLASS}) site_vocabulary"
  by (simp add: site_vocabulary_def)

definition site_read :: "int \<Rightarrow> request" where
  "site_read uid =
     \<lparr>subject = [(SUBJECT_UID, AInt uid)], resource = [(RESOURCE_PATH, AStr ''/srv/x'')], action = ''fs.read'',
      ctx = [(CONTEXT_DAC_LANE, AStr ''local''), (CONTEXT_FS_OPERATION, AStr ''read'')]\<rparr>"

theorem snapshot_roles_refine_layer_witness:
  "\<exists>s. compile (\<lambda>m. m) site_persisted site_source site_vocabulary site_digests = Returns (Inr s)
     \<and> lp_role_for (sn_loaded s) 7 5 = RRole Adversary \<and> lp_role_for (sn_loaded s) 9 5 = RRole User
     \<and> lp_role_for (sn_loaded s) 5 5 = NoRole"
proof -
  obtain s where s: "compile (\<lambda>m. m) site_persisted site_source site_vocabulary site_digests = Returns (Inr s)"
    and g: "sn_graph s = assemble KernelSpace 1 SCHEMA site_all_nodes site_all_edges" by (rule site_compiles)
  obtain x where x: "identity_extract site_persisted = Inr x"
    and r: "\<forall>uid p. lp_role_for (sn_loaded s) uid p = layer_role (ex_layer x) uid p"
    using snapshot_roles_refine_layer [OF s site_built site_kinds] by blast
  have "ex_layer x = site_layer" using x site_extracted by auto
  with s r show ?thesis by (simp add: layer_role_def site_layer_def role_from_key_def)
qed

theorem decisions_cite_declared_rules_witness:
  "\<exists>s r n. compile (\<lambda>m. m) site_persisted site_source site_vocabulary site_digests = Returns (Inr s)
     \<and> d_rule (decide_on s sample_principal (site_read 9)) = Some r
     \<and> graph_node (sn_graph s) (rc_node r) = Some n \<and> n_kind n = RULE"
proof -
  obtain s where s: "compile (\<lambda>m. m) site_persisted site_source site_vocabulary site_digests = Returns (Inr s)"
    and g: "sn_graph s = assemble KernelSpace 1 SCHEMA site_all_nodes site_all_edges"
    and lp: "lp_policy (sn_loaded s) = site_policy" "lp_subjects (sn_loaded s) = []" by (rule site_compiles)
  have "lp_role_for (sn_loaded s) 9 5 = layer_role site_layer 9 5"
    using compile_roles(1) [OF s build_ok(1) [OF site_built] site_kinds site_extracted] by simp
  then have role: "lp_role_for (sn_loaded s) 9 5 = RRole User"
    by (simp add: layer_role_def site_layer_def role_from_key_def)
  let ?lp = "\<lparr>lp_policy = site_policy, lp_role_for = \<lambda>_ _. RRole User, lp_action_grants = [], lp_destinations = [],
      lp_subjects = []\<rparr>"
  have "snd (decide_fs ?lp (site_read 9) ''user'' ScopeRead None) = Some (CPath EAllow ''Read(/srv/**)'')" by code_simp
  moreover have "decide_fs (sn_loaded s) (site_read 9) ''user'' ScopeRead None
      = decide_fs ?lp (site_read 9) ''user'' ScopeRead None"
    by (simp only: decide_fs_def lp loaded_policy.select_convs)
  moreover have "subject_uid (site_read 9) = Some 9" "class_of (action (site_read 9)) \<noteq> Some CKernel"
    "attempt_scope (site_read 9) = Inr ScopeRead" "action (site_read 9) \<in> set FS_TERMS" by code_simp+
  ultimately have "cd_cited (decide_loaded_cited (sn_loaded s) sample_principal (site_read 9)) = Some (CPath EAllow ''Read(/srv/**)'')"
    by (simp add: decide_loaded_cited_def decide_role_def Let_def lp role sample_principal_def action_limit_def split_beta)
  from decisions_cite_declared_rules [OF site_policy_parses site_source_from s site_kinds this] s
  show ?thesis by blast
qed

theorem installed_snapshot_contains_witness:
  "\<exists>s. compile (\<lambda>m. m) site_persisted site_source site_vocabulary site_digests = Returns (Inr s)
     \<and> d_verdict (basic_decide_cited (install s (from_snapshot sample_principal (ps_paths site_source) (\<lambda>_. []) s)) (site_read 7)) = Deny ''subject contained: role=adversary''"
proof -
  obtain s where s: "compile (\<lambda>m. m) site_persisted site_source site_vocabulary site_digests = Returns (Inr s)"
    and g: "sn_graph s = assemble KernelSpace 1 SCHEMA site_all_nodes site_all_edges" by (rule site_compiles)
  have req: "subject_uid (site_read 7) = Some 7" "class_of (action (site_read 7)) \<noteq> Some CKernel" by code_simp+
  have "basic_decide_cited (install s (from_snapshot sample_principal (ps_paths site_source) (\<lambda>_. []) s)) (site_read 7)
    = \<lparr>d_verdict = Deny ''subject contained: role=adversary'', d_role = Some ''adversary'', d_rule = None\<rparr>"
    by (rule installed_snapshot_contains
        [where e = "\<lparr>ie_uid = 7, ie_name = ''uid:7'', ie_role = ''adversary''\<rparr>", OF s site_built site_kinds site_extracted _ _ _ req])
      (simp_all add: site_layer_def ADVERSARY_def)
  with s show ?thesis by simp
qed

end
