(* ===== verification/BSet.thy ===== *)
theory BSet
  imports Prelude
begin

text \<open>
  \<open>BTreeSet\<close> as the strictly sorted list of its elements, with the laws its clients use as an
  interface.
\<close>

definition bs_inv :: "'a::linorder list \<Rightarrow> bool" where
  "bs_inv s \<longleftrightarrow> sorted_wrt (<) s"

fun bs_insert :: "'a::linorder \<Rightarrow> 'a list \<Rightarrow> 'a list" where
  "bs_insert x [] = [x]"
| "bs_insert x (y # s) = (if x < y then x # y # s else if x = y then y # s else y # bs_insert x s)"

definition bs_remove :: "'a::linorder \<Rightarrow> 'a list \<Rightarrow> 'a list" where
  "bs_remove x s = filter (\<lambda>y. y \<noteq> x) s"

definition bs_of_list :: "'a::linorder list \<Rightarrow> 'a list" where
  "bs_of_list xs = fold bs_insert xs []"

locale ordered_set =
  fixes empty :: "'s"
    and insert_elem :: "'a::linorder \<Rightarrow> 's \<Rightarrow> 's"
    and remove_elem :: "'a \<Rightarrow> 's \<Rightarrow> 's"
    and elements :: "'s \<Rightarrow> 'a list"
    and inv :: "'s \<Rightarrow> bool"
  assumes inv_empty: "inv empty"
    and inv_insert: "inv s \<Longrightarrow> inv (insert_elem x s)"
    and inv_remove: "inv s \<Longrightarrow> inv (remove_elem x s)"
    and elements_empty: "elements empty = []"
    and elements_insert: "set (elements (insert_elem x s)) = insert x (set (elements s))"
    and elements_remove: "set (elements (remove_elem x s)) = set (elements s) - {x}"
    and elements_sorted: "inv s \<Longrightarrow> sorted_wrt (<) (elements s)"
    and elements_inj: "elements s = elements t \<Longrightarrow> s = t"
begin

lemma ext_eq:
  assumes "inv s" "inv t" "set (elements s) = set (elements t)"
  shows "s = t"
proof (rule elements_inj)
  show "elements s = elements t"
    using assms elements_sorted strict_sorted_equal by blast
qed

lemma collect_inv: "inv s \<Longrightarrow> inv (fold insert_elem xs s)"
  by (induction xs arbitrary: s) (auto simp: inv_insert)

lemma collect_elements: "set (elements (fold insert_elem xs s)) = set xs \<union> set (elements s)"
  by (induction xs arbitrary: s) (auto simp: elements_insert)

end

lemma set_bs_insert [simp]: "set (bs_insert x s) = insert x (set s)"
  by (induction x s rule: bs_insert.induct) auto

lemma bs_inv_Nil [simp]: "bs_inv []"
  by (simp add: bs_inv_def)

lemma bs_inv_insert [simp]: "bs_inv s \<Longrightarrow> bs_inv (bs_insert x s)"
proof (induction x s rule: bs_insert.induct)
  case (2 x y s)
  then show ?case by (auto simp: bs_inv_def)
qed (simp add: bs_inv_def)

lemma bs_inv_filter [simp]: "bs_inv s \<Longrightarrow> bs_inv (filter p s)"
  by (simp add: bs_inv_def sorted_wrt_filter)

lemma set_bs_remove [simp]: "set (bs_remove x s) = set s - {x}"
  by (auto simp: bs_remove_def)

lemma bs_inv_remove [simp]: "bs_inv s \<Longrightarrow> bs_inv (bs_remove x s)"
  by (simp add: bs_remove_def)

interpretation bs: ordered_set "[]" bs_insert bs_remove "\<lambda>s. s" bs_inv
  by unfold_locales (simp_all add: bs_inv_def [symmetric])

lemma bs_inv_of_list [simp]: "bs_inv (bs_of_list xs)"
  by (simp add: bs_of_list_def bs.collect_inv)

lemma set_bs_of_list [simp]: "set (bs_of_list xs) = set xs"
  by (simp add: bs_of_list_def bs.collect_elements)

lemma bs_inv_distinct: "bs_inv s \<Longrightarrow> distinct s"
  by (simp add: bs_inv_def strict_sorted_iff)

end
