(* ===== verification/BindingsSync.thy ===== *)
theory BindingsSync
  imports Bindings BSet
begin

text \<open>
  The three-way synchronisation of \<open>bindings.yaml\<close> with the live bindings
  (\<open>crates/maknae-config/src/bindings_sync.rs\<close>): sections, the merge of a stored base and live
  section with the file, live edits, the loosening checks and enrolment. The merge and the edits
  are shown to implement an entry-by-entry specification.
\<close>

section \<open>Sections\<close>

text \<open>The derived order: names before uids.\<close>

instantiation binding_entry :: linorder
begin

fun less_eq_binding_entry :: "binding_entry \<Rightarrow> binding_entry \<Rightarrow> bool" where
  "less_eq_binding_entry (Name a) (Name b) = (a \<le> b)"
| "less_eq_binding_entry (Name a) (Uid u) = True"
| "less_eq_binding_entry (Uid u) (Name b) = False"
| "less_eq_binding_entry (Uid u) (Uid v) = (u \<le> v)"

definition less_binding_entry :: "binding_entry \<Rightarrow> binding_entry \<Rightarrow> bool" where
  "less_binding_entry x y \<longleftrightarrow> x \<le> y \<and> \<not> y \<le> (x :: binding_entry)"

instance
proof
  fix x y z :: binding_entry
  show "x < y \<longleftrightarrow> x \<le> y \<and> \<not> y \<le> x" by (simp add: less_binding_entry_def)
  show "x \<le> x" by (cases x) simp_all
  show "x \<le> y \<Longrightarrow> y \<le> z \<Longrightarrow> x \<le> z" by (cases x; cases y; cases z) auto
  show "x \<le> y \<Longrightarrow> y \<le> x \<Longrightarrow> x = y" by (cases x; cases y) auto
  show "x \<le> y \<or> y \<le> x" by (cases x; cases y) auto
qed

end

definition SYNC_MISSING_TOKEN :: string where "SYNC_MISSING_TOKEN = ''missing''"
definition SYNC_ABSENT_TOKEN :: string where "SYNC_ABSENT_TOKEN = ''null''"
definition ADVERSARY_ROLE :: string where "ADVERSARY_ROLE = ''adversary''"
definition BOUND_ROLES :: "string list" where "BOUND_ROLES = [''admin'', ''user'', ''guest'']"

datatype bind_section =
    SMissing
  | SAbsent
  | SPresent "(string, binding_entry list) btree"

fun is_present :: "bind_section \<Rightarrow> bool" where
  "is_present (SPresent _) = True"
| "is_present _ = False"

fun entry_value :: "binding_entry \<Rightarrow> config_value" where
  "entry_value (Name n) = VStr n"
| "entry_value (Uid u) = VMap [(''uid'', VInt (uint u))]"

definition section_of :: "bindings \<Rightarrow> bind_section" where
  "section_of b =
     (if b_missing b then SMissing
      else case b_roles b of None \<Rightarrow> SAbsent | Some m \<Rightarrow> SPresent m)"

text \<open>No float occurs in a section, so how floats print does not matter.\<close>

definition section_json :: "(string, binding_entry list) btree \<Rightarrow> config_value" where
  "section_json m = VMap (map (\<lambda>(k, v). (k, VSeq (map entry_value v))) m)"

definition section_canonical :: "bind_section \<Rightarrow> string" where
  "section_canonical s =
     (case s of
        SMissing \<Rightarrow> SYNC_MISSING_TOKEN
      | SAbsent \<Rightarrow> SYNC_ABSENT_TOKEN
      | SPresent m \<Rightarrow> canonical_json (\<lambda>_. []) (section_json m))"

definition bindings_from_section :: "bind_section \<Rightarrow> bindings" where
  "bindings_from_section s =
     (case s of
        SMissing \<Rightarrow> bindings_missing
      | SAbsent \<Rightarrow> bindings_absent
      | SPresent m \<Rightarrow> \<lparr>b_roles = Some m, b_section = Some (section_canonical s), b_missing = False\<rparr>)"

definition roles_of :: "bind_section \<Rightarrow> binding_entry \<Rightarrow> string list" where
  "roles_of s e =
     (case s of
        SPresent m \<Rightarrow> bs_of_list (map fst (filter (\<lambda>(_, v). e \<in> set v) m))
      | _ \<Rightarrow> [])"

definition section_entries :: "bind_section \<Rightarrow> binding_entry list" where
  "section_entries s =
     (case s of
        SPresent m \<Rightarrow> fold push_unique (concat (map snd m)) []
      | _ \<Rightarrow> [])"

definition conflicts_canonical :: "binding_entry list \<Rightarrow> string" where
  "conflicts_canonical c = canonical_json (\<lambda>_. []) (VSeq (map entry_value c))"

section \<open>Merging\<close>

datatype sync_kind = Created | Unchanged | Adopted | RootFile | Lost

datatype resolved_by = RootEdit | Sync | LiveEdit

datatype merge_event =
    EvConflict binding_entry bool
  | EvResolved binding_entry resolved_by
  | EvLost bool

record stored =
  st_base :: bind_section
  st_live :: bind_section
  st_conflicts :: "binding_entry list"

record merged =
  mg_stored :: stored
  mg_kind :: sync_kind
  mg_events :: "merge_event list"

type_synonym role_values = "(binding_entry \<times> string list) list"

definition add_entry ::
  "role_values \<Rightarrow> string \<Rightarrow> binding_entry \<Rightarrow> (string, binding_entry list) btree
    \<Rightarrow> (string, binding_entry list) btree" where
  "add_entry values role e out =
     (case bt_get (bt_of_list values) e of
        Some r \<Rightarrow> if role \<in> set r then bt_entry role [] (push_unique e) out else out
      | None \<Rightarrow> out)"

definition merged_section :: "bind_section \<Rightarrow> bind_section \<Rightarrow> role_values \<Rightarrow> bind_section" where
  "merged_section shape live values =
     (case shape of
        SPresent file \<Rightarrow>
          let out = bt_of_list (map (\<lambda>(k, _). (k, [])) file);
              live = (case live of SPresent m \<Rightarrow> m | _ \<Rightarrow> []);
              out = fold (\<lambda>(role, es). fold (add_entry values role) es) (file @ live) out
          in SPresent (fold (\<lambda>(e, roles). fold (\<lambda>role. add_entry values role e) roles) values out)
      | _ \<Rightarrow> shape)"

record merge_state =
  ms_values :: role_values
  ms_conflicts :: "binding_entry list"
  ms_events :: "merge_event list"
  ms_root :: bool
  ms_agreed :: bool

definition merge_value ::
  "stored \<Rightarrow> bind_section \<Rightarrow> binding_entry \<Rightarrow> merge_state \<Rightarrow> string list \<times> merge_state" where
  "merge_value st file e ms =
     (let b = roles_of (st_base st) e; l = roles_of (st_live st) e; f = roles_of file e
      in if e \<in> set (st_conflicts st)
         then if f \<noteq> b \<or> f = l
              then let by = (if f = l then Sync else RootEdit)
                   in (f, ms\<lparr>ms_root := ms_root ms \<or> by = RootEdit, ms_agreed := ms_agreed ms \<or> by = Sync,
                             ms_events := ms_events ms @ [EvResolved e by]\<rparr>)
              else (l, ms\<lparr>ms_conflicts := bs_insert e (ms_conflicts ms)\<rparr>)
         else if f = b then (l, ms)
         else if l = b then (f, ms\<lparr>ms_root := True\<rparr>)
         else if f = l then (f, ms\<lparr>ms_agreed := True\<rparr>)
         else
           let safe = (if ADVERSARY_ROLE \<in> set f \<or> ADVERSARY_ROLE \<in> set l then [ADVERSARY_ROLE] else [])
           in (safe,
               if safe \<noteq> f
               then ms\<lparr>ms_root := True, ms_events := ms_events ms @ [EvConflict e (safe \<noteq> [])],
                       ms_conflicts := bs_insert e (ms_conflicts ms)\<rparr>
               else ms\<lparr>ms_root := True\<rparr>))"

definition merge_entry :: "stored \<Rightarrow> bind_section \<Rightarrow> binding_entry \<Rightarrow> merge_state \<Rightarrow> merge_state" where
  "merge_entry st file e ms =
     (let (v, ms) = merge_value st file e ms in ms\<lparr>ms_values := ms_values ms @ [(e, v)]\<rparr>)"

definition universe :: "stored \<Rightarrow> bind_section \<Rightarrow> binding_entry list" where
  "universe st file =
     fold push_unique (section_entries (st_live st) @ section_entries (st_base st) @ st_conflicts st)
       (section_entries file)"

definition merge_kind :: "stored \<Rightarrow> bind_section \<Rightarrow> merge_state \<Rightarrow> sync_kind" where
  "merge_kind st file ms =
     (let text_changed = (section_canonical file \<noteq> section_canonical (st_base st))
      in if ms_root ms then RootFile
         else if ms_agreed ms \<or> (text_changed \<and> section_canonical file = section_canonical (st_live st)) then Adopted
         else if text_changed then RootFile
         else Unchanged)"

definition merge_start :: merge_state where
  "merge_start = \<lparr>ms_values = [], ms_conflicts = [], ms_events = [], ms_root = False, ms_agreed = False\<rparr>"

definition merge :: "stored option \<Rightarrow> bind_section \<Rightarrow> merged" where
  "merge stored file =
     (case stored of
        None \<Rightarrow> \<lparr>mg_stored = \<lparr>st_base = file, st_live = file, st_conflicts = []\<rparr>, mg_kind = Created, mg_events = []\<rparr>
      | Some st \<Rightarrow>
          if is_present (st_base st) \<and> \<not> is_present file
          then \<lparr>mg_stored = st, mg_kind = Lost, mg_events = [EvLost (file = SMissing)]\<rparr>
          else
            let ms = fold (merge_entry st file) (universe st file) merge_start
            in \<lparr>mg_stored = \<lparr>st_base = file, st_live = merged_section file (st_live st) (ms_values ms),
                             st_conflicts = ms_conflicts ms\<rparr>,
                mg_kind = merge_kind st file ms, mg_events = ms_events ms\<rparr>)"

section \<open>Comparing sections\<close>

definition differs :: "bind_section \<Rightarrow> bind_section \<Rightarrow> binding_entry \<Rightarrow> bool" where
  "differs a b e \<longleftrightarrow> roles_of a e \<noteq> roles_of b e"

definition unsynced :: "bind_section \<Rightarrow> bind_section \<Rightarrow> nat" where
  "unsynced base live =
     length (filter (differs base live) (fold push_unique (section_entries base @ section_entries live) []))"

definition equivalent :: "bind_section \<Rightarrow> bind_section \<Rightarrow> bool" where
  "equivalent a b \<longleftrightarrow>
     is_present a = is_present b \<and> \<not> list_ex (differs a b) (section_entries a @ section_entries b)"

definition loosens :: "bind_section \<Rightarrow> bind_section \<Rightarrow> binding_entry \<Rightarrow> bool" where
  "loosens file mirror e \<longleftrightarrow>
     (let was = roles_of file e; now = roles_of mirror e
      in list_ex (\<lambda>r. r \<noteq> ADVERSARY_ROLE \<and> r \<notin> set was) now
         \<or> (ADVERSARY_ROLE \<in> set was \<and> ADVERSARY_ROLE \<notin> set now))"

definition loosenings :: "bind_section \<Rightarrow> bind_section \<Rightarrow> binding_entry list" where
  "loosenings file mirror =
     (let keyless = (is_present file \<and> \<not> is_present mirror)
      in filter (\<lambda>e. keyless \<or> loosens file mirror e)
           (bs_of_list (section_entries file @ section_entries mirror)))"

definition indexed :: "bind_section \<Rightarrow> (nat \<times> binding_entry list) list" where
  "indexed s =
     (case s of
        SPresent m \<Rightarrow> List.map_filter (\<lambda>(k, v). map_option (\<lambda>i. (i, v)) (position (\<lambda>r. r = k) BINDING_ROLES)) m
      | _ \<Rightarrow> [])"

fun is_bound :: "effective option \<Rightarrow> bool" where
  "is_bound (Some (Bound _)) = True"
| "is_bound _ = False"

definition may_install :: "effective option \<Rightarrow> effective option \<Rightarrow> bool" where
  "may_install file mirror \<longleftrightarrow>
     mirror = Some Contained \<or> mirror = file \<or> (mirror = Some Unbound \<and> is_bound file)
     \<or> (mirror = None \<and> (is_bound file \<or> file = Some Unbound))"

definition held_outcome :: "(nat \<times> binding_entry) list option \<Rightarrow> effective option" where
  "held_outcome h = (case h of None \<Rightarrow> None | Some h \<Rightarrow> effective_role (map fst h))"

definition by_name :: "(nat \<times> binding_entry) list \<Rightarrow> (binding_entry, nat list) btree" where
  "by_name held = fold (\<lambda>(i, e). bt_entry e [] (\<lambda>is. is @ [i])) held []"

definition own_outcome :: "(binding_entry, nat list) btree \<Rightarrow> binding_entry \<Rightarrow> effective option" where
  "own_outcome m e = (case bt_get m e of None \<Rightarrow> None | Some r \<Rightarrow> effective_role r)"

definition effective_loosenings ::
  "bind_section \<Rightarrow> bind_section \<Rightarrow> uid_map \<Rightarrow> binding_entry list" where
  "effective_loosenings file mirror uids =
     (let (was, was_unresolved) = subjects_by_uid (indexed file) (uid_of_entry uids);
          (now, now_unresolved) = subjects_by_uid (indexed mirror) (uid_of_entry uids);
          entries_at = (\<lambda>h. case h of None \<Rightarrow> [] | Some es \<Rightarrow> map snd es);
          out = fold (\<lambda>uid out.
                        if may_install (held_outcome (bt_get was uid)) (held_outcome (bt_get now uid)) then out
                        else fold bs_insert (entries_at (bt_get was uid) @ entries_at (bt_get now uid)) out)
                  (map fst was @ map fst now) [];
          w = by_name was_unresolved;
          n = by_name now_unresolved
      in fold (\<lambda>e out. if may_install (own_outcome w e) (own_outcome n e) then out else bs_insert e out)
           (map fst w @ map fst n) out)"

section \<open>Live edits\<close>

datatype bound_role = BrAdmin | BrUser | BrGuest

fun bound_role_key :: "bound_role \<Rightarrow> string" where
  "bound_role_key BrAdmin = ''admin''"
| "bound_role_key BrUser = ''user''"
| "bound_role_key BrGuest = ''guest''"

datatype live_edit =
    EContain binding_entry
  | EReleaseUid u32 "string list"
  | EBind string bound_role
  | EUnbind string

datatype edit_error = NoExplicitBindings | Rules role_rule_error

fun targets :: "live_edit \<Rightarrow> binding_entry list" where
  "targets (EContain e) = [e]"
| "targets (EReleaseUid uid names) = Uid uid # map Name names"
| "targets (EBind name _) = [Name name]"
| "targets (EUnbind name) = [Name name]"

fun edit_roles :: "live_edit \<Rightarrow> string list \<Rightarrow> string list" where
  "edit_roles (EContain _) old = bs_insert ADVERSARY_ROLE old"
| "edit_roles (EReleaseUid _ _) old = bs_remove ADVERSARY_ROLE old"
| "edit_roles (EBind _ role) old = bs_insert (bound_role_key role) (filter (\<lambda>r. r \<notin> set BOUND_ROLES) old)"
| "edit_roles (EUnbind _) old = filter (\<lambda>r. r \<notin> set BOUND_ROLES) old"

definition edit_changes :: "bind_section \<Rightarrow> live_edit \<Rightarrow> role_values" where
  "edit_changes live edit =
     List.map_filter (\<lambda>target.
       let old = roles_of live target; new = edit_roles edit old
       in if new \<noteq> old then Some (target, new) else None) (targets edit)"

definition edit_section ::
  "bind_section \<Rightarrow> bind_section \<Rightarrow> live_edit \<Rightarrow> edit_error + (bind_section \<times> binding_entry list) option" where
  "edit_section base live edit =
     (if \<not> is_present base \<or> \<not> is_present live then Inl NoExplicitBindings
      else
        let changed = edit_changes live edit
        in if changed = [] then Inr None
           else
             let touched = bs_of_list (map fst changed);
                 values = map (\<lambda>e. (e, roles_of live e)) (filter (\<lambda>e. e \<notin> set touched) (section_entries live))
                   @ changed;
                 nxt = merged_section base live values
             in res_bind (map_err Rules (check_roles (bindings_from_section nxt)))
                  (\<lambda>_. Inr (Some (nxt, touched))))"

record edited =
  ed_live :: bind_section
  ed_conflicts :: "binding_entry list"
  ed_events :: "merge_event list"

definition apply_edit ::
  "bind_section \<Rightarrow> bind_section \<Rightarrow> binding_entry list \<Rightarrow> live_edit \<Rightarrow> edit_error + edited option" where
  "apply_edit base live conflicts edit =
     res_bind (edit_section base live edit) (\<lambda>r.
       Inr (case r of
              None \<Rightarrow> None
            | Some (nxt, changed) \<Rightarrow>
                Some \<lparr>ed_live = nxt, ed_conflicts = fold bs_remove changed conflicts,
                      ed_events = map (\<lambda>e. EvResolved e LiveEdit) (filter (\<lambda>e. e \<in> set conflicts) changed)\<rparr>))"

section \<open>Enrolment\<close>

datatype enroll_bindings = EnrollLost | OtherRole string | EnrollContained

definition is_me :: "string \<Rightarrow> u32 \<Rightarrow> (string \<Rightarrow> u32 option) \<Rightarrow> binding_entry \<Rightarrow> bool" where
  "is_me user uid resolve e =
     (case e of Uid u \<Rightarrow> u = uid | Name n \<Rightarrow> n = user \<or> resolve n = Some uid)"

definition enroll_section ::
  "bind_section \<Rightarrow> bind_section option \<Rightarrow> string \<Rightarrow> u32 \<Rightarrow> (string \<Rightarrow> u32 option)
    \<Rightarrow> enroll_bindings + bind_section option" where
  "enroll_section file mirror user uid resolve =
     (case file of
        SPresent roles \<Rightarrow>
          let held = map fst (filter (\<lambda>(_, l). list_ex (is_me user uid resolve) l) roles)
          in if list_ex (\<lambda>r. r = ADVERSARY_ROLE) held then Inl EnrollContained
             else (case List.find (\<lambda>r. r \<noteq> ''admin'') held of
                     Some r \<Rightarrow> Inl (OtherRole r)
                   | None \<Rightarrow>
                       if held \<noteq> [] then Inr None
                       else Inr (Some (SPresent (bt_entry ''admin'' [] (\<lambda>l. l @ [Name user]) roles))))
      | _ \<Rightarrow>
          (case mirror of
             Some (SPresent _) \<Rightarrow> Inl EnrollLost
           | _ \<Rightarrow> Inr (Some (SPresent [(''admin'', [Name user])]))))"

section \<open>Sections as relations\<close>

definition section_inv :: "bind_section \<Rightarrow> bool" where
  "section_inv s = (case s of SPresent m \<Rightarrow> bt_inv m | _ \<Rightarrow> True)"

definition listed_in :: "(string, binding_entry list) btree \<Rightarrow> string \<Rightarrow> binding_entry \<Rightarrow> bool" where
  "listed_in m role e \<longleftrightarrow> (\<exists>es. bt_get m role = Some es \<and> e \<in> set es)"

abbreviation role_set :: "bind_section \<Rightarrow> binding_entry \<Rightarrow> string set" where
  "role_set s e \<equiv> set (roles_of s e)"

lemma roles_of_inv [simp]: "bs_inv (roles_of s e)"
  by (simp add: roles_of_def split: bind_section.split)

lemma roles_of_eq_iff: "roles_of s e = roles_of t e' \<longleftrightarrow> role_set s e = role_set t e'"
  using bs.ext_eq [OF roles_of_inv roles_of_inv] by metis

lemma role_set_present: "bt_inv m \<Longrightarrow> role_set (SPresent m) e = {role. listed_in m role e}"
  by (force simp: roles_of_def listed_in_def bt_entries_get [symmetric])

lemma role_set_absent: "\<not> is_present s \<Longrightarrow> role_set s e = {}"
  by (cases s) (simp_all add: roles_of_def)

lemma set_fold_push_unique: "set (fold push_unique xs acc) = set xs \<union> set acc"
  by (induction xs arbitrary: acc) (auto simp: push_unique_def)

lemma role_set_unlisted: "e \<notin> set (section_entries s) \<Longrightarrow> role_set s e = {}"
  by (cases s) (auto simp: roles_of_def section_entries_def set_fold_push_unique)

definition value_set :: "role_values \<Rightarrow> binding_entry \<Rightarrow> string set" where
  "value_set values e = (case bt_get (bt_of_list values) e of None \<Rightarrow> {} | Some r \<Rightarrow> set r)"

lemma add_entry_inv [simp]: "bt_inv out \<Longrightarrow> bt_inv (add_entry values role e out)"
  by (simp add: add_entry_def split: option.split)

lemma set_push_unique [simp]: "set (push_unique e es) = insert e (set es)"
  by (auto simp: push_unique_def)

lemma listed_in_bt_entry:
  "listed_in (bt_entry role [] (push_unique e) out) r x \<longleftrightarrow> listed_in out r x \<or> (r = role \<and> x = e)"
proof (cases "r = role")
  case True
  then show ?thesis by (cases "bt_get out role") (auto simp: listed_in_def bt_get_entry)
qed (simp add: listed_in_def bt_get_entry)

lemma listed_in_add:
  "listed_in (add_entry values role e out) r x \<longleftrightarrow> listed_in out r x \<or> (r = role \<and> x = e \<and> role \<in> value_set values e)"
proof (cases "bt_get (bt_of_list values) e")
  case None
  then show ?thesis by (simp add: add_entry_def value_set_def)
next
  case (Some rs)
  then show ?thesis by (cases "role \<in> set rs") (simp_all add: add_entry_def value_set_def listed_in_bt_entry)
qed

lemma fold_add_entry:
  "listed_in (fold (\<lambda>(role, e). add_entry values role e) ps out) r x
    \<longleftrightarrow> listed_in out r x \<or> ((r, x) \<in> set ps \<and> r \<in> value_set values x)"
proof (induction ps arbitrary: out)
  case (Cons p ps)
  obtain role e where p: "p = (role, e)" by fastforce
  have "listed_in (fold (\<lambda>(role, e). add_entry values role e) (p # ps) out) r x
      \<longleftrightarrow> (listed_in out r x \<or> (r = role \<and> x = e \<and> role \<in> value_set values e))
        \<or> ((r, x) \<in> set ps \<and> r \<in> value_set values x)"
    by (simp only: p fold_simps case_prod_conv Cons.IH listed_in_add)
  then show ?case by (auto simp: p)
qed simp

lemma fold_add_entry_inv: "bt_inv out \<Longrightarrow> bt_inv (fold (\<lambda>(role, e). add_entry values role e) ps out)"
  by (induction ps arbitrary: out) auto

lemma fold_nested:
  "fold (\<lambda>(role, es). fold (add_entry values role) es) m out
     = fold (\<lambda>(role, e). add_entry values role e) (concat (map (\<lambda>(role, es). map (Pair role) es) m)) out"
  by (induction m arbitrary: out) (auto simp: fold_map comp_def)

lemma fold_nested_values:
  "fold (\<lambda>(e, roles). fold (\<lambda>role. add_entry values role e) roles) vs out
     = fold (\<lambda>(role, e). add_entry values role e) (concat (map (\<lambda>(e, roles). map (\<lambda>role. (role, e)) roles) vs)) out"
  by (induction vs arbitrary: out) (auto simp: fold_map comp_def)

lemma value_set_mem:
  assumes "r \<in> value_set values e"
  shows "\<exists>rs. (e, rs) \<in> set values \<and> r \<in> set rs"
  using assms by (auto simp: value_set_def bt_get_of_list split: option.splits dest!: map_of_SomeD)

lemma merged_section_inv: "section_inv shape \<Longrightarrow> section_inv (merged_section shape live values)"
  by (cases shape) (auto simp: section_inv_def merged_section_def Let_def fold_nested fold_nested_values
      fold_add_entry_inv)

lemma merged_section_present [simp]: "is_present (merged_section shape live values) = is_present shape"
  by (cases shape) (simp_all add: merged_section_def Let_def)

lemma bt_get_blank: "bt_get (bt_of_list (map (\<lambda>(k, _). (k, [])) file)) r = Some es \<Longrightarrow> es = []"
  by (auto simp: bt_get_of_list dest!: map_of_SomeD)

lemma merged_section_roles:
  assumes "is_present shape"
  shows "role_set (merged_section shape live values) e = value_set values e"
proof -
  obtain fm where shape: "shape = SPresent fm" using assms by (cases shape) auto
  define blank where "blank = bt_of_list (map (\<lambda>(k, _). (k, [] :: binding_entry list)) fm)"
  define pairs where "pairs = concat (map (\<lambda>(role, es). map (Pair role) es)
      (fm @ (case live of SPresent m \<Rightarrow> m | _ \<Rightarrow> [])))"
  define vpairs where "vpairs = concat (map (\<lambda>(e, roles). map (\<lambda>role. (role, e)) roles) values)"
  let ?add = "\<lambda>(role, e). add_entry values role e"
  have out: "merged_section shape live values = SPresent (fold ?add vpairs (fold ?add pairs blank))"
    unfolding shape merged_section_def Let_def fold_nested fold_nested_values blank_def pairs_def vpairs_def
    by (cases live) simp_all
  have inv: "bt_inv (fold ?add vpairs (fold ?add pairs blank))"
    by (simp add: fold_add_entry_inv blank_def)
  have none: "\<not> listed_in blank r x" for r x
    unfolding listed_in_def blank_def using bt_get_blank by fastforce
  have all: "(r, e) \<in> set vpairs" if "r \<in> value_set values e" for r
    using value_set_mem [OF that] by (auto simp: vpairs_def)
  show ?thesis
    unfolding out role_set_present [OF inv] fold_add_entry using none all by blast
qed

section \<open>The entry-by-entry specification\<close>

text \<open>
  What a merge makes of one entry, from its roles in the base, live and file sections and whether
  it is an open conflict: the merged roles and whether it is in conflict afterwards.
\<close>

definition merge3 :: "bool \<Rightarrow> string set \<Rightarrow> string set \<Rightarrow> string set \<Rightarrow> string set \<times> bool" where
  "merge3 conflicted b l f =
     (if conflicted then if f \<noteq> b \<or> f = l then (f, False) else (l, True)
      else if f = b then (l, False)
      else if l = b \<or> f = l then (f, False)
      else let safe = {ADVERSARY_ROLE} \<inter> (f \<union> l) in (safe, safe \<noteq> f))"

record sync_view =
  sv_base :: "binding_entry \<Rightarrow> string set"
  sv_live :: "binding_entry \<Rightarrow> string set"
  sv_conflicts :: "binding_entry set"

definition view_of :: "stored \<Rightarrow> sync_view" where
  "view_of st = \<lparr>sv_base = role_set (st_base st), sv_live = role_set (st_live st), sv_conflicts = set (st_conflicts st)\<rparr>"

definition view_merge :: "sync_view \<Rightarrow> (binding_entry \<Rightarrow> string set) \<Rightarrow> sync_view" where
  "view_merge v f =
     (let m = (\<lambda>e. merge3 (e \<in> sv_conflicts v) (sv_base v e) (sv_live v e) (f e))
      in \<lparr>sv_base = f, sv_live = (\<lambda>e. fst (m e)), sv_conflicts = {e. snd (m e)}\<rparr>)"

fun view_roles :: "live_edit \<Rightarrow> string set \<Rightarrow> string set" where
  "view_roles (EContain _) R = insert ADVERSARY_ROLE R"
| "view_roles (EReleaseUid _ _) R = R - {ADVERSARY_ROLE}"
| "view_roles (EBind _ role) R = insert (bound_role_key role) (R - set BOUND_ROLES)"
| "view_roles (EUnbind _) R = R - set BOUND_ROLES"

definition view_edit :: "live_edit \<Rightarrow> sync_view \<Rightarrow> sync_view" where
  "view_edit edit v =
     (let new = (\<lambda>e. if e \<in> set (targets edit) then view_roles edit (sv_live v e) else sv_live v e)
      in v\<lparr>sv_live := new, sv_conflicts := {e \<in> sv_conflicts v. new e = sv_live v e}\<rparr>)"

definition stored_inv :: "stored \<Rightarrow> bool" where
  "stored_inv st \<longleftrightarrow>
     section_inv (st_base st) \<and> section_inv (st_live st) \<and> bs_inv (st_conflicts st)
     \<and> is_present (st_base st) = is_present (st_live st)"

section \<open>The merge implements it\<close>

definition entry_merge :: "stored \<Rightarrow> bind_section \<Rightarrow> binding_entry \<Rightarrow> string set \<times> bool" where
  "entry_merge st file e =
     merge3 (e \<in> set (st_conflicts st)) (role_set (st_base st) e) (role_set (st_live st) e) (role_set file e)"

definition merged_roles :: "stored \<Rightarrow> bind_section \<Rightarrow> binding_entry \<Rightarrow> string list" where
  "merged_roles st file e = fst (merge_value st file e merge_start)"

lemma safe_list_eq:
  "[x] = roles_of s e \<longleftrightarrow> {x} = role_set s e" "[] = roles_of s e \<longleftrightarrow> {} = role_set s e"
proof -
  have "bs_inv [x]" by (simp add: bs_inv_def)
  then show "[x] = roles_of s e \<longleftrightarrow> {x} = role_set s e"
    using bs.ext_eq [OF _ roles_of_inv, of "[x]" s e] by (metis list.simps(15) empty_set)
qed auto

lemma safe_set: "{x} \<inter> (f \<union> l) = (if x \<in> f \<or> x \<in> l then {x} else {})"
  by auto

lemma merge_value_roles: "fst (merge_value st file e ms) = merged_roles st file e"
  by (simp add: merged_roles_def merge_value_def Let_def)

lemma merged_roles_set: "set (merged_roles st file e) = fst (entry_merge st file e)"
  by (simp add: merged_roles_def merge_value_def Let_def entry_merge_def merge3_def roles_of_eq_iff safe_set)

lemma merge_value_state:
  "ms_values (snd (merge_value st file e ms)) = ms_values ms"
  "bs_inv (ms_conflicts ms) \<Longrightarrow> bs_inv (ms_conflicts (snd (merge_value st file e ms)))"
  by (simp_all add: merge_value_def Let_def)

lemma merge_value_conflicts:
  "set (ms_conflicts (snd (merge_value st file e ms)))
     = (if snd (entry_merge st file e) then insert e (set (ms_conflicts ms)) else set (ms_conflicts ms))"
  by (simp add: merge_value_def Let_def entry_merge_def merge3_def roles_of_eq_iff safe_set safe_list_eq)

lemma merge_entry_state:
  "ms_values (merge_entry st file e ms) = ms_values ms @ [(e, merged_roles st file e)]"
  "bs_inv (ms_conflicts ms) \<Longrightarrow> bs_inv (ms_conflicts (merge_entry st file e ms))"
  "set (ms_conflicts (merge_entry st file e ms))
     = (if snd (entry_merge st file e) then insert e (set (ms_conflicts ms)) else set (ms_conflicts ms))"
  by (simp_all add: merge_entry_def merge_value_roles merge_value_state merge_value_conflicts split: prod.split)
    (metis fst_conv snd_conv merge_value_roles merge_value_state merge_value_conflicts)+

lemma merge_loop:
  "ms_values (fold (merge_entry st file) us ms) = ms_values ms @ map (\<lambda>e. (e, merged_roles st file e)) us"
  "bs_inv (ms_conflicts ms) \<Longrightarrow> bs_inv (ms_conflicts (fold (merge_entry st file) us ms))"
  "set (ms_conflicts (fold (merge_entry st file) us ms))
     = set (ms_conflicts ms) \<union> {e \<in> set us. snd (entry_merge st file e)}"
  by (induction us arbitrary: ms) (auto simp: merge_entry_state)

lemma value_set_map:
  "value_set (map (\<lambda>e. (e, g e)) es) e = (if e \<in> set es then set (g e) else {})"
proof -
  have "map_of (map (\<lambda>e. (e, g e)) xs) e = (if e \<in> set xs then Some (g e) else None)" for xs
    by (induction xs) auto
  then show ?thesis by (simp add: value_set_def bt_get_of_list rev_map)
qed

lemma entry_merge_outside:
  assumes "e \<notin> set (universe st file)"
  shows "entry_merge st file e = ({}, False)"
  using assms by (simp add: universe_def set_fold_push_unique role_set_unlisted entry_merge_def merge3_def)

lemma entry_merge_absent:
  assumes "\<not> is_present file" "\<not> is_present (st_base st)" "\<not> is_present (st_live st)"
  shows "entry_merge st file e = ({}, False)"
  using assms by (simp add: role_set_absent entry_merge_def merge3_def)

lemma merge_stored:
  assumes "is_present file \<or> \<not> is_present (st_base st)" "stored_inv st" "section_inv file"
  shows "st_base (mg_stored (merge (Some st) file)) = file"
    and "role_set (st_live (mg_stored (merge (Some st) file))) e = fst (entry_merge st file e)"
    and "set (st_conflicts (mg_stored (merge (Some st) file))) = {e. snd (entry_merge st file e)}"
    and "stored_inv (mg_stored (merge (Some st) file))"
proof -
  define ms where "ms = fold (merge_entry st file) (universe st file) merge_start"
  have mg: "mg_stored (merge (Some st) file)
      = \<lparr>st_base = file, st_live = merged_section file (st_live st) (ms_values ms), st_conflicts = ms_conflicts ms\<rparr>"
    using assms(1) by (auto simp: merge_def ms_def Let_def)
  have vals: "value_set (ms_values ms) e = fst (entry_merge st file e)" for e
    using entry_merge_outside by (simp add: ms_def merge_loop merge_start_def value_set_map merged_roles_set)
  show "st_base (mg_stored (merge (Some st) file)) = file" by (simp add: mg)
  show "role_set (st_live (mg_stored (merge (Some st) file))) e = fst (entry_merge st file e)"
  proof (cases "is_present file")
    case True
    then show ?thesis by (simp add: mg merged_section_roles vals)
  next
    case False
    moreover from False have "\<not> is_present (merged_section file (st_live st) (ms_values ms))" by simp
    moreover have "\<not> is_present (st_base st)" "\<not> is_present (st_live st)"
      using assms(1,2) False by (auto simp: stored_inv_def)
    ultimately show ?thesis by (simp add: mg role_set_absent entry_merge_absent)
  qed
  show "set (st_conflicts (mg_stored (merge (Some st) file))) = {e. snd (entry_merge st file e)}"
    using entry_merge_outside by (force simp: mg ms_def merge_loop merge_start_def)
  show "stored_inv (mg_stored (merge (Some st) file))"
    using assms(3) merged_section_inv [OF assms(3)]
    by (simp add: mg stored_inv_def) (simp add: ms_def merge_loop merge_start_def)
qed

lemma merge_lost:
  assumes "is_present (st_base st)" "\<not> is_present file"
  shows "mg_stored (merge (Some st) file) = st"
  using assms by (simp add: merge_def)

lemma merge_inv: "stored_inv st \<Longrightarrow> section_inv file \<Longrightarrow> stored_inv (mg_stored (merge (Some st) file))"
  using merge_stored(4) merge_lost by metis

lemma view_of_merge:
  assumes "stored_inv st" "section_inv file"
  shows "view_of (mg_stored (merge (Some st) file))
    = (if is_present (st_base st) \<and> \<not> is_present file then view_of st else view_merge (view_of st) (role_set file))"
proof (cases "is_present (st_base st) \<and> \<not> is_present file")
  case True
  then show ?thesis by (simp add: merge_lost)
next
  case False
  then have "is_present file \<or> \<not> is_present (st_base st)" by blast
  note m = merge_stored [OF this assms]
  have "(\<lambda>e. role_set (st_live (mg_stored (merge (Some st) file))) e) = (\<lambda>e. fst (entry_merge st file e))"
    by (simp only: m(2))
  then have "view_of (mg_stored (merge (Some st) file)) = view_merge (view_of st) (role_set file)"
    by (simp add: view_of_def view_merge_def Let_def m(1,3) entry_merge_def [symmetric])
  with False show ?thesis by (simp only: if_False)
qed

section \<open>Live edits implement it\<close>

lemma edit_roles_set: "set (edit_roles edit R) = view_roles edit (set R)"
  by (cases edit) auto

lemma edit_roles_inv: "bs_inv R \<Longrightarrow> bs_inv (edit_roles edit R)"
  by (cases edit) simp_all

lemma edit_roles_same: "edit_roles edit (roles_of s e) = roles_of s e \<longleftrightarrow> view_roles edit (role_set s e) = role_set s e"
  using bs.ext_eq [OF edit_roles_inv [OF roles_of_inv] roles_of_inv] by (metis edit_roles_set)

definition edit_touches :: "bind_section \<Rightarrow> live_edit \<Rightarrow> binding_entry \<Rightarrow> bool" where
  "edit_touches live edit e \<longleftrightarrow> e \<in> set (targets edit) \<and> view_roles edit (role_set live e) \<noteq> role_set live e"

lemma edit_changes_map:
  "edit_changes live edit
     = map (\<lambda>e. (e, edit_roles edit (roles_of live e))) (filter (edit_touches live edit) (targets edit))"
proof -
  have "List.map_filter (\<lambda>t. let old = roles_of live t; new = edit_roles edit old
          in if new \<noteq> old then Some (t, new) else None) ts
      = map (\<lambda>e. (e, edit_roles edit (roles_of live e)))
          (filter (\<lambda>e. view_roles edit (role_set live e) \<noteq> role_set live e) ts)" for ts
    by (induction ts) (simp_all add: Let_def edit_roles_same)
  moreover have "filter (edit_touches live edit) (targets edit)
      = filter (\<lambda>e. view_roles edit (role_set live e) \<noteq> role_set live e) (targets edit)"
    by (rule filter_cong) (simp_all add: edit_touches_def)
  ultimately show ?thesis by (simp add: edit_changes_def)
qed

definition next_roles :: "bind_section \<Rightarrow> live_edit \<Rightarrow> binding_entry \<Rightarrow> string set" where
  "next_roles live edit e = (if e \<in> set (targets edit) then view_roles edit (role_set live e) else role_set live e)"

lemma next_roles_touched: "next_roles live edit e \<noteq> role_set live e \<longleftrightarrow> edit_touches live edit e"
  by (simp add: next_roles_def edit_touches_def)

lemma set_fold_bs_remove: "set (fold bs_remove xs c) = set c - set xs"
  by (induction xs arbitrary: c) auto

lemma bs_inv_fold_remove: "bs_inv c \<Longrightarrow> bs_inv (fold bs_remove xs c)"
  by (induction xs arbitrary: c) simp_all

lemma edit_section_none:
  assumes "edit_section base live edit = Inr None"
  shows "next_roles live edit = role_set live"
proof -
  have "edit_changes live edit = []"
    using assms by (auto simp: edit_section_def Let_def split: if_splits elim!: res_bind_InrE)
  then have "filter (edit_touches live edit) (targets edit) = []" by (simp add: edit_changes_map)
  then have "\<not> edit_touches live edit e" for e by (auto simp: filter_empty_conv edit_touches_def)
  then show ?thesis using next_roles_touched by blast
qed

lemma edit_section_some:
  assumes "edit_section base live edit = Inr (Some (nxt, touched))"
  shows "is_present base" "is_present live" "set touched = {e. edit_touches live edit e}"
    "role_set nxt e = next_roles live edit e" "is_present nxt" "section_inv base \<Longrightarrow> section_inv nxt"
proof -
  define ts where "ts = filter (edit_touches live edit) (targets edit)"
  define us where "us = filter (\<lambda>e. e \<notin> set (bs_of_list (map fst (edit_changes live edit)))) (section_entries live)"
  show pres: "is_present base" "is_present live"
    using assms by (auto simp: edit_section_def split: if_splits)
  have eqs: "touched = bs_of_list (map fst (edit_changes live edit))"
    "nxt = merged_section base live (map (\<lambda>e. (e, roles_of live e)) us @ edit_changes live edit)"
    using assms by (auto simp: edit_section_def Let_def us_def split: if_splits elim!: res_bind_InrE)
  have ts: "set ts = {e. edit_touches live edit e}" by (auto simp: ts_def edit_touches_def)
  then show t: "set touched = {e. edit_touches live edit e}"
    by (simp add: eqs(1) edit_changes_map ts_def [symmetric] comp_def)
  have us: "set us = {e \<in> set (section_entries live). \<not> edit_touches live edit e}"
    using t unfolding eqs(1) us_def by auto
  define g where "g e = (if edit_touches live edit e then edit_roles edit (roles_of live e) else roles_of live e)" for e
  have "map (\<lambda>e. (e, roles_of live e)) us @ edit_changes live edit = map (\<lambda>e. (e, g e)) (us @ ts)"
    using us ts by (simp add: edit_changes_map ts_def [symmetric] g_def)
  then have "role_set nxt e = (if e \<in> set (us @ ts) then set (g e) else {})"
    by (simp only: eqs(2) merged_section_roles [OF pres(1)] value_set_map)
  then show "role_set nxt e = next_roles live edit e"
    using us ts role_set_unlisted [of e live]
    by (auto simp: g_def edit_roles_set next_roles_def edit_touches_def split: if_splits)
  show "is_present nxt" using pres(1) by (simp add: eqs(2))
  show "section_inv base \<Longrightarrow> section_inv nxt" by (simp add: eqs(2) merged_section_inv)
qed

definition edit_stored :: "stored \<Rightarrow> edited \<Rightarrow> stored" where
  "edit_stored st r = st\<lparr>st_live := ed_live r, st_conflicts := ed_conflicts r\<rparr>"

lemma view_edit_view:
  "view_edit edit (view_of st) =
     \<lparr>sv_base = role_set (st_base st), sv_live = next_roles (st_live st) edit,
      sv_conflicts = {e \<in> set (st_conflicts st). next_roles (st_live st) edit e = role_set (st_live st) e}\<rparr>"
  by (rule sync_view.equality) (auto simp: view_edit_def view_of_def Let_def next_roles_def fun_eq_iff)

lemma view_of_edit:
  assumes "stored_inv st" "apply_edit (st_base st) (st_live st) (st_conflicts st) edit = Inr (Some r)"
  shows "view_of (edit_stored st r) = view_edit edit (view_of st)" "stored_inv (edit_stored st r)"
proof -
  obtain nxt touched where es: "edit_section (st_base st) (st_live st) edit = Inr (Some (nxt, touched))"
    and r: "ed_live r = nxt" "ed_conflicts r = fold bs_remove touched (st_conflicts st)"
    using assms(2) by (auto simp: apply_edit_def elim!: res_bind_InrE split: option.splits prod.splits)
  note e = edit_section_some [OF es]
  have live: "role_set nxt = next_roles (st_live st) edit" using e(4) by blast
  have "set (st_conflicts st) - {e. edit_touches (st_live st) edit e}
      = {e \<in> set (st_conflicts st). next_roles (st_live st) edit e = role_set (st_live st) e}"
    using next_roles_touched by auto
  then show "view_of (edit_stored st r) = view_edit edit (view_of st)"
    unfolding view_edit_view by (simp add: view_of_def edit_stored_def r live e(3) set_fold_bs_remove)
  show "stored_inv (edit_stored st r)"
    using assms(1) e(2,5,6) by (simp add: stored_inv_def edit_stored_def r bs_inv_fold_remove)
qed

lemma view_of_no_edit:
  assumes "apply_edit (st_base st) (st_live st) (st_conflicts st) edit = Inr None"
  shows "view_edit edit (view_of st) = view_of st"
proof -
  have "edit_section (st_base st) (st_live st) edit = Inr None"
    using assms by (auto simp: apply_edit_def elim!: res_bind_InrE split: option.splits prod.splits)
  then have "next_roles (st_live st) edit = role_set (st_live st)" by (rule edit_section_none)
  then show ?thesis unfolding view_edit_view by (simp add: view_of_def)
qed

section \<open>The synchronisation as a state machine\<close>

text \<open>
  The store starts from a file, and then either meets a file again (at boot and at each reload) or
  takes a live edit.
\<close>

inductive sync_step :: "stored \<Rightarrow> stored \<Rightarrow> bool" where
  merge_step: "section_inv fs \<Longrightarrow> sync_step st (mg_stored (merge (Some st) fs))"
| edit_step: "apply_edit (st_base st) (st_live st) (st_conflicts st) edit = Inr (Some r)
    \<Longrightarrow> sync_step st (edit_stored st r)"

inductive sync_reach :: "stored \<Rightarrow> bool" where
  reach_created: "section_inv fs \<Longrightarrow> sync_reach (mg_stored (merge None fs))"
| reach_step: "sync_reach st \<Longrightarrow> sync_step st st' \<Longrightarrow> sync_reach st'"

inductive_cases sync_stepE: "sync_step st st'"

definition fail_closed :: "sync_view \<Rightarrow> bool" where
  "fail_closed v \<longleftrightarrow> (\<forall>e. e \<in> sv_conflicts v \<longrightarrow> sv_live v e \<subseteq> {ADVERSARY_ROLE} \<and> sv_live v e \<noteq> sv_base v e)"

lemma merge3_fail_closed:
  assumes "conflicted \<Longrightarrow> l \<subseteq> {ADVERSARY_ROLE}" "merge3 conflicted b l f = (v, True)"
  shows "v \<subseteq> {ADVERSARY_ROLE} \<and> v \<noteq> f"
  using assms by (auto simp: merge3_def Let_def split: if_splits)

lemma view_merge_fail_closed: "fail_closed v \<Longrightarrow> fail_closed (view_merge v f)"
proof -
  assume v: "fail_closed v"
  show ?thesis
    unfolding fail_closed_def
  proof (intro allI impI)
    fix e
    let ?m = "merge3 (e \<in> sv_conflicts v) (sv_base v e) (sv_live v e) (f e)"
    assume "e \<in> sv_conflicts (view_merge v f)"
    then have "?m = (fst ?m, True)" by (simp add: view_merge_def Let_def prod_eq_iff)
    moreover have "e \<in> sv_conflicts v \<Longrightarrow> sv_live v e \<subseteq> {ADVERSARY_ROLE}" using v by (simp add: fail_closed_def)
    ultimately have "fst ?m \<subseteq> {ADVERSARY_ROLE} \<and> fst ?m \<noteq> f e" using merge3_fail_closed by blast
    then show "sv_live (view_merge v f) e \<subseteq> {ADVERSARY_ROLE}
        \<and> sv_live (view_merge v f) e \<noteq> sv_base (view_merge v f) e"
      by (simp add: view_merge_def Let_def)
  qed
qed

lemma view_edit_fail_closed: "fail_closed v \<Longrightarrow> fail_closed (view_edit edit v)"
  by (auto simp: fail_closed_def view_edit_def Let_def)

lemma sync_step_inv:
  assumes "sync_step st st'" "stored_inv st" "fail_closed (view_of st)"
  shows "stored_inv st' \<and> fail_closed (view_of st')"
  using assms
proof cases
  case (merge_step fs)
  with assms show ?thesis
    by (simp add: merge_inv view_of_merge view_merge_fail_closed)
next
  case (edit_step edit r)
  with assms show ?thesis
    by (simp add: view_of_edit view_edit_fail_closed)
qed

lemma sync_reach_inv: "sync_reach st \<Longrightarrow> stored_inv st \<and> fail_closed (view_of st)"
proof (induction rule: sync_reach.induct)
  case (reach_created fs)
  then show ?case by (simp add: merge_def stored_inv_def fail_closed_def view_of_def)
next
  case (reach_step st st')
  then show ?case by (intro sync_step_inv [of st]) simp_all
qed

lemma listed_agree:
  assumes "\<And>e. e \<in> set (section_entries a) \<Longrightarrow> role_set a e = role_set b e"
    "\<And>e. e \<in> set (section_entries b) \<Longrightarrow> role_set a e = role_set b e"
  shows "role_set a e = role_set b e"
  using assms [of e] role_set_unlisted [of e a] role_set_unlisted [of e b]
  by (cases "e \<in> set (section_entries a)"; cases "e \<in> set (section_entries b)") simp_all

lemma equivalent_iff: "equivalent a b \<longleftrightarrow> is_present a = is_present b \<and> (\<forall>e. role_set a e = role_set b e)"
proof -
  have "(\<forall>e. role_set a e = role_set b e)" if "\<not> list_ex (differs a b) (section_entries a @ section_entries b)"
    by (rule allI, rule listed_agree) (use that in \<open>auto simp: list_ex_iff differs_def roles_of_eq_iff\<close>)
  moreover have "\<not> list_ex (differs a b) (section_entries a @ section_entries b)" if "\<forall>e. role_set a e = role_set b e"
    using that by (simp add: list_ex_iff differs_def roles_of_eq_iff)
  ultimately show ?thesis unfolding equivalent_def by blast
qed

lemma unsynced_zero_iff: "unsynced base live = 0 \<longleftrightarrow> (\<forall>e. role_set base e = role_set live e)"
proof -
  have "(\<forall>e. role_set base e = role_set live e)" if "unsynced base live = 0"
    by (rule allI, rule listed_agree)
      (use that in \<open>auto simp: unsynced_def filter_empty_conv set_fold_push_unique differs_def roles_of_eq_iff\<close>)
  moreover have "unsynced base live = 0" if "\<forall>e. role_set base e = role_set live e"
    using that by (simp add: unsynced_def filter_empty_conv differs_def roles_of_eq_iff)
  ultimately show ?thesis by blast
qed

lemma merge3_agree: "merge3 conflicted b l l = (l, False)"
  by (simp add: merge3_def)

lemma merge_value_quiet:
  assumes "e \<notin> set (st_conflicts st)" "roles_of fs e = roles_of (st_base st) e"
  shows "merge_value st fs e ms = (roles_of (st_live st) e, ms)"
  using assms by (simp add: merge_value_def Let_def)

lemma merge_loop_quiet:
  assumes "st_conflicts st = []" "\<And>e. roles_of fs e = roles_of (st_base st) e"
  shows "ms_root (fold (merge_entry st fs) us ms) = ms_root ms"
    "ms_agreed (fold (merge_entry st fs) us ms) = ms_agreed ms"
    "ms_events (fold (merge_entry st fs) us ms) = ms_events ms"
  using assms by (induction us arbitrary: ms) (simp_all add: merge_entry_def merge_value_quiet)

lemma merge_quiet:
  assumes "st_conflicts st = []" "st_base st = fs"
  shows "mg_kind (merge (Some st) fs) = Unchanged" "mg_events (merge (Some st) fs) = []"
  using assms merge_loop_quiet [of st fs]
  by (simp_all add: merge_def merge_kind_def merge_start_def Let_def)

lemma merge_agree:
  assumes "stored_inv st" "section_inv fs" "equivalent fs (st_live st)"
  shows "st_conflicts (mg_stored (merge (Some st) fs)) = []"
    "st_base (mg_stored (merge (Some st) fs)) = fs"
    "role_set (st_live (mg_stored (merge (Some st) fs))) e = role_set (st_live st) e"
proof -
  have pres: "is_present fs \<or> \<not> is_present (st_base st)" and eq: "role_set fs e = role_set (st_live st) e" for e
    using assms by (auto simp: stored_inv_def equivalent_iff)
  note m = merge_stored [OF pres assms(1,2)]
  have em: "entry_merge st fs e = (role_set (st_live st) e, False)" for e
    by (simp add: entry_merge_def eq merge3_agree)
  then have "set (st_conflicts (mg_stored (merge (Some st) fs))) = {}" by (simp add: m(3))
  then show "st_conflicts (mg_stored (merge (Some st) fs)) = []" by simp
  show "st_base (mg_stored (merge (Some st) fs)) = fs" by (rule m(1))
  show "role_set (st_live (mg_stored (merge (Some st) fs))) e = role_set (st_live st) e"
    by (simp add: m(2) em)
qed

section \<open>Properties\<close>

text \<open>
  C33. The merge and the live edits implement the entry-by-entry specification. Reading a stored
  state as the roles each entry holds in the base and in the live section and as its set of open
  conflicts, a merge with a file gives exactly the three-way merge of every entry (or leaves the
  state as it is when the file lost its bindings), a live edit changes exactly its targets and
  closes exactly the conflicts of the entries it changed, an edit that reports no change would
  change nothing, and every result is again a well-formed state.
\<close>

theorem sync_refines:
  assumes "stored_inv st" "section_inv fs"
  shows "view_of (mg_stored (merge (Some st) fs))
      = (if is_present (st_base st) \<and> \<not> is_present fs then view_of st else view_merge (view_of st) (role_set fs))
    \<and> stored_inv (mg_stored (merge (Some st) fs))
    \<and> (apply_edit (st_base st) (st_live st) (st_conflicts st) edit = Inr (Some r)
         \<longrightarrow> view_of (edit_stored st r) = view_edit edit (view_of st) \<and> stored_inv (edit_stored st r))
    \<and> (apply_edit (st_base st) (st_live st) (st_conflicts st) edit = Inr None
         \<longrightarrow> view_edit edit (view_of st) = view_of st)"
proof (intro conjI impI)
  show "view_of (mg_stored (merge (Some st) fs))
      = (if is_present (st_base st) \<and> \<not> is_present fs then view_of st else view_merge (view_of st) (role_set fs))"
    by (rule view_of_merge [OF assms])
  show "stored_inv (mg_stored (merge (Some st) fs))" by (rule merge_inv [OF assms])
  assume some: "apply_edit (st_base st) (st_live st) (st_conflicts st) edit = Inr (Some r)"
  show "view_of (edit_stored st r) = view_edit edit (view_of st)" by (rule view_of_edit(1) [OF assms(1) some])
  show "stored_inv (edit_stored st r)" by (rule view_of_edit(2) [OF assms(1) some])
next
  assume "apply_edit (st_base st) (st_live st) (st_conflicts st) edit = Inr None"
  then show "view_edit edit (view_of st) = view_of st" by (rule view_of_no_edit)
qed

definition sample_file :: "string \<Rightarrow> bind_section" where
  "sample_file role = SPresent (bt_entry role [] (push_unique (Name ''bob'')) [(''admin'', [Name ''root''])])"

definition sample_stored :: stored where
  "sample_stored = \<lparr>st_base = sample_file ''user'', st_live = sample_file ''adversary'', st_conflicts = []\<rparr>"

lemma sample_sections:
  "section_inv (sample_file role)" "is_present (sample_file role)" "stored_inv sample_stored"
  by (simp_all add: section_inv_def sample_file_def stored_inv_def sample_stored_def)

lemma sample_roles_of:
  "role_set (sample_file ''user'') (Name ''bob'') = {''user''}"
  "role_set (sample_file ''adversary'') (Name ''bob'') = {''adversary''}"
  "role_set (sample_file ''admin'') (Name ''bob'') = {''admin''}"
  by (simp_all add: sample_file_def roles_of_def bt_entry_def push_unique_def)

theorem sync_refines_witness:
  "sv_live (view_of (mg_stored (merge (Some sample_stored) (sample_file ''admin'')))) (Name ''bob'') = {''adversary''}
   \<and> Name ''bob'' \<in> sv_conflicts (view_of (mg_stored (merge (Some sample_stored) (sample_file ''admin''))))"
proof -
  have "view_of (mg_stored (merge (Some sample_stored) (sample_file ''admin'')))
      = view_merge (view_of sample_stored) (role_set (sample_file ''admin''))"
    using sync_refines [OF sample_sections(3) sample_sections(1), of "''admin''"] sample_sections(2) [of "''admin''"]
    by simp
  then show ?thesis
    by (simp add: view_merge_def view_of_def sample_stored_def sample_roles_of merge3_def ADVERSARY_ROLE_def)
qed

text \<open>
  C34. Conflicts fail closed. In every state the synchronisation can reach, an entry in open
  conflict holds no role in the live section but adversary, and the live section differs from the
  file's there; and whatever file arrives next, an entry gains a role other than adversary only if
  the file lists it, and a contained entry leaves containment only if the file changed that entry
  and no longer contains it.
\<close>

theorem conflicts_fail_closed:
  assumes "sync_reach st" "section_inv fs"
  shows "(e \<in> set (st_conflicts st)
         \<longrightarrow> role_set (st_live st) e \<subseteq> {ADVERSARY_ROLE} \<and> differs (st_base st) (st_live st) e)
    \<and> (r \<in> role_set (st_live (mg_stored (merge (Some st) fs))) e \<and> r \<notin> role_set (st_live st) e \<and> r \<noteq> ADVERSARY_ROLE
         \<longrightarrow> r \<in> role_set fs e)
    \<and> (ADVERSARY_ROLE \<in> role_set (st_live st) e \<and> ADVERSARY_ROLE \<notin> role_set (st_live (mg_stored (merge (Some st) fs))) e
         \<longrightarrow> ADVERSARY_ROLE \<notin> role_set fs e \<and> differs (st_base st) fs e)"
proof -
  have inv: "stored_inv st" and closed: "fail_closed (view_of st)" using sync_reach_inv [OF assms(1)] by simp_all
  have live: "role_set (st_live (mg_stored (merge (Some st) fs))) e
      = (if is_present (st_base st) \<and> \<not> is_present fs then role_set (st_live st) e else fst (entry_merge st fs e))"
    using merge_lost [of st fs] merge_stored(2) [OF _ inv assms(2), of e] by auto
  have "(r \<in> fst (entry_merge st fs e) \<and> r \<notin> role_set (st_live st) e \<and> r \<noteq> ADVERSARY_ROLE \<longrightarrow> r \<in> role_set fs e)
    \<and> (ADVERSARY_ROLE \<in> role_set (st_live st) e \<and> ADVERSARY_ROLE \<notin> fst (entry_merge st fs e)
         \<longrightarrow> ADVERSARY_ROLE \<notin> role_set fs e \<and> differs (st_base st) fs e)"
    unfolding entry_merge_def merge3_def Let_def differs_def roles_of_eq_iff by auto
  moreover have "e \<in> set (st_conflicts st)
      \<longrightarrow> role_set (st_live st) e \<subseteq> {ADVERSARY_ROLE} \<and> differs (st_base st) (st_live st) e"
    using closed by (simp add: fail_closed_def view_of_def differs_def roles_of_eq_iff) metis
  ultimately show ?thesis unfolding live by (cases "is_present (st_base st) \<and> \<not> is_present fs") auto
qed

lemma sample_reach: "sync_reach (mg_stored (merge (Some (mg_stored (merge None (sample_file ''user'')))) (sample_file ''admin'')))"
  by (rule reach_step [OF reach_created merge_step]) (rule sample_sections)+

theorem conflicts_fail_closed_witness:
  "ADVERSARY_ROLE \<notin> role_set (sample_file ''guest'') (Name ''bob'')
   \<and> (\<exists>st. sync_reach st \<and> ADVERSARY_ROLE \<in> role_set (st_live st) (Name ''bob'')
        \<and> differs (st_base st) (sample_file ''guest'') (Name ''bob''))"
proof -
  let ?st = "mg_stored (merge None (sample_file ''adversary''))"
  have reach: "sync_reach ?st" by (rule reach_created) (rule sample_sections)
  have contained: "ADVERSARY_ROLE \<in> role_set (st_live ?st) (Name ''bob'')"
    by (simp add: merge_def sample_roles_of ADVERSARY_ROLE_def)
  have "ADVERSARY_ROLE \<notin> role_set (st_live (mg_stored (merge (Some ?st) (sample_file ''guest'')))) (Name ''bob'')"
    by code_simp
  with contained conflicts_fail_closed [OF reach sample_sections(1), of "Name ''bob''" "''guest''"]
  show ?thesis using reach by blast
qed

text \<open>
  C35. Synchronisation always converges. From every reachable state, once \<open>bindings.yaml\<close> holds what
  the live section holds (and the live section itself is such a file), one merge closes every
  conflict, leaves nothing unsynced and keeps every entry's live roles; merging that file again
  reports an unchanged state without events and still keeps them.
\<close>

theorem sync_converges:
  assumes "sync_reach st" "section_inv fs" "equivalent fs (st_live st)"
  shows "st_conflicts (mg_stored (merge (Some st) fs)) = []
    \<and> unsynced (st_base (mg_stored (merge (Some st) fs))) (st_live (mg_stored (merge (Some st) fs))) = 0
    \<and> equivalent (st_live (mg_stored (merge (Some st) fs))) (st_live st)
    \<and> mg_kind (merge (Some (mg_stored (merge (Some st) fs))) fs) = Unchanged
    \<and> mg_events (merge (Some (mg_stored (merge (Some st) fs))) fs) = []
    \<and> equivalent (st_live (mg_stored (merge (Some (mg_stored (merge (Some st) fs))) fs))) (st_live st)
    \<and> section_inv (st_live st) \<and> equivalent (st_live st) (st_live st)"
proof -
  have inv: "stored_inv st" using sync_reach_inv [OF assms(1)] by simp
  let ?st = "mg_stored (merge (Some st) fs)"
  note m = merge_agree [OF inv assms(2,3)]
  have inv': "stored_inv ?st" by (rule merge_inv [OF inv assms(2)])
  have same: "equivalent (st_live ?st) (st_live st)"
    using inv' assms(3) m(2) by (simp add: equivalent_iff m(3) stored_inv_def)
  then have again: "equivalent fs (st_live ?st)" using assms(3) by (simp add: equivalent_iff)
  note m' = merge_agree [OF inv' assms(2) again] and inv'' = merge_inv [OF inv' assms(2)]
  have "unsynced (st_base ?st) (st_live ?st) = 0"
    using assms(3) by (simp add: unsynced_zero_iff m(2,3) equivalent_iff)
  moreover have "equivalent (st_live (mg_stored (merge (Some ?st) fs))) (st_live st)"
    using inv'' same again m'(2) by (simp add: equivalent_iff m'(3) stored_inv_def)
  ultimately show ?thesis
    using m(1) same merge_quiet [OF m(1,2)] inv by (simp add: stored_inv_def equivalent_iff)
qed

theorem sync_converges_witness:
  "\<exists>st. sync_reach st \<and> st_conflicts (mg_stored (merge (Some st) (st_live st))) = []"
proof -
  note reach = sample_reach
  let ?st = "mg_stored (merge (Some (mg_stored (merge None (sample_file ''user'')))) (sample_file ''admin''))"
  have "section_inv (st_live ?st)" using sync_reach_inv [OF reach] by (simp add: stored_inv_def)
  moreover have "equivalent (st_live ?st) (st_live ?st)" by (simp add: equivalent_iff)
  ultimately show ?thesis using sync_converges [OF reach] reach by blast
qed

end
