(* ===== verification/Pdp.thy ===== *)
theory Pdp
  imports Handler SnapshotSite BindingsSync
begin

text \<open>
  The kernel's policy decision point (\<open>crates/maknae-kernel/src/composition.rs\<close>: the installed
  baseline and the ceiling, with the live configuration of \<open>live.rs\<close>), the breaker in front of
  blocking work (\<open>blocking_guard.rs\<close>) and the pure containment decisions (\<open>containment.rs\<close>). The
  lemmas show what the composed decision permits. Times are nanoseconds of the monotonic clock; the
  debug rendering of text (\<open>dbg\<close>) is an argument.
\<close>

section \<open>The live configuration\<close>

type_synonym config_view = "(string, (string, string) btree) btree"

record provider_authority =
  pa_set :: "authorized_provider list"
  pa_user_prefix :: string

definition provider_authority_of :: "authorized_provider list \<Rightarrow> string option \<Rightarrow> provider_authority option" where
  "provider_authority_of ps user_prefix =
     (case user_prefix of
        Some p \<Rightarrow> if ps \<noteq> [] then Some \<lparr>pa_set = ps, pa_user_prefix = p\<rparr> else None
      | None \<Rightarrow> None)"

record live_config =
  lc_view :: config_view
  lc_providers :: "provider_authority option"
  lc_generation :: u64

record live_values =
  lv_principal :: principal
  lv_view :: config_view
  lv_providers :: "provider_authority option"

definition live_config_new :: "config_view \<Rightarrow> provider_authority option \<Rightarrow> live_config" where
  "live_config_new view providers = \<lparr>lc_view = view, lc_providers = providers, lc_generation = 0\<rparr>"

definition live_config_install :: "config_view \<Rightarrow> provider_authority option \<Rightarrow> live_config \<Rightarrow> live_config" where
  "live_config_install view providers lc =
     \<lparr>lc_view = view, lc_providers = providers, lc_generation = lc_generation lc + 1\<rparr>"

section \<open>The composition\<close>

record composition =
  co_baseline :: basic_authorizer
  co_system :: class_policy
  co_ceiling :: ceiling
  co_live :: live_config

definition composition_new :: "basic_authorizer \<Rightarrow> class_policy \<Rightarrow> ceiling \<Rightarrow> composition" where
  "composition_new baseline pol c =
     \<lparr>co_baseline = baseline, co_system = pol, co_ceiling = c, co_live = live_config_new [] None\<rparr>"

definition operands_with :: "composition \<Rightarrow> authorizer \<Rightarrow> authorizer list" where
  "operands_with co discretionary = [discretionary, ceiling_authorizer (co_system co) (co_ceiling co)]"

definition operands :: "composition \<Rightarrow> authorizer list" where
  "operands co = operands_with co (basic_authorizer_of (co_baseline co))"

definition pdp_decide_cited :: "composition \<Rightarrow> request \<Rightarrow> decided" where
  "pdp_decide_cited co req = compose_decide_cited (operands co) req"

definition pdp_decide_cited_all :: "composition \<Rightarrow> request list \<Rightarrow> decided list" where
  "pdp_decide_cited_all co reqs = compose_decide_cited_all (operands co) reqs"

definition pdp_subjects :: "composition \<Rightarrow> subject_binding list option" where
  "pdp_subjects co = compose_subjects (operands co)"

definition pdp_backend_name :: "composition \<Rightarrow> string" where
  "pdp_backend_name co = compose_backend_name (operands co)"

text \<open>\<open>Candidate\<close>: a snapshot decided on with a given principal.\<close>

definition candidate_of :: "snapshot \<Rightarrow> principal \<Rightarrow> authorizer" where
  "candidate_of s prin =
     \<lparr>a_decide_cited = (\<lambda>req. Returns (candidate_decide_cited s prin req)),
      a_decide_cited_all = (\<lambda>reqs. Returns (decide_each_cited (candidate_decide_cited s prin) reqs)),
      a_subjects = Returns None, a_backend_name = Returns ''unknown''\<rparr>"

definition decide_candidate_all :: "composition \<Rightarrow> snapshot \<Rightarrow> request list \<Rightarrow> decided list" where
  "decide_candidate_all co candidate reqs =
     compose_decide_cited_all (operands_with co (candidate_of candidate (ba_principal (co_baseline co)))) reqs"

definition install_in :: "bool \<Rightarrow> live_values \<Rightarrow> composition \<Rightarrow> string + composition" where
  "install_in holds vals co =
     (if \<not> holds then Inl ''the live values are installed only in this composition's own turn''
      else res_bind (install_principal holds (lv_principal vals) (co_baseline co)) (\<lambda>baseline.
        Inr (co\<lparr>co_baseline := baseline,
                co_live := live_config_install (lv_view vals) (lv_providers vals) (co_live co)\<rparr>)))"

definition install_baseline :: "snapshot \<Rightarrow> composition \<Rightarrow> composition" where
  "install_baseline s co = co\<lparr>co_baseline := install s (co_baseline co)\<rparr>"

section \<open>The breaker in front of blocking work\<close>

record blocking_breaker =
  bb_consecutive_timeouts :: nat
  bb_in_flight :: nat
  bb_opened_at :: "nat option"
  bb_last_refusal_logged_at :: "nat option"
  bb_trip_after :: nat
  bb_max_in_flight :: nat
  bb_reset_after :: nat
  bb_refusal_log_every :: nat

datatype breaker_admission = BrAdmit | BrRefuseOpen | BrRefuseAtCapacity

datatype breaker_transition = RemainsClosed | Tripped

definition NANOS :: nat where "NANOS = 1000000000"

definition breaker_new :: "nat \<Rightarrow> blocking_breaker" where
  "breaker_new trip_after =
     \<lparr>bb_consecutive_timeouts = 0, bb_in_flight = 0, bb_opened_at = None, bb_last_refusal_logged_at = None,
      bb_trip_after = trip_after, bb_max_in_flight = 32, bb_reset_after = 30 * NANOS,
      bb_refusal_log_every = 30 * NANOS\<rparr>"

definition breaker_is_open_at :: "nat \<Rightarrow> blocking_breaker \<Rightarrow> bool" where
  "breaker_is_open_at now b = (case bb_opened_at b of None \<Rightarrow> False | Some t \<Rightarrow> now - t < bb_reset_after b)"

definition breaker_begin_attempt_at :: "nat \<Rightarrow> blocking_breaker \<Rightarrow> breaker_admission \<times> blocking_breaker" where
  "breaker_begin_attempt_at now b =
     (if bb_trip_after b = 0 then (BrRefuseOpen, b)
      else if breaker_is_open_at now b then (BrRefuseOpen, b)
      else if bb_opened_at b \<noteq> None then
        if bb_in_flight b = 0 then (BrAdmit, b\<lparr>bb_in_flight := 1\<rparr>) else (BrRefuseOpen, b)
      else if bb_in_flight b < bb_max_in_flight b then (BrAdmit, b\<lparr>bb_in_flight := bb_in_flight b + 1\<rparr>)
      else (BrRefuseAtCapacity, b))"

definition breaker_should_log_refusal_at :: "nat \<Rightarrow> blocking_breaker \<Rightarrow> bool \<times> blocking_breaker" where
  "breaker_should_log_refusal_at now b =
     (let should_log = (case bb_last_refusal_logged_at b of
                          None \<Rightarrow> True | Some t \<Rightarrow> bb_refusal_log_every b \<le> now - t)
      in (should_log, if should_log then b\<lparr>bb_last_refusal_logged_at := Some now\<rparr> else b))"

definition breaker_record_success :: "blocking_breaker \<Rightarrow> blocking_breaker" where
  "breaker_record_success b =
     b\<lparr>bb_in_flight := bb_in_flight b - 1, bb_consecutive_timeouts := 0, bb_opened_at := None\<rparr>"

definition breaker_record_timeout_at :: "nat \<Rightarrow> blocking_breaker \<Rightarrow> breaker_transition \<times> blocking_breaker" where
  "breaker_record_timeout_at now b =
     (let b1 = b\<lparr>bb_in_flight := bb_in_flight b - 1,
                 bb_consecutive_timeouts := min 255 (bb_consecutive_timeouts b + 1)\<rparr>
      in if bb_trip_after b1 \<le> bb_consecutive_timeouts b1
         then (Tripped, b1\<lparr>bb_consecutive_timeouts := bb_trip_after b1, bb_opened_at := Some now\<rparr>)
         else (RemainsClosed, b1))"

section \<open>Containment decisions\<close>

datatype live_refusal =
    LrBusy | LrStopping | LrNoExplicitBindings | LrLastReleaser | LrSelfContainWithoutRelease
  | LrAlreadyContained | LrNotContained | LrLookupUnavailable
  | LrUnauthorized string
  | LrFailed string

datatype contain_kind = KContain | KRelease | KKernelContain

datatype live_check = CheckNone | CheckContain u32 u32 | CheckKernelContain u32

datatype live_op = OpEdit live_edit | OpRelease u32 "string option"

fun outcome_of :: "live_refusal \<Rightarrow> string + containment_outcome" where
  "outcome_of LrBusy = Inr Busy"
| "outcome_of LrStopping = Inr Stopping"
| "outcome_of LrNoExplicitBindings = Inr containment_outcome.NoExplicitBindings"
| "outcome_of LrLastReleaser = Inr LastReleaser"
| "outcome_of LrSelfContainWithoutRelease = Inr SelfContainWithoutRelease"
| "outcome_of LrAlreadyContained = Inr AlreadyContained"
| "outcome_of LrNotContained = Inr NotContained"
| "outcome_of LrLookupUnavailable = Inr LookupUnavailable"
| "outcome_of (LrFailed why) = Inl why"
| "outcome_of (LrUnauthorized why) = Inl why"

definition record_class :: "containment_outcome \<Rightarrow> string \<times> string" where
  "record_class c =
     (if c \<in> {LastReleaser, SelfContainWithoutRelease, containment_outcome.NoExplicitBindings, UnknownAccount}
      then (''deny'', ''refused'')
      else if c \<in> {Busy, Stopping, LookupUnavailable} then (''deny'', ''unavailable'')
      else if c \<in> {AlreadyContained, NotContained} then (''permit'', ''unchanged'')
      else (''permit'', ''authorized''))"

definition corrective ::
  "(string \<Rightarrow> string) \<Rightarrow> contain_kind \<Rightarrow> containment_outcome \<Rightarrow> u32 option \<Rightarrow> string \<Rightarrow> string option \<Rightarrow> string" where
  "corrective dbg verb c uid detail reason =
     (let word = (case verb of KContain \<Rightarrow> ''contain'' | KRelease \<Rightarrow> ''release''
                   | KKernelContain \<Rightarrow> ''kernel containment'');
          who = (case uid of None \<Rightarrow> ''the subject'' | Some u \<Rightarrow> ''uid '' @ show_word u);
          text =
            (if c = LastReleaser then
               ''containing '' @ who @ '' would leave no uncontained subject holding admin.release''
             else if c = SelfContainWithoutRelease then
               who @ '' does not hold admin.release and cannot contain itself''
             else if c = AlreadyContained then who @ '' is already contained''
             else if c = NotContained then who @ '' is not contained''
             else if c = containment_outcome.NoExplicitBindings then
               ''bindings.yaml has no bindings: key; a live identity edit needs explicit bindings''
             else if detail = [] then outcome_text c else detail);
          out =
            (if fst (record_class c) = ''deny''
             then word @ '' refused: '' @ outcome_code c @ '': '' @ text
             else word @ '' '' @ snd (record_class c) @ '': '' @ text)
      in case reason of None \<Rightarrow> out | Some r \<Rightarrow> out @ ''; reason '' @ dbg r)"

definition nothing_released :: "identity_layer \<Rightarrow> u32 \<Rightarrow> live_refusal" where
  "nothing_released layer uid =
     (if contains_uid layer uid then LrFailed ''the release found no claimant for a contained uid''
      else LrNotContained)"

definition release_target :: "u32 \<Rightarrow> string option \<Rightarrow> (string, u32) btree \<Rightarrow> u32" where
  "release_target uid named cs =
     (case Option.bind named (bt_get cs) of Some u \<Rightarrow> u | None \<Rightarrow> uid)"

definition release_names :: "u32 \<Rightarrow> string option \<Rightarrow> (string, u32) btree \<Rightarrow> string list" where
  "release_names uid named cs =
     bs_of_list (map fst (filter (\<lambda>(_, u). u = uid) cs) @ (case named of None \<Rightarrow> [] | Some n \<Rightarrow> [n]))"

definition unanswered :: "bind_section \<Rightarrow> live_edit \<Rightarrow> (string \<Rightarrow> bool) \<Rightarrow> string option" where
  "unanswered live edit known =
     (let own = (case edit of EContain (Name n) \<Rightarrow> Some n | EBind n _ \<Rightarrow> Some n | _ \<Rightarrow> None)
      in find_map (\<lambda>e. case e of
             Name n \<Rightarrow> if Some n \<noteq> own \<and> \<not> known n then Some n else None
           | Uid _ \<Rightarrow> None) (section_entries live))"

definition binds_target_by_uid :: "live_check \<Rightarrow> live_edit \<Rightarrow> bool" where
  "binds_target_by_uid check edit =
     (case check of
        CheckNone \<Rightarrow> True
      | CheckContain target _ \<Rightarrow> edit = EContain (Uid target)
      | CheckKernelContain target \<Rightarrow> edit = EContain (Uid target))"

definition denial :: "decided \<Rightarrow> string option" where
  "denial d =
     (case finalize (combine [d_verdict d]) of
        DecPermit obligations \<Rightarrow>
          (case discharge_plan obligations of
             Inl (UnhonorableObligation i) \<Rightarrow> Some (''unhonorable obligation: '' @ i)
           | Inr _ \<Rightarrow> None)
      | DecDeny reason \<Rightarrow> Some reason)"

definition permits :: "decided \<Rightarrow> bool" where
  "permits d \<longleftrightarrow> denial d = None"

record probed =
  pb_self_holds :: "bool option"
  pb_releasers :: "bool list option"

datatype probe_error = PeBusy | PeFailed string

definition releaser_uids :: "listed_subject list option \<Rightarrow> probe_error + u32 list" where
  "releaser_uids entries =
     ok_or (PeFailed ''the candidate lists no subjects to probe'')
       (map_option (List.map_filter ls_uid) entries)"

definition check_contain :: "u32 \<Rightarrow> u32 option \<Rightarrow> probe_error + probed \<Rightarrow> live_refusal + unit" where
  "check_contain target requester pr =
     (case pr of
        Inl PeBusy \<Rightarrow> Inl LrBusy
      | Inl (PeFailed why) \<Rightarrow> Inl (LrFailed why)
      | Inr p \<Rightarrow>
          res_bind
            (if requester = Some target
             then (case pb_self_holds p of
                     Some True \<Rightarrow> Inr ()
                   | Some False \<Rightarrow> Inl LrSelfContainWithoutRelease
                   | None \<Rightarrow> Inl (LrFailed ''the self-contain probe gave no answer''))
             else Inr ())
            (\<lambda>_. case pb_releasers p of
                    Some v \<Rightarrow> if True \<in> set v then Inr () else Inl LrLastReleaser
                  | None \<Rightarrow> Inl (LrFailed ''the releaser probe gave no answer'')))"

definition check_for :: "contain_kind \<Rightarrow> u32 \<Rightarrow> u32 \<Rightarrow> live_check" where
  "check_for kind target requester =
     (case kind of
        KRelease \<Rightarrow> CheckNone
      | KContain \<Rightarrow> CheckContain target requester
      | KKernelContain \<Rightarrow> CheckKernelContain target)"

definition normalise_operands ::
  "(string \<Rightarrow> string) \<Rightarrow> (nat \<Rightarrow> general_category) \<Rightarrow> verb \<Rightarrow> (string \<times> operand_error) + verb" where
  "normalise_operands nfc gc v =
     (case v of
        AdminContain target reason \<Rightarrow>
          res_bind (map_err (Pair ''contain'') (contain_target_checked nfc gc target)) (\<lambda>t.
          res_bind (map_err (Pair ''contain'') (contain_reason nfc gc reason)) (\<lambda>r.
            Inr (AdminContain t r)))
      | AdminRelease target \<Rightarrow>
          res_bind (map_err (Pair ''release'') (contain_target_checked nfc gc target)) (\<lambda>t. Inr (AdminRelease t))
      | _ \<Rightarrow> Inr v)"

definition release_probe :: verb where
  "release_probe = AdminRelease (TUid 0)"

definition probe_request :: "u32 \<Rightarrow> request" where
  "probe_request uid = build_authz_request release_probe uid None Local None"

section \<open>What the decision point permits\<close>

definition subject_reaches :: "loaded_policy \<Rightarrow> principal \<Rightarrow> request \<Rightarrow> bool" where
  "subject_reaches lp prin req \<longleftrightarrow>
     (\<exists>uid. subject_uid req = Some uid
        \<and> (if class_of (action req) = Some CKernel then kernel_granted req
           else \<exists>role. lp_role_for lp uid (p_uid prin) = RRole role \<and> role_granted lp req uid role))"

definition within_ceiling :: "class_policy \<Rightarrow> ceiling \<Rightarrow> request \<Rightarrow> bool" where
  "within_ceiling pol c req \<longleftrightarrow>
     is_control_plane (action req)
     \<or> (\<exists>l. resolve_level pol (label_of req) = Inr l \<and> l_rank l \<le> l_rank (c_classification c))"

definition declared_ceiling :: "composition \<Rightarrow> bool" where
  "declared_ceiling co \<longleftrightarrow>
     co_system co \<in> set SYSTEMS \<and> (\<exists>core. ceiling_from_core core (co_system co) = Inr (co_ceiling co))"

lemma nub_single [simp]: "nub [x] = [x]"
  by (simp add: nub_def)

lemma audit_discharged [simp]: "ob_id audit_obligation = ''audit''" "ob_params audit_obligation = []"
  by (simp_all add: audit_obligation_def attrs_new_def)

lemma ob_consistent_audit [simp]: "ob_consistent [audit_obligation]"
  by (simp add: ob_consistent_def)

lemma permits_iff:
  "permits d \<longleftrightarrow> (\<exists>obs. d_verdict d = Permit obs \<and> ob_consistent obs \<and> discharge_plan (nub obs) = Inr ())"
  by (cases "d_verdict d")
    (auto simp: permits_def denial_def combine_cases all_obligations_def is_permit_def is_deny_def
      split: decision.splits sum.splits unhonorable.splits)

lemma ceiling_abstains:
  assumes "declared_ceiling co"
  shows "ceiling_decide (co_system co) (co_ceiling co) req = NotApplicable None \<longleftrightarrow> within_ceiling (co_system co) (co_ceiling co) req"
    and "ceiling_decide (co_system co) (co_ceiling co) req = NotApplicable None
       \<or> is_deny (ceiling_decide (co_system co) (co_ceiling co) req)"
proof -
  obtain core where sys: "classification_system (co_system co) (system_level (co_system co))"
    and c: "ceiling_from_core core (co_system co) = Inr (co_ceiling co)"
    using assms systems_meet_contract unfolding declared_ceiling_def by blast
  note lev = classification_system.parsed_ceiling_level [OF sys c]
  show "ceiling_decide (co_system co) (co_ceiling co) req = NotApplicable None \<longleftrightarrow> within_ceiling (co_system co) (co_ceiling co) req"
    using classification_system.decide_ceiling_absent_iff [OF sys lev, of "action req" "label_of req" None]
    by (simp add: ceiling_decide_def within_ceiling_def)
  show "ceiling_decide (co_system co) (co_ceiling co) req = NotApplicable None
       \<or> is_deny (ceiling_decide (co_system co) (co_ceiling co) req)"
    using classification_system.decide_ceiling_two_valued [OF sys, of "co_ceiling co" "action req" "label_of req"]
    by (simp add: ceiling_decide_def)
qed

lemma permits_pair:
  assumes "d_verdict d = combine [v, w]" "\<And>obs. v = Permit obs \<Longrightarrow> obs = [audit_obligation]"
    and "w = NotApplicable None \<or> is_deny w"
  shows "permits d \<longleftrightarrow> is_permit v \<and> w = NotApplicable None"
proof (cases "w = NotApplicable None")
  case True
  then show ?thesis
    using assms(1,2) by (cases v) (simp_all add: permits_iff combine_cases all_obligations_def)
next
  case False
  then show ?thesis using assms(1,3) by (simp add: permits_iff combine_cases)
qed

lemma composed_permits:
  assumes "declared_ceiling co"
    and a: "a_decide_cited a req = Returns (decide_on s prin req)"
  shows "permits (compose_decide_cited (operands_with co a) req)
     \<longleftrightarrow> subject_reaches (sn_loaded s) prin req \<and> within_ceiling (co_system co) (co_ceiling co) req"
proof -
  let ?v = "cd_verdict (decide_loaded_cited (sn_loaded s) prin req)"
  let ?w = "ceiling_decide (co_system co) (co_ceiling co) req"
  have verdict: "d_verdict (compose_decide_cited (operands_with co a) req) = combine [?v, ?w]"
    using a by (simp add: compose_decide_cited_def operands_with_def guarded_decide_cited_def ceiling_authorizer_def
        default_decide_cited_def decide_on_def cited_on_def)
  have reach: "?v = Permit obs \<longleftrightarrow> obs = [audit_obligation] \<and> subject_reaches (sn_loaded s) prin req" for obs
    unfolding subject_reaches_def by (rule decide_loaded_permits)
  note ceil = ceiling_abstains [OF assms(1), of req]
  have "is_permit ?v \<longleftrightarrow> subject_reaches (sn_loaded s) prin req" using reach by (cases ?v) auto
  moreover have "permits (compose_decide_cited (operands_with co a) req) \<longleftrightarrow> is_permit ?v \<and> ?w = NotApplicable None"
    by (rule permits_pair [OF verdict _ ceil(2)]) (simp add: reach)
  ultimately show ?thesis by (simp only: ceil(1))
qed

lemma pdp_permits:
  assumes "declared_ceiling co"
  shows "permits (pdp_decide_cited co req) \<longleftrightarrow>
     subject_reaches (sn_loaded (ba_snapshot (co_baseline co))) (ba_principal (co_baseline co)) req
     \<and> within_ceiling (co_system co) (co_ceiling co) req"
  unfolding pdp_decide_cited_def operands_def
  by (rule composed_permits [OF assms]) (simp add: basic_authorizer_of_def basic_decide_cited_def)

lemma candidate_batch:
  "decide_candidate_all co s reqs
     = map (compose_decide_cited (operands_with co (candidate_of s (ba_principal (co_baseline co))))) reqs"
  by (rule nth_equalityI)
    (simp_all add: decide_candidate_all_def compose_decide_cited_all_def compose_decide_cited_def operands_with_def
      guarded_decide_cited_all_def guarded_decide_cited_def candidate_of_def ceiling_authorizer_def decide_each_cited_def)

lemma candidate_permits:
  assumes "declared_ceiling co"
  shows "permits (compose_decide_cited (operands_with co (candidate_of s (ba_principal (co_baseline co)))) req) \<longleftrightarrow>
     subject_reaches (sn_loaded s) (ba_principal (co_baseline co)) req
     \<and> within_ceiling (co_system co) (co_ceiling co) req"
  by (rule composed_permits [OF assms]) (simp add: candidate_of_def candidate_decide_cited_def decide_on_def)

lemma i64_to_u32_uint [simp]: "i64_to_u32 (uint (w :: u32)) = Some w"
  using uint_lt2p [of w] by (simp add: i64_to_u32_def)

lemma client_uid [simp]: "subject_uid (build_authz_request v uid home lane adm) = Some uid"
  by (simp add: subject_uid_def build_authz_request_def Let_def attr_key_defs SUBJECT_UID_def
      split: option.splits rpath.splits)

lemma client_action [simp]: "action (build_authz_request v uid home lane adm) = verb_to_action v"
  by (simp add: build_authz_request_def Let_def)

lemma client_not_kernel: "class_of (verb_to_action v) \<noteq> Some CKernel"
  by (cases v; simp add: verb_to_action_def; code_simp)

lemma adversary_reaches_nothing: "\<not> role_granted lp req uid Adversary"
  by (simp add: role_granted_def Let_def)

lemma pdp_batch: "pdp_decide_cited_all co reqs = map (pdp_decide_cited co) reqs"
  by (rule nth_equalityI)
    (simp_all add: pdp_decide_cited_all_def pdp_decide_cited_def operands_def operands_with_def compose_decide_cited_all_def
      compose_decide_cited_def guarded_decide_cited_all_def guarded_decide_cited_def basic_authorizer_of_def
      basic_decide_cited_def basic_decide_cited_all_def ceiling_authorizer_def decide_each_cited_def)

text \<open>
  C39. What the kernel's decision point permits. With a ceiling read from the configuration in one
  of the compiled-in systems, a request is permitted, its obligations discharged, exactly when the
  installed policy lets the subject's role reach it (for a kernel term, when the kernel itself asks
  to contain) and the action is control-plane or its marking is at or below the ceiling. A client's
  request, whatever its verb, is permitted only under a role other than adversary that reaches it:
  no client verb reaches the kernel clause. A batch is decided as its requests one by one, and a
  candidate snapshot is judged as it would be once installed.
\<close>

theorem pdp_permits_exact:
  assumes "declared_ceiling co"
  shows "(permits (pdp_decide_cited co req) \<longleftrightarrow>
      subject_reaches (sn_loaded (ba_snapshot (co_baseline co))) (ba_principal (co_baseline co)) req
      \<and> within_ceiling (co_system co) (co_ceiling co) req)
    \<and> (permits (pdp_decide_cited co (build_authz_request v uid home lane adm)) \<longrightarrow>
      (\<exists>role. lp_role_for (sn_loaded (ba_snapshot (co_baseline co))) uid (p_uid (ba_principal (co_baseline co))) = RRole role
         \<and> role \<noteq> Adversary
         \<and> role_granted (sn_loaded (ba_snapshot (co_baseline co))) (build_authz_request v uid home lane adm) uid role))
    \<and> map permits (pdp_decide_cited_all co reqs) = map (\<lambda>r. permits (pdp_decide_cited co r)) reqs
    \<and> map permits (decide_candidate_all co s reqs)
        = map (\<lambda>r. permits (pdp_decide_cited (install_baseline s co) r)) reqs"
proof -
  have client: "\<exists>role. lp_role_for lp uid (p_uid prin) = RRole role \<and> role \<noteq> Adversary
      \<and> role_granted lp (build_authz_request v uid home lane adm) uid role"
    if "subject_reaches lp prin (build_authz_request v uid home lane adm)" for lp prin
    using that client_not_kernel [of v] adversary_reaches_nothing by (auto simp: subject_reaches_def)
  have installed: "declared_ceiling (install_baseline s co)"
    using assms by (simp add: declared_ceiling_def install_baseline_def)
  have "permits (compose_decide_cited (operands_with co (candidate_of s (ba_principal (co_baseline co)))) r)
      \<longleftrightarrow> permits (pdp_decide_cited (install_baseline s co) r)" for r
    unfolding pdp_permits [OF installed] candidate_permits [OF assms]
    by (simp add: install_baseline_def install_def)
  then show ?thesis
    using pdp_permits [OF assms] client by (simp add: pdp_batch candidate_batch comp_def)
qed

definition site_composition :: "snapshot \<Rightarrow> composition" where
  "site_composition s =
     composition_new (from_snapshot sample_principal (ps_paths site_source) (\<lambda>_. []) s) BasicPolicy sample_ceiling"

lemma site_ceiling: "declared_ceiling (site_composition s)"
  using sample_ceiling_parses
  by (auto simp: declared_ceiling_def site_composition_def composition_new_def SYSTEMS_def)

theorem pdp_permits_exact_witness:
  "\<exists>s. compile (\<lambda>m. m) site_persisted site_source site_vocabulary site_digests = Returns (Inr s)
     \<and> permits (pdp_decide_cited (site_composition s) (build_authz_request Ping 9 None Local None))
     \<and> \<not> permits (pdp_decide_cited (site_composition s) (build_authz_request Ping 7 None Local None))"
proof -
  obtain s where s: "compile (\<lambda>m. m) site_persisted site_source site_vocabulary site_digests = Returns (Inr s)"
    and lp: "lp_policy (sn_loaded s) = site_policy" "lp_subjects (sn_loaded s) = []" by (rule site_compiles)
  let ?ping = "\<lambda>uid. build_authz_request Ping uid None Local None"
  have parts: "ba_snapshot (co_baseline (site_composition s)) = s" "p_uid (ba_principal (co_baseline (site_composition s))) = 5"
    "co_system (site_composition s) = BasicPolicy" "co_ceiling (site_composition s) = sample_ceiling"
    by (simp_all add: site_composition_def composition_new_def from_snapshot_def sample_principal_def)
  have "lp_role_for (sn_loaded s) uid 5 = layer_role site_layer uid 5" for uid
    using compile_roles(1) [OF s build_ok(1) [OF site_built] site_kinds site_extracted] by simp
  then have roles: "lp_role_for (sn_loaded s) 9 5 = RRole User" "lp_role_for (sn_loaded s) 7 5 = RRole Adversary"
    by (simp_all add: layer_role_def site_layer_def role_from_key_def)
  have ping: "verb_to_action Ping = ''liveness.ping''" "class_of ''liveness.ping'' = Some Liveness" by code_simp+
  have "within_ceiling BasicPolicy sample_ceiling (?ping 9)"
    unfolding within_ceiling_def client_action ping by (rule disjI1) code_simp
  moreover have "role_granted (sn_loaded s) (?ping 9) 9 User"
    by (simp add: role_granted_def ping lp action_limit_def Let_def)
  ultimately have "permits (pdp_decide_cited (site_composition s) (?ping 9))"
    using roles(1) pdp_permits_exact [OF site_ceiling, of s "?ping 9"] ping
    by (auto simp: parts subject_reaches_def)
  moreover have "\<not> permits (pdp_decide_cited (site_composition s) (?ping 7))"
    using roles(2) pdp_permits_exact [OF site_ceiling, of s "?ping 7" Ping 7 None Local None] by (auto simp: parts)
  ultimately show ?thesis using s by blast
qed

end
