(* ===== verification/Spec2Isabelle.thy ===== *)
theory Spec2Isabelle
  imports AuditTrail Pdp
begin

text \<open>
  \<^bold>\<open>Verification of the authorization core of maknae.\<close>

  Maknae is a daemon (\<open>maknaed\<close>) that decides, for every verb a local client sends it, whether the
  peer may perform it. The development models the path from the configuration files to the decision
  and to the audit record, in the crates \<open>maknae-security\<close>, \<open>maknae-config\<close>, \<open>maknae-graph\<close>,
  \<open>maknae-authz-basic\<close>, \<open>maknae-classification-aus\<close>, \<open>maknae-proto\<close>, \<open>maknae-audit-append\<close> and
  \<open>maknae-kernel\<close> (all below \<open>src/crates\<close>).

  \<^bold>\<open>How the parts interact.\<close> The files \<open>authz.yaml\<close> and \<open>bindings.yaml\<close> are parsed
  (\<open>Policy\<close>, \<open>Bindings\<close>) and, with the accounts they name looked up, make a policy source
  (\<open>PolicySource\<close>). The identities it declares are stored as an identity layer in the kernel graph
  (\<open>Graph\<close>, \<open>GraphFormat\<close>, \<open>GraphStore\<close>, \<open>Identity\<close>), which keeps a contained subject contained over
  a reload; live edits and file edits of the bindings are merged (\<open>BindingsSync\<close>). Source and stored
  graph are compiled into a snapshot (\<open>Snapshot\<close>), which is installed in the authorizer
  (\<open>SnapshotSite\<close>). The decision core answers a request on it (\<open>Decide\<close>). The kernel turns a verb
  (\<open>Frames\<close>, \<open>Wire\<close>) into a request (\<open>Handler\<close>), and its decision point composes the authorizer with
  the classification ceiling (\<open>Classification\<close>) by the rules of the seam (\<open>Seam\<close>, \<open>Pdp\<close>). What was
  decided is appended to the audit trail (\<open>AuditTrail\<close>).

  \<^bold>\<open>Conventions.\<close> A Rust \<open>String\<close> is the list of its UTF-8 bytes as \<open>char\<close>s. A struct is a record,
  an enum a datatype with the source's variants, an integer a word of its width or, for lengths and
  clock readings, a natural number. \<open>Result\<close> is a sum with the error on the left, chained by
  \<open>res_bind\<close>; code that can panic returns an \<open>outcome\<close>, chained by \<open>try_bind\<close>, so that a theorem that
  it returns is a theorem. \<open>BTreeMap\<close> and \<open>BTreeSet\<close> are sorted lists. Loops are recursive functions
  with termination proofs; no function is bounded by fuel. Code outside the repository is an argument:
  the YAML loader (\<open>load\<close>), the account database (\<open>nss\<close>), the operating system's answers to a read, a
  write and a sync, CBOR decoding, Unicode normalisation and general categories, and the debug
  rendering of text (\<open>dbg\<close>).

  \<^bold>\<open>Shared theories.\<close>
  \<^item> \<open>Prelude\<close>, \<open>RustStr\<close>, \<open>Slices\<close>, \<open>Bytes\<close>: results and outcomes, the string, slice and byte
    operations of the standard library, and \<open>stream_codec\<close>, the contract of a reader that undoes a
    writer, interpreted on the integer, string and frame readers.
  \<^item> \<open>BTree\<close>, \<open>BSet\<close>: ordered maps and sets, each with its laws as a locale (\<open>ordered_map\<close>,
    \<open>ordered_set\<close>) interpreted on the sorted lists.

  \<^bold>\<open>Components and what is shown of them.\<close>
  \<^item> \<open>Seam\<close> models \<open>maknae-security\<close>: attribute bags, obligations, verdicts, the \<open>Authorizer\<close> trait as
    a record of methods, \<open>combine\<close> and the composition with its panic boundaries. C1--C8: a composition
    permits exactly when no operand blocks and one permits without conflicting obligations, whatever
    the order and the notes; a panic never permits; citations, roles, batches, names and subject lists
    come from the operands they should.
  \<^item> \<open>Config\<close> (C9), \<open>Glob\<close> (C10), \<open>Bindings\<close> (C11), \<open>Policy\<close> (C12--C17) model \<open>maknae-config\<close>: the
    value tree and principal, the glob matcher against a declarative reference, role resolution with
    containment first, and the path policy with subject floors, subtree writes, its grammar and the
    sources it cites.
  \<^item> \<open>Decide\<close> models \<open>decide.rs\<close> and the validators of \<open>lib.rs\<close> of \<open>maknae-authz-basic\<close>. C18--C25:
    when exactly a decision permits, containment, lists that only restrict, canonical paths, and the
    tables the validators produce.
  \<^item> \<open>Classification\<close> models the classification systems and the ceiling (\<open>ceiling.rs\<close>,
    \<open>ceiling_authz.rs\<close>); the locale \<open>classification_system\<close> is interpreted on both shipped systems.
    C26, C27: the ceiling operand and the round trip of its configuration.
  \<^item> \<open>Graph\<close>, \<open>GraphFormat\<close>, \<open>GraphStore\<close> model \<open>maknae-graph\<close>'s records, builder, indexes and store
    format. C28--C31: a built graph is sound, its queries are exact, stores and graphs correspond one
    to one, and decoding hostile bytes always returns.
  \<^item> \<open>Identity\<close> models \<open>identity.rs\<close>, \<open>baseline.rs\<close>, \<open>sync.rs\<close>. C32: a reload keeps containment.
  \<^item> \<open>BindingsSync\<close> models \<open>bindings_sync.rs\<close>: the merge as a step relation. C33--C35: refinement of an
    entry-by-entry specification, conflicts that fail closed, convergence.
  \<^item> \<open>PolicySource\<close>, \<open>Snapshot\<close>, \<open>SnapshotSite\<close> model the policy source, the graph-backed role
    resolution and the compiler of \<open>maknae-authz-basic\<close>. C36--C38: a snapshot enforces the declared
    identity layer, contains the contained, and its citations never dangle.
  \<^item> \<open>Frames\<close>, \<open>Wire\<close> model \<open>maknae-proto\<close>: framing, with the round trip of a sequence of frames, and
    the verbs, their classes and the acceptance rules of their fields.
  \<^item> \<open>Handler\<close>, \<open>Pdp\<close> model \<open>handler.rs\<close>, \<open>provider_choice.rs\<close>, \<open>composition.rs\<close>, \<open>live.rs\<close>,
    \<open>blocking_guard.rs\<close> and \<open>containment.rs\<close> of \<open>maknae-kernel\<close>. C39: what the decision point permits.
  \<^item> \<open>AuditTrail\<close> models \<open>scan.rs\<close>, \<open>session.rs\<close>, \<open>blocking_guard.rs\<close> and \<open>sink.rs\<close> of
    \<open>maknae-audit-append\<close>, the concurrent appends as a step relation. C40: an acknowledged record is in
    the trail; a lemma shows that the backward scan finds the newest matching line.

  \<^bold>\<open>Bounds.\<close> Decoding is shown to return on stores below two gigabytes: within that size no counter of
  the encoder can overflow. \<open>encode_fits\<close> collects the panics the encoder can reach; the running
  attribute count is a \<open>u32\<close> addition, which panics where overflow checks are on (a graph would need
  2^32 attributes to get there). The 35 append workers of C40 are the 32 slots of the breaker and the
  three stale slots it may reclaim.

  \<^bold>\<open>Not modelled.\<close> The asynchronous serving loop, egress, mutation exchange, boot and reload of the
  kernel; file access and ownership checks (\<open>maknae-io\<close>); Vault, sealing and the state store's
  cryptography; CBOR and JSON codecs of third-party crates; journald and syslog; the agent side, which
  only proposes; \<open>Display\<close> texts of the graph's format errors and the redacting \<open>Debug\<close> renderings.
  Locks appear as the atomicity of an operation, or, for the live turn, as an argument that says
  whether the caller holds it.
\<close>

end
